(* ===== verification/Goka_Prelude.thy ===== *)
theory Goka_Prelude
  imports Main "HOL-Library.Word" "HOL-Library.List_Lexorder" "HOL-Library.Char_ord"
    "HOL-Library.Multiset"
begin

text \<open>
  Shared vocabulary of the development: the Go types the components exchange, Go's error values,
  panics, 64-bit and 32-bit integer arithmetic with its wrap-around, and the generic lemmas the
  component theories rely on.

  \<^item> A Go \<open>string\<close> and the contents of a \<open>[]byte\<close> are a \<^typ>\<open>string\<close> (a list of bytes); the
    conversions between the two are the identity. A \<open>[]byte\<close> that may be nil is a \<open>slice\<close>.
    The order on strings is the bytewise lexicographic one of \<open>bytes.Compare\<close> and
    \<open>sort.Strings\<close>.
  \<^item> An \<open>int64\<close> or \<open>int32\<close> is an \<^typ>\<open>int\<close>; every arithmetic operation of the source that may
    overflow is written with \<open>wrap64\<close> or \<open>wrap32\<close>, which reduce to two's complement.
  \<^item> An \<open>error\<close> result is a \<open>gerr option\<close> (\<open>None\<close> is nil), a result \<open>(T, error)\<close> is a \<open>'a result\<close>.
    The text of an error is kept as the format string of the source; the values printed into it are
    dropped, except for the error it wraps.
  \<^item> A call that may panic returns a \<open>'a go\<close>.
\<close>

named_theorems goka_simps \<open>rewrite rules shared by the component proofs\<close>
named_theorems goka_defs \<open>definitions the component proofs unfold together\<close>

section \<open>Go values\<close>

type_synonym bytes = string
type_synonym slice = "bytes option"

text \<open>The values an \<open>interface{}\<close> holds in the code: nil, the types the codecs of the repository
  handle, and any other type, of which only the identity matters.\<close>

datatype gval = VNil | VBytes slice | VString string | VInt64 int | VOther nat

section \<open>Errors and panics\<close>

datatype gerr =
    Err string
  | Wrap string gerr
  | Multi "gerr list"
  | ErrTopicNotFound
  | ErrEmitterAlreadyClosed
  | ErrProcessing gerr
  | ErrContext

type_synonym 'a result = "gerr + 'a"

datatype 'a go = Ret 'a | Panic string

primrec go_bind :: "'a go \<Rightarrow> ('a \<Rightarrow> 'b go) \<Rightarrow> 'b go" where
  "go_bind (Ret x) f = f x"
| "go_bind (Panic m) f = Panic m"

primrec go_ok :: "'a go \<Rightarrow> bool" where
  "go_ok (Ret x) = True"
| "go_ok (Panic m) = False"

lemma go_bind_Ret [simp]: "go_bind m Ret = m"
  by (cases m) simp_all

lemma go_bind_assoc: "go_bind (go_bind m f) g = go_bind m (\<lambda>x. go_bind (f x) g)"
  by (cases m) simp_all

lemma go_bind_eq_Ret: "go_bind m f = Ret y \<longleftrightarrow> (\<exists>x. m = Ret x \<and> f x = Ret y)"
  by (cases m) simp_all

lemma go_bind_result_Ret:
  "go_bind f (\<lambda>r. case r of Inl e \<Rightarrow> g e | Inr x \<Rightarrow> h x) = Ret y \<longleftrightarrow>
     (\<exists>e. f = Ret (Inl e) \<and> g e = Ret y) \<or> (\<exists>x. f = Ret (Inr x) \<and> h x = Ret y)"
  by (auto simp: go_bind_eq_Ret split: sum.splits) (metis sum.exhaust)

lemma go_bind_option_Ret:
  "go_bind f (\<lambda>r. case r of None \<Rightarrow> g | Some x \<Rightarrow> h x) = Ret y \<longleftrightarrow>
     (f = Ret None \<and> g = Ret y) \<or> (\<exists>x. f = Ret (Some x) \<and> h x = Ret y)"
  by (auto simp: go_bind_eq_Ret split: option.splits)

section \<open>Machine integers\<close>

definition wrap64 :: "int \<Rightarrow> int" where
  "wrap64 x = signed_take_bit 63 x"

definition wrap32 :: "int \<Rightarrow> int" where
  "wrap32 x = signed_take_bit 31 x"

abbreviation int64 :: "int \<Rightarrow> bool" where
  "int64 x \<equiv> - (2 ^ 63) \<le> x \<and> x < 2 ^ 63"

abbreviation int32 :: "int \<Rightarrow> bool" where
  "int32 x \<equiv> - (2 ^ 31) \<le> x \<and> x < 2 ^ 31"

lemma wrap64_id [goka_simps]: "int64 x \<Longrightarrow> wrap64 x = x"
  by (simp add: wrap64_def signed_take_bit_int_eq_self)

lemma wrap32_id [goka_simps]: "int32 x \<Longrightarrow> wrap32 x = x"
  by (simp add: wrap32_def signed_take_bit_int_eq_self)

lemma wrap64_range: "int64 (wrap64 x)"
  using signed_take_bit_int_greater_eq_minus_exp [of 63 x] signed_take_bit_int_less_exp [of 63 x]
  by (simp add: wrap64_def)

lemma wrap32_range: "int32 (wrap32 x)"
  using signed_take_bit_int_greater_eq_minus_exp [of 31 x] signed_take_bit_int_less_exp [of 31 x]
  by (simp add: wrap32_def)

text \<open>Go's \<open>%\<close> truncates towards zero: the result has the sign of the dividend.\<close>

definition go_rem :: "int \<Rightarrow> int \<Rightarrow> int" where
  "go_rem a b = sgn a * (\<bar>a\<bar> mod \<bar>b\<bar>)"

lemma go_rem_nonneg: "0 \<le> a \<Longrightarrow> 0 < b \<Longrightarrow> go_rem a b = a mod b"
  by (cases "a = 0") (simp_all add: go_rem_def)

lemma go_rem_bounds: "0 \<le> a \<Longrightarrow> 0 < b \<Longrightarrow> 0 \<le> go_rem a b \<and> go_rem a b < b"
  by (simp add: go_rem_nonneg)

section \<open>Association lists as Go maps\<close>

text \<open>
  A Go map whose iteration order matters to the code is an association list with distinct keys,
  in the order a range over it takes; every property holds for all such orders. Assignment and
  deletion keep the keys distinct.
\<close>

fun map_put :: "'k \<Rightarrow> 'v \<Rightarrow> ('k \<times> 'v) list \<Rightarrow> ('k \<times> 'v) list" where
  "map_put k v [] = [(k, v)]"
| "map_put k v ((k', v') # m) = (if k = k' then (k, v) # m else (k', v') # map_put k v m)"

definition map_del :: "'k \<Rightarrow> ('k \<times> 'v) list \<Rightarrow> ('k \<times> 'v) list" where
  "map_del k m = filter (\<lambda>e. fst e \<noteq> k) m"

abbreviation gomap :: "('k \<times> 'v) list \<Rightarrow> bool" where
  "gomap m \<equiv> distinct (map fst m)"

lemma map_of_map_put [simp]: "map_of (map_put k v m) = (map_of m)(k \<mapsto> v)"
  by (induction k v m rule: map_put.induct) auto

lemma dom_map_put [simp]: "fst ` set (map_put k v m) = insert k (fst ` set m)"
  by (induction k v m rule: map_put.induct) auto

lemma gomap_map_put [simp]: "gomap m \<Longrightarrow> gomap (map_put k v m)"
proof (induction k v m rule: map_put.induct)
  case (2 k v k' v' m)
  then show ?case
    using dom_map_put [of k v m] by (auto simp del: dom_map_put)
qed simp

lemma map_of_map_del [simp]: "map_of (map_del k m) = (map_of m)(k := None)"
  by (induction m) (auto simp: map_del_def)

lemma gomap_map_del [simp]: "gomap m \<Longrightarrow> gomap (map_del k m)"
  unfolding map_del_def by (induction m) auto

text \<open>A range loop that copies the entries of one map into another.\<close>

definition map_copy :: "('k \<times> 'v) list \<Rightarrow> ('k \<times> 'v) list \<Rightarrow> ('k \<times> 'v) list" where
  "map_copy src dst = fold (\<lambda>(k, v). map_put k v) src dst"

lemma gomap_map_copy [simp]: "gomap dst \<Longrightarrow> gomap (map_copy src dst)"
  unfolding map_copy_def by (induction src arbitrary: dst) auto

lemma map_of_map_copy: "gomap src \<Longrightarrow> map_of (map_copy src dst) = map_of dst ++ map_of src"
  unfolding map_copy_def
proof (induction src arbitrary: dst)
  case Nil
  then show ?case by simp
next
  case (Cons e src)
  obtain k v where e: "e = (k, v)" by (cases e)
  from Cons.prems e have "map_of src k = None"
    by (auto simp: map_of_eq_None_iff)
  with Cons e show ?case
    by (auto simp: fun_eq_iff map_add_def split: option.splits)
qed

lemma map_put_neq_Nil [simp]: "map_put k v m \<noteq> []"
  by (induction k v m rule: map_put.induct) simp_all

lemma map_copy_neq_Nil: "dst \<noteq> [] \<Longrightarrow> map_copy src dst \<noteq> []"
  unfolding map_copy_def by (induction src arbitrary: dst) (simp_all split: prod.split)

lemma map_copy_eq_Nil [simp]: "map_copy src dst = [] \<longleftrightarrow> src = [] \<and> dst = []"
proof (cases src)
  case Nil
  then show ?thesis by (simp add: map_copy_def)
next
  case (Cons e es)
  then have "map_copy src dst = map_copy es (map_put (fst e) (snd e) dst)"
    by (simp add: map_copy_def split: prod.split)
  with Cons map_copy_neq_Nil [of "map_put (fst e) (snd e) dst" es] show ?thesis
    by simp
qed

section \<open>Lists\<close>

lemma fold_invariant:
  assumes "P s" and "\<And>x s. x \<in> set xs \<Longrightarrow> P s \<Longrightarrow> P (f x s)"
  shows "P (fold f xs s)"
  using assms by (induction xs arbitrary: s) auto

lemma find_append:
  "find P (xs @ ys) = (case find P xs of None \<Rightarrow> find P ys | Some x \<Rightarrow> Some x)"
  by (induction xs) auto

lemma count_list_append_single [simp]:
  "count_list (xs @ [x]) y = count_list xs y + (if x = y then 1 else 0)"
  by (induction xs) auto

section \<open>Strings\<close>

text \<open>\<open>strings.Join\<close>.\<close>

fun join_strings :: "string \<Rightarrow> string list \<Rightarrow> string" where
  "join_strings sep [] = ''''"
| "join_strings sep [x] = x"
| "join_strings sep (x # y # xs) = x @ sep @ join_strings sep (y # xs)"

end
