(* ===== verification/Goka_Multierr.thy ===== *)
theory Goka_Multierr
  imports Goka_Prelude
begin

text \<open>
  The package \<open>multierr\<close>: the error collector \<open>Errors\<close> (errors.go) and the error group
  \<open>ErrGroup\<close> (errgroup.go). A collector is the list of the errors collected so far; every method
  runs under the collector's mutex, so a run of concurrent calls is one of the sequences of calls.
  Tasks of an error group are represented by the results they return, in the order in which they
  return; the group's context is cancelled when the first of them fails (the contract of
  \<open>golang.org/x/sync/errgroup\<close>).
\<close>

section \<open>Errors\<close>

record Errors =
  errs :: "gerr list"

definition newErrors :: Errors where
  "newErrors = \<lparr>errs = []\<rparr>"

definition Errors_Collect :: "Errors \<Rightarrow> gerr option \<Rightarrow> Errors" where
  "Errors_Collect e err = (case err of None \<Rightarrow> e | Some x \<Rightarrow> e\<lparr>errs := errs e @ [x]\<rparr>)"

definition Errors_Merge :: "Errors \<Rightarrow> Errors option \<Rightarrow> Errors" where
  "Errors_Merge e p = (case p of None \<Rightarrow> e | Some q \<Rightarrow> e\<lparr>errs := errs e @ errs q\<rparr>)"

definition Errors_HasErrors :: "Errors \<Rightarrow> bool" where
  "Errors_HasErrors e \<longleftrightarrow> length (errs e) > 0"

definition Errors_NilOrError :: "Errors \<Rightarrow> gerr option" where
  "Errors_NilOrError e = (if Errors_HasErrors e then Some (Multi (errs e)) else None)"

text \<open>\<open>Error\<close> renders the collected errors; \<open>estr\<close> stands for the \<open>Error\<close> method of each of them.\<close>

definition Errors_Error :: "(gerr \<Rightarrow> string) \<Rightarrow> Errors \<Rightarrow> string" where
  "Errors_Error estr e =
     (if \<not> Errors_HasErrors e then ''''
      else if length (errs e) = 1 then estr (errs e ! 0)
      else fold (\<lambda>err str. str @ [CHR 0x09] @ ''* '' @ estr err @ [CHR 0x0A]) (errs e)
             (''Errors:'' @ [CHR 0x0A]))"

section \<open>ErrGroup\<close>

record ErrGroup =
  eg_err :: Errors
  eg_cancelled :: bool

definition NewErrGroup :: ErrGroup where
  "NewErrGroup = \<lparr>eg_err = newErrors, eg_cancelled = False\<rparr>"

text \<open>The wrapper that \<open>Go\<close> starts: the task returned \<open>res\<close>.\<close>

definition ErrGroup_Go :: "gerr option \<Rightarrow> ErrGroup \<Rightarrow> ErrGroup" where
  "ErrGroup_Go res g =
     (case res of
        None \<Rightarrow> g
      | Some err \<Rightarrow> g\<lparr>eg_err := Errors_Collect (eg_err g) (Some err), eg_cancelled := True\<rparr>)"

text \<open>\<open>Wait\<close> returns the collector once all tasks have returned, with the results \<open>rs\<close>.\<close>

definition ErrGroup_Wait :: "gerr option list \<Rightarrow> ErrGroup \<Rightarrow> ErrGroup \<times> Errors" where
  "ErrGroup_Wait rs g =
     (let g' = fold ErrGroup_Go rs g in (g'\<lparr>eg_cancelled := True\<rparr>, eg_err g'))"

text \<open>The value received from the channel that \<open>WaitChan\<close> returns: the pointer to the collector,
  which is never nil.\<close>

definition ErrGroup_WaitChan :: "gerr option list \<Rightarrow> ErrGroup \<Rightarrow> Errors option" where
  "ErrGroup_WaitChan rs g = Some (snd (ErrGroup_Wait rs g))"

section \<open>MultiWait\<close>

text \<open>A \<open>MultiWait\<close> (multiwait.go) waits for \<open>num\<close> channels to close or its context to end. Its
  wait group's counter is an integer, and a decrement below zero panics.\<close>

record MultiWait =
  mw_count :: int
  mw_ctx_done :: bool

definition NewMultiWait :: "nat \<Rightarrow> MultiWait" where
  "NewMultiWait num = \<lparr>mw_count = int num, mw_ctx_done = False\<rparr>"

text \<open>The goroutine of \<open>Add\<close>, when the channel it was given closes (\<open>ctx_first\<close>: both cases of its
  select are ready and it takes the context).\<close>

definition MultiWait_Add :: "bool \<Rightarrow> MultiWait \<Rightarrow> MultiWait go" where
  "MultiWait_Add ctx_first mw =
     (if mw_ctx_done mw \<and> ctx_first then Ret mw
      else if mw_count mw \<le> 0 then Panic ''sync: negative WaitGroup counter''
      else Ret (mw\<lparr>mw_count := mw_count mw - 1\<rparr>))"

text \<open>\<open>Wait\<close>: \<open>None\<close> while it blocks.\<close>

definition MultiWait_Wait :: "bool \<Rightarrow> MultiWait \<Rightarrow> bool option" where
  "MultiWait_Wait ctx_first mw =
     (if mw_count mw = 0 \<and> \<not> (mw_ctx_done mw \<and> ctx_first) then Some True
      else if mw_ctx_done mw then Some False
      else None)"

section \<open>Lemmas\<close>

lemmas errors_defs [goka_defs] =
  newErrors_def Errors_Collect_def Errors_Merge_def Errors_HasErrors_def Errors_NilOrError_def

lemma errs_Collect [simp]:
  "errs (Errors_Collect e err) = errs e @ (case err of None \<Rightarrow> [] | Some x \<Rightarrow> [x])"
  by (simp add: Errors_Collect_def split: option.split)

lemma errs_newErrors [simp]: "errs newErrors = []"
  by (simp add: newErrors_def)

lemma NilOrError_None [simp]: "Errors_NilOrError e = None \<longleftrightarrow> errs e = []"
  by (simp add: Errors_NilOrError_def Errors_HasErrors_def)

lemma NilOrError_Some [simp]:
  "Errors_NilOrError e = Some x \<longleftrightarrow> errs e \<noteq> [] \<and> x = Multi (errs e)"
  by (auto simp: Errors_NilOrError_def Errors_HasErrors_def)

lemma Errors_Merge_nil [simp]: "Errors_Merge e None = e"
  by (simp add: Errors_Merge_def)

lemma errs_ErrGroup_fold:
  "errs (eg_err (fold ErrGroup_Go rs g)) = errs (eg_err g) @ List.map_filter id rs"
  by (induction rs arbitrary: g)
     (auto simp: ErrGroup_Go_def List.map_filter_simps split: option.split)

lemma ErrGroup_fold_cancelled:
  "eg_cancelled (fold ErrGroup_Go rs g) \<longleftrightarrow> eg_cancelled g \<or> (\<exists>x. Some x \<in> set rs)"
  by (induction rs arbitrary: g) (auto simp: ErrGroup_Go_def split: option.splits)

lemma ErrGroup_Wait_errs [simp]:
  "errs (snd (ErrGroup_Wait rs NewErrGroup)) = List.map_filter id rs"
  by (simp add: ErrGroup_Wait_def Let_def errs_ErrGroup_fold NewErrGroup_def)

lemma map_filter_id_Nil: "List.map_filter id rs = [] \<longleftrightarrow> (\<forall>r \<in> set rs. r = None)"
  by (induction rs) (auto simp: List.map_filter_simps split: option.splits)

lemma mset_map_filter:
  "mset (List.map_filter f rs) = image_mset (the \<circ> f) (filter_mset (\<lambda>x. f x \<noteq> None) (mset rs))"
  by (simp add: List.map_filter_def)

text \<open>What \<open>Wait\<close> reports does not depend on the order in which the tasks of a group finish: for
  any two completion orders of the same results the collected errors are the same up to order, they
  are exactly the errors the tasks returned, and \<open>NilOrError\<close> is nil exactly when no task failed.\<close>

lemma errgroup_wait_reports_all_failures:
  assumes "mset rs = mset rs'"
  shows "mset (errs (snd (ErrGroup_Wait rs NewErrGroup))) =
           mset (errs (snd (ErrGroup_Wait rs' NewErrGroup))) \<and>
         (\<forall>x. x \<in> set (errs (snd (ErrGroup_Wait rs NewErrGroup))) \<longleftrightarrow> Some x \<in> set rs) \<and>
         (Errors_NilOrError (snd (ErrGroup_Wait rs NewErrGroup)) = None \<longleftrightarrow>
            (\<forall>r \<in> set rs. r = None))"
proof -
  have "x \<in> set (List.map_filter id rs) \<longleftrightarrow> Some x \<in> set rs" for x :: gerr
    by (force simp: List.map_filter_def)
  with assms show ?thesis
    by (simp add: map_filter_id_Nil mset_map_filter)
qed

end
