(* ===== verification/Goka_Headers.thy ===== *)
theory Goka_Headers
  imports Goka_Prelude
begin

text \<open>
  Message headers (headers/headers.go). \<open>Headers\<close> is a Go map, so a non-nil value is an association
  list with distinct keys in the order a range over it takes, and \<open>None\<close> is the nil map.
\<close>

type_synonym Headers = "(string \<times> slice) list option"

record RecordHeader =
  rh_Key :: bytes
  rh_Value :: slice

text \<open>A range over a nil map runs over nothing.\<close>

definition hdr_entries :: "Headers \<Rightarrow> (string \<times> slice) list" where
  "hdr_entries h = (case h of None \<Rightarrow> [] | Some m \<Rightarrow> m)"

abbreviation wf_headers :: "Headers \<Rightarrow> bool" where
  "wf_headers h \<equiv> gomap (hdr_entries h)"

abbreviation hdr_lookup :: "Headers \<Rightarrow> string \<Rightarrow> slice option" where
  "hdr_lookup h \<equiv> map_of (hdr_entries h)"

definition Headers_Merged :: "Headers \<Rightarrow> Headers list \<Rightarrow> Headers" where
  "Headers_Merged h headers =
     (let merged = map_copy (hdr_entries h) [];
          merged = fold (\<lambda>hs m. map_copy (hdr_entries hs) m) headers merged
      in if length merged = 0 then None else Some merged)"

definition Headers_ToSarama :: "Headers \<Rightarrow> RecordHeader list" where
  "Headers_ToSarama h = map (\<lambda>(key, value). \<lparr>rh_Key = key, rh_Value = value\<rparr>) (hdr_entries h)"

definition FromSarama :: "RecordHeader list \<Rightarrow> Headers" where
  "FromSarama saramaHeaders =
     Some (fold (\<lambda>h headers. map_put (rh_Key h) (rh_Value h) headers) saramaHeaders [])"

section \<open>Lemmas\<close>

lemma hdr_entries_simps [simp]: "hdr_entries None = []" "hdr_entries (Some m) = m"
  by (simp_all add: hdr_entries_def)

lemma gomap_fold_copy:
  "gomap m \<Longrightarrow> gomap (fold (\<lambda>hs m. map_copy (hdr_entries hs) m) headers m)"
  by (induction headers arbitrary: m) simp_all

lemma map_of_fold_copy:
  assumes "\<forall>hs \<in> set headers. wf_headers hs"
  shows "map_of (fold (\<lambda>hs m. map_copy (hdr_entries hs) m) headers m) =
           fold (\<lambda>hs m. m ++ hdr_lookup hs) headers (map_of m)"
  using assms by (induction headers arbitrary: m) (simp_all add: map_of_map_copy)

lemma hdr_entries_Merged:
  "hdr_entries (Headers_Merged h headers) =
     fold (\<lambda>hs m. map_copy (hdr_entries hs) m) headers (map_copy (hdr_entries h) [])"
  by (simp add: Headers_Merged_def Let_def)

lemma wf_headers_Merged [simp]: "wf_headers (Headers_Merged h headers)"
  by (simp add: hdr_entries_Merged gomap_fold_copy)

lemma fold_put_eq_map_of:
  "map_of (fold (\<lambda>h m. map_put (rh_Key h) (rh_Value h) m) hs m) =
     map_of m ++ map_of (rev (map (\<lambda>h. (rh_Key h, rh_Value h)) hs))"
  by (induction hs arbitrary: m) (auto simp: map_add_def fun_eq_iff split: option.splits)

lemma wf_FromSarama [simp]: "wf_headers (FromSarama hs)"
  unfolding FromSarama_def by (simp add: fold_invariant [where P = gomap])

lemma hdr_lookup_FromSarama:
  "hdr_lookup (FromSarama hs) = map_of (rev (map (\<lambda>h. (rh_Key h, rh_Value h)) hs))"
  by (simp add: FromSarama_def fold_put_eq_map_of)

text \<open>\<open>Merged\<close> contains every entry of every argument, a later map overriding an earlier one (the
  receiver is the earliest), and it is nil exactly when all the maps are empty or nil, so it can be
  passed on to the emit functions.\<close>

lemma Merged_later_overrides:
  assumes "wf_headers h" and "\<forall>hs \<in> set headers. wf_headers hs"
  shows "hdr_lookup (Headers_Merged h headers) =
           fold (\<lambda>hs m. m ++ hdr_lookup hs) headers (hdr_lookup h) \<and>
         (Headers_Merged h headers = None \<longleftrightarrow> (\<forall>hs \<in> set (h # headers). hdr_entries hs = []))"
proof
  show "hdr_lookup (Headers_Merged h headers) =
          fold (\<lambda>hs m. m ++ hdr_lookup hs) headers (hdr_lookup h)"
    using assms by (simp add: hdr_entries_Merged map_of_fold_copy map_of_map_copy)
  have "fold (\<lambda>hs m. map_copy (hdr_entries hs) m) headers m = [] \<longleftrightarrow>
          m = [] \<and> (\<forall>hs \<in> set headers. hdr_entries hs = [])" for m
    by (induction headers arbitrary: m) auto
  then show "Headers_Merged h headers = None \<longleftrightarrow> (\<forall>hs \<in> set (h # headers). hdr_entries hs = [])"
    by (auto simp: Headers_Merged_def Let_def)
qed

text \<open>Headers survive the conversion to sarama's record headers and back, whatever order the
  range over the map takes; and a record list with repeated keys is read with the last record of a
  key winning.\<close>

lemma headers_sarama_roundtrip:
  assumes "wf_headers h"
  shows "hdr_lookup (FromSarama (Headers_ToSarama h)) = hdr_lookup h \<and>
         hdr_lookup (FromSarama (Headers_ToSarama h @ [r])) (rh_Key r) = Some (rh_Value r)"
proof -
  have "map (\<lambda>x. (rh_Key x, rh_Value x)) (Headers_ToSarama h) = hdr_entries h"
    by (simp add: Headers_ToSarama_def comp_def case_prod_unfold)
  moreover have "map_of (rev (hdr_entries h)) = hdr_lookup h"
    using assms by (simp add: map_of_inject_set flip: rev_map)
  ultimately show ?thesis
    by (simp add: hdr_lookup_FromSarama)
qed

end
