(* ===== verification/Goka_Codec.thy ===== *)
theory Goka_Codec
  imports Goka_Prelude
begin

text \<open>
  The codecs of the repository (codec.go, codec/codec.go) and the two \<open>strconv\<close> functions they and
  the persistent storages use: \<open>FormatInt(i, 10)\<close> and \<open>ParseInt(s, 10, 64)\<close>. A codec is a record of
  its two methods; \<open>Decode\<close> takes a possibly nil slice.
\<close>

record Codec =
  codec_Encode :: "gval \<Rightarrow> slice result"
  codec_Decode :: "slice \<Rightarrow> gval result"

section \<open>strconv\<close>

definition digit_char :: "nat \<Rightarrow> char" where
  "digit_char d = char_of (48 + d)"

fun format_nat :: "nat \<Rightarrow> string" where
  "format_nat n =
     (if n < 10 then [digit_char n] else format_nat (n div 10) @ [digit_char (n mod 10)])"

declare format_nat.simps [simp del]

definition FormatInt :: "int \<Rightarrow> string" where
  "FormatInt i = (if i < 0 then CHR ''-'' # format_nat (nat (- i)) else format_nat (nat i))"

datatype num_error = ErrSyntax | ErrRange

definition is_digit :: "char \<Rightarrow> bool" where
  "is_digit c \<longleftrightarrow> (48::nat) \<le> of_char c \<and> of_char c < (58::nat)"

text \<open>The loop of \<open>ParseUint\<close>: an accumulated value past \<open>2 ^ 64 - 1\<close> is a range error at once.\<close>

fun parse_uint :: "string \<Rightarrow> nat \<Rightarrow> num_error + nat" where
  "parse_uint [] n = Inr n"
| "parse_uint (c # cs) n =
     (if \<not> is_digit c then Inl ErrSyntax
      else let n' = n * 10 + (of_char c - 48)
           in if 2 ^ 64 \<le> n' then Inl ErrRange else parse_uint cs n')"

definition ParseInt :: "string \<Rightarrow> num_error + int" where
  "ParseInt s =
     (if s = [] then Inl ErrSyntax
      else let neg = (hd s = CHR ''-'');
               s' = (if hd s = CHR ''+'' \<or> hd s = CHR ''-'' then tl s else s)
           in if s' = [] then Inl ErrSyntax
              else case parse_uint s' 0 of
                Inl e \<Rightarrow> Inl e
              | Inr un \<Rightarrow>
                  if \<not> neg \<and> 2 ^ 63 \<le> un then Inl ErrRange
                  else if neg \<and> 2 ^ 63 < un then Inl ErrRange
                  else Inr (if neg then - int un else int un))"

section \<open>Bytes, String and Int64\<close>

definition Bytes_Encode :: "gval \<Rightarrow> slice result" where
  "Bytes_Encode value =
     (case value of
        VBytes data \<Rightarrow> Inr data
      | _ \<Rightarrow> Inl (Err ''DefaultCodec: value to encode is not of type []byte''))"

definition Bytes_Decode :: "slice \<Rightarrow> gval result" where
  "Bytes_Decode data = Inr (VBytes data)"

definition String_Encode :: "gval \<Rightarrow> slice result" where
  "String_Encode value =
     (case value of
        VString stringVal \<Rightarrow> Inr (Some stringVal)
      | _ \<Rightarrow> Inl (Err ''String: value to encode is not of type string but %T''))"

definition String_Decode :: "slice \<Rightarrow> gval result" where
  "String_Decode data = Inr (VString (case data of None \<Rightarrow> [] | Some b \<Rightarrow> b))"

definition Int64_Encode :: "gval \<Rightarrow> slice result" where
  "Int64_Encode value =
     (case value of
        VInt64 intVal \<Rightarrow> Inr (Some (FormatInt intVal))
      | _ \<Rightarrow> Inl (Err ''Int64: value to encode is not of type int64''))"

definition Int64_Decode :: "slice \<Rightarrow> gval result" where
  "Int64_Decode data =
     (case ParseInt (case data of None \<Rightarrow> [] | Some b \<Rightarrow> b) of
        Inl e \<Rightarrow> Inl (Err ''Error parsing data from string %d: %v'')
      | Inr intVal \<Rightarrow> Inr (VInt64 intVal))"

definition BytesCodec :: Codec where
  "BytesCodec = \<lparr>codec_Encode = Bytes_Encode, codec_Decode = Bytes_Decode\<rparr>"

definition StringCodec :: Codec where
  "StringCodec = \<lparr>codec_Encode = String_Encode, codec_Decode = String_Decode\<rparr>"

definition Int64Codec :: Codec where
  "Int64Codec = \<lparr>codec_Encode = Int64_Encode, codec_Decode = Int64_Decode\<rparr>"

section \<open>The codec contract\<close>

text \<open>What the rest of the library expects of a codec on the values \<open>dom\<close> it is used with: encoding
  succeeds, gives a non-nil slice (a nil slice is a deletion in a table), and decoding inverts it.\<close>

locale codec_contract =
  fixes c :: Codec and domain :: "gval \<Rightarrow> bool"
  assumes encode_ok: "domain v \<Longrightarrow> \<exists>b. codec_Encode c v = Inr (Some b)"
    and decode_encode: "domain v \<Longrightarrow> codec_Encode c v = Inr d \<Longrightarrow> codec_Decode c d = Inr v"
begin

lemma roundtrip:
  assumes "domain v"
  obtains b where "codec_Encode c v = Inr (Some b)" and "codec_Decode c (Some b) = Inr v"
  using assms encode_ok decode_encode by metis

lemma encode_inj: "domain v \<Longrightarrow> domain w \<Longrightarrow> codec_Encode c v = codec_Encode c w \<Longrightarrow> v = w"
  by (metis decode_encode encode_ok sum.inject(2))

end

section \<open>Lemmas\<close>

lemma of_char_digit [simp]: "d < 10 \<Longrightarrow> of_char (digit_char d) = 48 + d"
  by (simp add: digit_char_def of_char_of)

lemma is_digit_digit_char [simp]: "d < 10 \<Longrightarrow> is_digit (digit_char d)"
  by (simp add: is_digit_def)

lemma format_nat_not_Nil [simp]: "format_nat n \<noteq> []"
  by (subst format_nat.simps) simp

lemma format_nat_digits: "c \<in> set (format_nat n) \<Longrightarrow> is_digit c"
proof (induction n rule: format_nat.induct)
  case (1 n)
  then show ?case by (subst (asm) (2) format_nat.simps) (auto split: if_splits)
qed

lemma parse_uint_append:
  "parse_uint (s @ t) n = (case parse_uint s n of Inl e \<Rightarrow> Inl e | Inr m \<Rightarrow> parse_uint t m)"
  by (induction s n rule: parse_uint.induct) (simp_all add: Let_def)

lemma parse_uint_format_nat: "n < 2 ^ 64 \<Longrightarrow> parse_uint (format_nat n) 0 = Inr n"
proof (induction n rule: format_nat.induct)
  case (1 n)
  show ?case
  proof (cases "n < 10")
    case True
    then show ?thesis by (subst format_nat.simps) simp
  next
    case False
    with 1 have "parse_uint (format_nat (n div 10)) 0 = Inr (n div 10)"
      by (simp add: div_less_dividend)
    with False 1 show ?thesis
      by (subst format_nat.simps) (simp add: parse_uint_append Let_def)
  qed
qed

lemma hd_format_nat_digit: "is_digit (hd (format_nat n))"
  by (rule format_nat_digits [of _ n]) simp

lemma sign_not_digit [simp]: "\<not> is_digit (CHR ''-'')" "\<not> is_digit (CHR ''+'')"
  by (simp_all add: is_digit_def)

lemma ParseInt_FormatInt: "int64 i \<Longrightarrow> ParseInt (FormatInt i) = Inr i"
proof -
  assume i: "int64 i"
  have hd: "hd (format_nat n) \<noteq> CHR ''-''" "hd (format_nat n) \<noteq> CHR ''+''" for n
    using hd_format_nat_digit [of n] by (auto simp: is_digit_def)
  have "parse_uint (format_nat (nat \<bar>i\<bar>)) 0 = Inr (nat \<bar>i\<bar>)"
    by (rule parse_uint_format_nat) (use i in auto)
  with i show ?thesis
    by (auto simp: ParseInt_def FormatInt_def Let_def hd abs_if split: if_splits)
qed

lemma ParseInt_range: "ParseInt s = Inr i \<Longrightarrow> int64 i"
  by (auto simp: ParseInt_def Let_def split: if_splits sum.splits)

interpretation string_codec: codec_contract StringCodec "\<lambda>v. \<exists>s. v = VString s"
  by unfold_locales (auto simp: StringCodec_def String_Encode_def String_Decode_def)

interpretation int64_codec: codec_contract Int64Codec "\<lambda>v. \<exists>i. v = VInt64 i \<and> int64 i"
  by unfold_locales
     (auto simp: Int64Codec_def Int64_Encode_def Int64_Decode_def ParseInt_FormatInt)

interpretation bytes_codec: codec_contract BytesCodec "\<lambda>v. \<exists>b. v = VBytes (Some b)"
  by unfold_locales (auto simp: BytesCodec_def Bytes_Encode_def Bytes_Decode_def)

text \<open>The int64 codec is a round trip on the whole of int64, its encoding is injective there, and
  whatever \<open>Decode\<close> accepts is an int64 (text outside the range or with any other character is an
  error).\<close>

lemma Int64_codec_roundtrip:
  assumes "int64 i" and "int64 j"
  shows "(\<exists>b. Int64_Encode (VInt64 i) = Inr (Some b) \<and> Int64_Decode (Some b) = Inr (VInt64 i)) \<and>
         (Int64_Encode (VInt64 i) = Int64_Encode (VInt64 j) \<longrightarrow> i = j) \<and>
         (\<forall>d v. Int64_Decode d = Inr v \<longrightarrow> (\<exists>k. v = VInt64 k \<and> int64 k))"
proof (intro conjI allI impI)
  show "\<exists>b. Int64_Encode (VInt64 i) = Inr (Some b) \<and> Int64_Decode (Some b) = Inr (VInt64 i)"
    using int64_codec.roundtrip [of "VInt64 i"] assms by (auto simp: Int64Codec_def)
  show "i = j" if "Int64_Encode (VInt64 i) = Int64_Encode (VInt64 j)"
    using int64_codec.encode_inj [of "VInt64 i" "VInt64 j"] assms that by (auto simp: Int64Codec_def)
  show "\<exists>k. v = VInt64 k \<and> int64 k" if "Int64_Decode d = Inr v" for d v
    using that ParseInt_range by (auto simp: Int64_Decode_def split: sum.splits)
qed

end
