(* ===== verification/Goka_Signal.thy ===== *)
theory Goka_Signal
  imports Goka_Prelude
begin

text \<open>
  Signals (signal.go): the state holder on which processors, partition processors, partition tables
  and views synchronise. Every method runs under the signal's mutex, so a concurrent execution is a
  sequence of calls.

  \<^item> A channel that is only closed, never sent to (a waiter's \<open>done\<close>, an observer's \<open>closed\<close>), is a
    number; the signal carries the list of the numbers closed so far and the next unused number.
    Closing a channel twice panics.
  \<^item> An observer's channel \<open>c\<close> is the queue of the values sent to it and not yet received. Its buffer
    holds one value, so a send to a full channel waits for the receiver; the queue is what has been
    sent when \<open>SetState\<close> returns.
\<close>

record waiter =
  w_done :: nat
  w_state :: int
  w_minState :: bool

record StateChangeObserver =
  obs_id :: nat
  obs_c :: "int list"
  obs_c_open :: bool

record Signal =
  sig_state :: int
  sig_waiters :: "waiter list"
  sig_observers :: "StateChangeObserver list"
  sig_allowedStates :: "int list"
  sig_closed :: "nat list"
  sig_next :: nat

definition NewSignal :: "int list \<Rightarrow> Signal" where
  "NewSignal states = \<lparr>sig_state = 0, sig_waiters = [], sig_observers = [],
     sig_allowedStates = states, sig_closed = [], sig_next = 0\<rparr>"

definition close_chan :: "nat \<Rightarrow> nat list \<Rightarrow> nat list go" where
  "close_chan ch cl = (if ch \<in> set cl then Panic ''close of closed channel'' else Ret (cl @ [ch]))"

section \<open>Setting the state\<close>

definition waiter_satisfied :: "int \<Rightarrow> waiter \<Rightarrow> bool" where
  "waiter_satisfied state w \<longleftrightarrow> w_state w = state \<or> (w_minState w \<and> state \<ge> w_state w)"

text \<open>The loop over the waiters: the satisfied ones are closed and dropped, the others kept.\<close>

fun close_waiters ::
  "int \<Rightarrow> waiter list \<Rightarrow> waiter list \<Rightarrow> nat list \<Rightarrow> (waiter list \<times> nat list) go" where
  "close_waiters state [] newWaiters cl = Ret (newWaiters, cl)"
| "close_waiters state (w # ws) newWaiters cl =
     (if waiter_satisfied state w
      then go_bind (close_chan (w_done w) cl) (close_waiters state ws newWaiters)
      else close_waiters state ws (newWaiters @ [w]) cl)"

text \<open>An observer whose \<open>closed\<close> channel is closed but which is still listed (it is being stopped)
  drops the value or, when the buffer has room, receives it: \<open>send\<close> is the choice of the select.\<close>

definition Observer_notify ::
  "(nat \<Rightarrow> bool) \<Rightarrow> nat list \<Rightarrow> int \<Rightarrow> StateChangeObserver \<Rightarrow> StateChangeObserver" where
  "Observer_notify send cl state obs =
     (if obs_id obs \<in> set cl \<and> \<not> send (obs_id obs) then obs
      else obs\<lparr>obs_c := obs_c obs @ [state]\<rparr>)"

definition Signal_SetState :: "(nat \<Rightarrow> bool) \<Rightarrow> int \<Rightarrow> Signal \<Rightarrow> Signal go" where
  "Signal_SetState send state s =
     (if state \<notin> set (sig_allowedStates s) then Panic ''trying to set illegal state %v''
      else if sig_state s = state then Ret s
      else go_bind (close_waiters state (sig_waiters s) [] (sig_closed s)) (\<lambda>(newWaiters, cl).
        Ret (s\<lparr>sig_state := state, sig_waiters := newWaiters, sig_closed := cl,
               sig_observers := map (Observer_notify send cl state) (sig_observers s)\<rparr>)))"

definition Signal_IsState :: "Signal \<Rightarrow> int \<Rightarrow> bool" where
  "Signal_IsState s state \<longleftrightarrow> sig_state s = state"

definition Signal_State :: "Signal \<Rightarrow> int" where
  "Signal_State s = sig_state s"

section \<open>Waiting for a state\<close>

definition Signal_waitForWaiter :: "int \<Rightarrow> waiter \<Rightarrow> Signal \<Rightarrow> Signal go" where
  "Signal_waitForWaiter state w s =
     (let curState = sig_state s
      in if state = curState \<or> (w_minState w \<and> curState \<ge> state)
         then go_bind (close_chan (w_done w) (sig_closed s)) (\<lambda>cl. Ret (s\<lparr>sig_closed := cl\<rparr>))
         else Ret (s\<lparr>sig_waiters := sig_waiters s @ [w]\<rparr>))"

text \<open>Both functions return the channel they made.\<close>

definition Signal_WaitForStateMin :: "int \<Rightarrow> Signal \<Rightarrow> (Signal \<times> nat) go" where
  "Signal_WaitForStateMin state s =
     (let ch = sig_next s
      in go_bind (Signal_waitForWaiter state \<lparr>w_done = ch, w_state = state, w_minState = True\<rparr>
                   (s\<lparr>sig_next := Suc ch\<rparr>)) (\<lambda>s'. Ret (s', ch)))"

definition Signal_WaitForState :: "int \<Rightarrow> Signal \<Rightarrow> (Signal \<times> nat) go" where
  "Signal_WaitForState state s =
     (let ch = sig_next s
      in go_bind (Signal_waitForWaiter state \<lparr>w_done = ch, w_state = state, w_minState = False\<rparr>
                   (s\<lparr>sig_next := Suc ch\<rparr>)) (\<lambda>s'. Ret (s', ch)))"

section \<open>Observers\<close>

text \<open>The new observer starts with the current state in its channel; it is known by the number of
  its \<open>closed\<close> channel.\<close>

definition Signal_ObserveStateChange :: "Signal \<Rightarrow> Signal \<times> nat" where
  "Signal_ObserveStateChange s =
     (let i = sig_next s;
          observer = \<lparr>obs_id = i, obs_c = [sig_state s], obs_c_open = True\<rparr>
      in (s\<lparr>sig_next := Suc i, sig_observers := sig_observers s @ [observer]\<rparr>, i))"

text \<open>The first step of \<open>Stop\<close> runs without the mutex, the second one with it: remove the observer
  from the list and close its channel (the closed channel is returned).\<close>

definition Observer_stop_begin :: "nat \<Rightarrow> Signal \<Rightarrow> Signal go" where
  "Observer_stop_begin i s =
     go_bind (close_chan i (sig_closed s)) (\<lambda>cl. Ret (s\<lparr>sig_closed := cl\<rparr>))"

fun remove_observer :: "nat \<Rightarrow> StateChangeObserver list \<Rightarrow> StateChangeObserver list" where
  "remove_observer i [] = []"
| "remove_observer i (obs # rest) =
     (if obs_id obs = i then rest else obs # remove_observer i rest)"

definition Observer_stop_end :: "nat \<Rightarrow> Signal \<Rightarrow> Signal \<times> StateChangeObserver option" where
  "Observer_stop_end i s =
     (s\<lparr>sig_observers := remove_observer i (sig_observers s)\<rparr>,
      map_option (\<lambda>obs. obs\<lparr>obs_c_open := False\<rparr>) (find (\<lambda>obs. obs_id obs = i) (sig_observers s)))"

section \<open>Runs and the invariant\<close>

text \<open>What other goroutines do to a signal between two moments: a sequence of calls.\<close>

datatype sig_call =
    CallSet int | CallWait int | CallWaitMin int | CallObserve | CallStopBegin nat | CallStopEnd nat

definition sig_step :: "(nat \<Rightarrow> bool) \<Rightarrow> sig_call \<Rightarrow> Signal \<Rightarrow> Signal go" where
  "sig_step send c s =
     (case c of
        CallSet st \<Rightarrow> Signal_SetState send st s
      | CallWait st \<Rightarrow> go_bind (Signal_WaitForState st s) (\<lambda>(s', _). Ret s')
      | CallWaitMin st \<Rightarrow> go_bind (Signal_WaitForStateMin st s) (\<lambda>(s', _). Ret s')
      | CallObserve \<Rightarrow> Ret (fst (Signal_ObserveStateChange s))
      | CallStopBegin i \<Rightarrow> Observer_stop_begin i s
      | CallStopEnd i \<Rightarrow> Ret (fst (Observer_stop_end i s)))"

fun sig_run :: "(nat \<Rightarrow> bool) \<Rightarrow> sig_call list \<Rightarrow> Signal \<Rightarrow> Signal go" where
  "sig_run send [] s = Ret s"
| "sig_run send (c # cs) s = go_bind (sig_step send c s) (sig_run send cs)"

definition sig_inv :: "Signal \<Rightarrow> bool" where
  "sig_inv s \<longleftrightarrow>
     distinct (map w_done (sig_waiters s)) \<and>
     distinct (map obs_id (sig_observers s)) \<and>
     (\<forall>w \<in> set (sig_waiters s). w_done w < sig_next s \<and> w_done w \<notin> set (sig_closed s) \<and>
        w_done w \<notin> obs_id ` set (sig_observers s) \<and> \<not> waiter_satisfied (sig_state s) w) \<and>
     (\<forall>obs \<in> set (sig_observers s). obs_id obs < sig_next s) \<and>
     (\<forall>ch \<in> set (sig_closed s). ch < sig_next s)"

lemmas signal_defs [goka_defs] =
  Signal_SetState_def Signal_waitForWaiter_def Signal_WaitForState_def Signal_WaitForStateMin_def
  Signal_ObserveStateChange_def Observer_stop_begin_def Observer_stop_end_def close_chan_def

section \<open>Lemmas\<close>

lemma close_waiters_eq:
  assumes "distinct (map w_done ws)" and "\<forall>w \<in> set ws. w_done w \<notin> set cl"
  shows "close_waiters state ws acc cl =
           Ret (acc @ filter (\<lambda>w. \<not> waiter_satisfied state w) ws,
                cl @ map w_done (filter (waiter_satisfied state) ws))"
  using assms
proof (induction ws arbitrary: acc cl)
  case (Cons w ws)
  from Cons.prems have "\<forall>v \<in> set ws. w_done v \<notin> set (cl @ [w_done w])"
    by (auto simp: image_iff)
  with Cons.prems Cons.IH [of "cl @ [w_done w]" acc] Cons.IH [of cl "acc @ [w]"] show ?case
    by (simp add: close_chan_def)
qed simp

lemma notify_obs_id [simp]: "obs_id (Observer_notify send cl st obs) = obs_id obs"
  by (simp add: Observer_notify_def)

lemma map_obs_id_notify [simp]:
  "map obs_id (map (Observer_notify send cl st) os) = map obs_id os"
  by (simp add: comp_def)

lemma SetState_eq:
  assumes "sig_inv s" and "st \<in> set (sig_allowedStates s)" and "sig_state s \<noteq> st"
  shows "Signal_SetState send st s =
     Ret (let cl = sig_closed s @ map w_done (filter (waiter_satisfied st) (sig_waiters s))
          in s\<lparr>sig_state := st,
               sig_waiters := filter (\<lambda>w. \<not> waiter_satisfied st w) (sig_waiters s),
               sig_closed := cl,
               sig_observers := map (Observer_notify send cl st) (sig_observers s)\<rparr>)"
proof -
  have "close_waiters st (sig_waiters s) [] (sig_closed s) =
          Ret (filter (\<lambda>w. \<not> waiter_satisfied st w) (sig_waiters s),
               sig_closed s @ map w_done (filter (waiter_satisfied st) (sig_waiters s)))"
    using assms(1) by (simp add: close_waiters_eq sig_inv_def)
  with assms show ?thesis by (simp add: Signal_SetState_def Let_def)
qed

lemma sig_inv_NewSignal: "sig_inv (NewSignal states)"
  by (simp add: sig_inv_def NewSignal_def)

lemma sig_inv_SetState:
  assumes "sig_inv s" and "Signal_SetState send st s = Ret s'"
  shows "sig_inv s'"
proof (cases "st \<in> set (sig_allowedStates s) \<and> sig_state s \<noteq> st")
  case True
  with assms have s': "s' = (let cl = sig_closed s @ map w_done (filter (waiter_satisfied st) (sig_waiters s))
          in s\<lparr>sig_state := st,
               sig_waiters := filter (\<lambda>w. \<not> waiter_satisfied st w) (sig_waiters s),
               sig_closed := cl,
               sig_observers := map (Observer_notify send cl st) (sig_observers s)\<rparr>)"
    using SetState_eq [of s st send] by simp
  have "w_done w \<noteq> w_done v"
    if "w \<in> set (sig_waiters s)" "v \<in> set (sig_waiters s)" "waiter_satisfied st v"
       "\<not> waiter_satisfied st w" for w v
    using assms(1) that by (auto simp: sig_inv_def distinct_map dest: inj_onD)
  with assms(1) s' show ?thesis
    by (auto simp: sig_inv_def Let_def distinct_map_filter simp flip: map_map)
next
  case False
  with assms show ?thesis by (auto simp: Signal_SetState_def split: if_splits)
qed

lemma sig_inv_waitForWaiter:
  assumes inv: "sig_inv s" and w: "w_done w = sig_next s" "w_state w = st"
    and ret: "Signal_waitForWaiter st w (s\<lparr>sig_next := Suc (sig_next s)\<rparr>) = Ret s'"
  shows "sig_inv s'"
proof -
  have fresh: "w_done w \<notin> set (sig_closed s)" "w_done w \<notin> w_done ` set (sig_waiters s)"
       "w_done w \<notin> obs_id ` set (sig_observers s)"
    using inv w by (auto simp: sig_inv_def)
  show ?thesis
  proof (cases "waiter_satisfied (sig_state s) w")
    case True
    with fresh w ret have "s' = s\<lparr>sig_next := Suc (sig_next s), sig_closed := sig_closed s @ [w_done w]\<rparr>"
      by (simp add: Signal_waitForWaiter_def close_chan_def waiter_satisfied_def Let_def)
    with inv w(1) show ?thesis by (auto simp: sig_inv_def less_Suc_eq)
  next
    case False
    with w ret have "s' = s\<lparr>sig_next := Suc (sig_next s), sig_waiters := sig_waiters s @ [w]\<rparr>"
      by (simp add: Signal_waitForWaiter_def waiter_satisfied_def Let_def split: if_splits)
    with inv w(1) fresh False show ?thesis by (auto simp: sig_inv_def less_Suc_eq)
  qed
qed

lemmas sig_inv_wait = sig_inv_waitForWaiter
  [where w = "\<lparr>w_done = sig_next s, w_state = st, w_minState = m\<rparr>" and s = s and st = st for s st m,
   simplified]

lemma set_remove_observer: "set (remove_observer i os) \<subseteq> set os"
  by (induction os) auto

lemma distinct_remove_observer:
  "distinct (map obs_id os) \<Longrightarrow> distinct (map obs_id (remove_observer i os))"
  by (induction os) (use set_remove_observer in \<open>fastforce+\<close>)

lemma sig_inv_step:
  assumes "sig_inv s" and "sig_step send c s = Ret s'"
    and "\<And>i. c = CallStopBegin i \<Longrightarrow> i \<in> obs_id ` set (sig_observers s)"
  shows "sig_inv s'"
proof (cases c)
  case (CallSet st)
  with assms show ?thesis by (simp add: sig_step_def sig_inv_SetState)
next
  case (CallWait st)
  with assms show ?thesis
    by (auto simp: sig_step_def Signal_WaitForState_def Let_def go_bind_eq_Ret
        intro: sig_inv_wait)
next
  case (CallWaitMin st)
  with assms show ?thesis
    by (auto simp: sig_step_def Signal_WaitForStateMin_def Let_def go_bind_eq_Ret
        intro: sig_inv_wait)
next
  case CallObserve
  with assms show ?thesis
    by (fastforce simp: sig_step_def Signal_ObserveStateChange_def Let_def sig_inv_def less_Suc_eq)
next
  case (CallStopBegin i)
  with assms show ?thesis
    by (fastforce simp: sig_step_def Observer_stop_begin_def close_chan_def sig_inv_def split: if_splits)
next
  case (CallStopEnd i)
  with assms set_remove_observer [of i "sig_observers s"] show ?thesis
    by (fastforce simp: sig_step_def Observer_stop_end_def sig_inv_def distinct_remove_observer)
qed

section \<open>Following one waiter through a run\<close>

text \<open>The calls a client can make: only states of the signal are set and only observers that are
  listed and not yet stopped are stopped.\<close>

definition legal_call :: "Signal \<Rightarrow> sig_call \<Rightarrow> bool" where
  "legal_call s c =
     (case c of
        CallSet st \<Rightarrow> st \<in> set (sig_allowedStates s)
      | CallStopBegin i \<Rightarrow> i \<in> obs_id ` set (sig_observers s) \<and> i \<notin> set (sig_closed s)
      | _ \<Rightarrow> True)"

fun legal_run :: "(nat \<Rightarrow> bool) \<Rightarrow> sig_call list \<Rightarrow> Signal \<Rightarrow> bool" where
  "legal_run send [] s = True"
| "legal_run send (c # cs) s =
     (legal_call s c \<and> (case sig_step send c s of Ret s' \<Rightarrow> legal_run send cs s' | Panic _ \<Rightarrow> False))"

definition sets_satisfying :: "waiter \<Rightarrow> sig_call \<Rightarrow> bool" where
  "sets_satisfying w c = (case c of CallSet st \<Rightarrow> waiter_satisfied st w | _ \<Rightarrow> False)"

definition tracks :: "waiter \<Rightarrow> bool \<Rightarrow> Signal \<Rightarrow> bool" where
  "tracks w seen s \<longleftrightarrow> (if seen then w_done w \<in> set (sig_closed s) else w \<in> set (sig_waiters s))"

lemma sets_satisfying_iff:
  "sets_satisfying w c \<longleftrightarrow> (\<exists>st. c = CallSet st \<and> waiter_satisfied st w)"
  by (cases c) (simp_all add: sets_satisfying_def)

lemma waitForWaiter_Ret:
  "w_done w \<notin> set (sig_closed s) \<Longrightarrow> \<exists>s'. Signal_waitForWaiter st w s = Ret s'"
  by (simp add: Signal_waitForWaiter_def close_chan_def Let_def)

lemma SetState_Ret:
  "sig_inv s \<Longrightarrow> st \<in> set (sig_allowedStates s) \<Longrightarrow> \<exists>s'. Signal_SetState send st s = Ret s'"
  using SetState_eq [of s st send] by (cases "sig_state s = st") (auto simp: Signal_SetState_def)

lemma sig_step_no_panic:
  assumes "sig_inv s" and "legal_call s c"
  shows "\<exists>s'. sig_step send c s = Ret s'"
proof -
  have fresh: "sig_next s \<notin> set (sig_closed s)"
    using assms(1) by (auto simp: sig_inv_def)
  then have "\<exists>s'. Signal_waitForWaiter st \<lparr>w_done = sig_next s, w_state = st, w_minState = m\<rparr>
                   (s\<lparr>sig_next := Suc (sig_next s)\<rparr>) = Ret s'" for st m
    by (intro waitForWaiter_Ret) simp
  with assms SetState_Ret show ?thesis
    by (cases c) (auto simp: sig_step_def legal_call_def Signal_WaitForState_def
        Signal_WaitForStateMin_def Observer_stop_begin_def close_chan_def Let_def go_bind_eq_Ret)
qed

lemma sig_inv_legal:
  "sig_inv s \<Longrightarrow> sig_step send c s = Ret s' \<Longrightarrow> legal_call s c \<Longrightarrow> sig_inv s'"
  by (erule sig_inv_step) (auto simp: legal_call_def)

lemma closed_mono:
  assumes "sig_inv s" and "sig_step send c s = Ret s'"
  shows "set (sig_closed s) \<subseteq> set (sig_closed s')"
proof (cases c)
  case (CallSet st)
  with assms SetState_eq [of s st send] show ?thesis
    by (cases "sig_state s = st")
       (auto simp: sig_step_def Signal_SetState_def Let_def split: if_splits)
qed (use assms in \<open>auto simp: sig_step_def goka_defs Let_def split: if_splits\<close>)

lemma tracks_step:
  assumes inv: "sig_inv s" and ret: "sig_step send c s = Ret s'" and legal: "legal_call s c"
    and w: "tracks w seen s"
  shows "tracks w (seen \<or> sets_satisfying w c) s'"
proof (cases seen)
  case True
  with w closed_mono [OF inv ret] show ?thesis by (auto simp: tracks_def)
next
  case False
  with w have pending: "w \<in> set (sig_waiters s)" by (simp add: tracks_def)
  then have unsat: "\<not> waiter_satisfied (sig_state s) w" using inv by (simp add: sig_inv_def)
  show ?thesis
  proof (cases c)
    case (CallSet st)
    with legal have st: "st \<in> set (sig_allowedStates s)" by (simp add: legal_call_def)
    show ?thesis
    proof (cases "sig_state s = st")
      case True
      with CallSet False st ret pending unsat show ?thesis
        by (simp add: tracks_def sets_satisfying_def sig_step_def Signal_SetState_def)
    next
      case neq: False
      with CallSet False pending SetState_eq [OF inv st neq, of send] ret show ?thesis
        by (auto simp: tracks_def sets_satisfying_def sig_step_def Let_def)
    qed
  qed (use False pending ret in \<open>auto simp: tracks_def sets_satisfying_def sig_step_def goka_defs Let_def
         split: if_splits\<close>)
qed

lemma legal_run_inv:
  assumes "sig_inv s" and "legal_run send cs s"
  shows "\<exists>s'. sig_run send cs s = Ret s' \<and> sig_inv s'"
  using assms
proof (induction cs arbitrary: s)
  case (Cons c cs)
  then obtain s1 where s1: "sig_step send c s = Ret s1" and legal: "legal_call s c"
    and rest: "legal_run send cs s1"
    by (auto split: go.splits)
  from Cons.prems(1) s1 legal have "sig_inv s1"
    by (rule sig_inv_legal)
  with Cons.IH [OF _ rest] s1 show ?case by simp
qed simp

lemma tracks_run:
  assumes "sig_inv s" and "legal_run send cs s" and "tracks w seen s"
    and "sig_run send cs s = Ret s'"
  shows "tracks w (seen \<or> (\<exists>c \<in> set cs. sets_satisfying w c)) s'"
  using assms
proof (induction cs arbitrary: s seen)
  case (Cons c cs)
  then obtain s1 where s1: "sig_step send c s = Ret s1" and legal: "legal_call s c"
    and rest: "legal_run send cs s1"
    by (auto split: go.splits)
  from Cons.prems(1) s1 legal have inv: "sig_inv s1"
    by (rule sig_inv_legal)
  from Cons.prems s1 legal have "tracks w (seen \<or> sets_satisfying w c) s1"
    by (blast intro: tracks_step)
  from Cons.IH [OF inv rest this] Cons.prems(4) s1 show ?case by (simp add: disj_ac)
qed simp

lemma tracks_wait:
  assumes "sig_inv s" and "w_state w = st" and "w_done w = sig_next s"
    and "Signal_waitForWaiter st w (s\<lparr>sig_next := Suc (sig_next s)\<rparr>) = Ret s1"
  shows "tracks w (waiter_satisfied (sig_state s) w) s1"
  using assms
  by (auto simp: tracks_def Signal_waitForWaiter_def waiter_satisfied_def close_chan_def Let_def
      split: if_splits)

lemma tracks_closed_iff:
  "sig_inv s \<Longrightarrow> tracks w seen s \<Longrightarrow> w_done w \<in> set (sig_closed s) \<longleftrightarrow> seen"
  by (auto simp: tracks_def sig_inv_def split: if_splits)

text \<open>The sequence of changes that setting the states \<open>sts\<close> from the state \<open>cur\<close> makes.\<close>

fun state_changes :: "int \<Rightarrow> int list \<Rightarrow> int list" where
  "state_changes cur [] = []"
| "state_changes cur (st # sts) =
     (if st = cur then state_changes cur sts else st # state_changes st sts)"

definition notified :: "(nat \<Rightarrow> bool) \<Rightarrow> int \<Rightarrow> Signal \<Rightarrow> Signal" where
  "notified send st t =
     (let cl = sig_closed t @ map w_done (filter (waiter_satisfied st) (sig_waiters t))
      in t\<lparr>sig_state := st,
           sig_waiters := filter (\<lambda>w. \<not> waiter_satisfied st w) (sig_waiters t),
           sig_closed := cl,
           sig_observers := map (Observer_notify send cl st) (sig_observers t)\<rparr>)"

definition obs_queue :: "nat \<Rightarrow> Signal \<Rightarrow> int list option" where
  "obs_queue i s = map_option obs_c (find (\<lambda>obs. obs_id obs = i) (sig_observers s))"

lemma notified_step:
  "sig_inv t \<Longrightarrow> st \<in> set (sig_allowedStates t) \<Longrightarrow> st \<noteq> sig_state t \<Longrightarrow>
     sig_step send (CallSet st) t = Ret (notified send st t)"
  using SetState_eq [of t st send] by (auto simp: sig_step_def notified_def)

lemma find_notify:
  "i \<notin> set cl \<Longrightarrow> find (\<lambda>obs. obs_id obs = i) (map (Observer_notify send cl st) os) =
     map_option (\<lambda>obs. obs\<lparr>obs_c := obs_c obs @ [st]\<rparr>) (find (\<lambda>obs. obs_id obs = i) os)"
  by (induction os) (auto simp: Observer_notify_def)

lemma obs_queue_notified:
  assumes "i \<notin> set (sig_closed t)" and "i \<notin> w_done ` set (sig_waiters t)"
  shows "obs_queue i (notified send st t) = map_option (\<lambda>q. q @ [st]) (obs_queue i t)"
proof -
  have "i \<notin> set (sig_closed t @ map w_done (filter (waiter_satisfied st) (sig_waiters t)))"
    using assms by auto
  from find_notify [OF this, of send st "sig_observers t"] show ?thesis
    by (simp add: obs_queue_def notified_def Let_def option.map_comp comp_def)
qed

lemma obs_queue_run:
  assumes "sig_inv t" "set sts \<subseteq> set (sig_allowedStates t)" "i \<notin> set (sig_closed t)"
    "i \<notin> w_done ` set (sig_waiters t)" "obs_queue i t = Some q"
  shows "\<exists>t2. sig_run send (map CallSet sts) t = Ret t2 \<and>
           obs_queue i t2 = Some (q @ state_changes (sig_state t) sts)"
  using assms
proof (induction sts arbitrary: t q)
  case (Cons st sts)
  show ?case
  proof (cases "st = sig_state t")
    case True
    with Cons show ?thesis by (simp add: sig_step_def Signal_SetState_def)
  next
    case False
    let ?t = "notified send st t"
    from Cons.prems False have step: "sig_step send (CallSet st) t = Ret ?t"
      by (simp add: notified_step)
    with Cons.prems have "sig_inv ?t" by (auto intro: sig_inv_legal simp: legal_call_def)
    moreover have "set sts \<subseteq> set (sig_allowedStates ?t)" "sig_state ?t = st"
      "i \<notin> set (sig_closed ?t)" "i \<notin> w_done ` set (sig_waiters ?t)"
      using Cons.prems by (auto simp: notified_def Let_def)
    moreover have "obs_queue i ?t = Some (q @ [st])"
      using Cons.prems by (simp add: obs_queue_notified)
    ultimately show ?thesis
      using Cons.IH [of ?t "q @ [st]"] step False by auto
  qed
qed simp

section \<open>Properties\<close>

text \<open>C15: the channel that \<open>WaitForState\<close> or \<open>WaitForStateMin\<close> returns is closed exactly when the signal
  is, or at some later moment has been, in a state the waiter asked for: after any legal sequence of
  calls by any goroutines (state changes, further waiters, observers coming and going), none of which
  panics, the channel is closed if and only if the state at the call or one of the states set since
  then is the requested state (or, for \<open>WaitForStateMin\<close>, is not below it).\<close>

theorem waiter_closed_iff_state_reached:
  assumes "sig_inv s"
    and "(if m then Signal_WaitForStateMin st s else Signal_WaitForState st s) = Ret (s1, ch)"
    and "legal_run send cs s1"
  shows "\<exists>s2. sig_run send cs s1 = Ret s2 \<and>
           (ch \<in> set (sig_closed s2) \<longleftrightarrow>
              (\<exists>x \<in> insert (sig_state s) {x. CallSet x \<in> set cs}. x = st \<or> (m \<and> st \<le> x)))"
proof -
  define w where "w = \<lparr>w_done = sig_next s, w_state = st, w_minState = m\<rparr>"
  from assms(2) have s1: "Signal_waitForWaiter st w (s\<lparr>sig_next := Suc (sig_next s)\<rparr>) = Ret s1"
    and ch: "ch = w_done w"
    by (auto simp: w_def Signal_WaitForState_def Signal_WaitForStateMin_def Let_def go_bind_eq_Ret
        split: if_splits)
  from assms(1) s1 have inv: "sig_inv s1"
    unfolding w_def by (rule sig_inv_wait)
  then obtain s2 where s2: "sig_run send cs s1 = Ret s2" and inv2: "sig_inv s2"
    using legal_run_inv assms(3) by blast
  have "tracks w (waiter_satisfied (sig_state s) w) s1"
    by (rule tracks_wait [OF assms(1) _ _ s1]) (simp_all add: w_def)
  from tracks_closed_iff [OF inv2 tracks_run [OF inv assms(3) this s2]]
  have "ch \<in> set (sig_closed s2) \<longleftrightarrow>
          waiter_satisfied (sig_state s) w \<or> (\<exists>c \<in> set cs. sets_satisfying w c)"
    by (simp add: ch)
  moreover have "(\<exists>c \<in> set cs. sets_satisfying w c) \<longleftrightarrow>
                   (\<exists>x. CallSet x \<in> set cs \<and> waiter_satisfied x w)"
    by (auto simp: sets_satisfying_iff)
  ultimately have "ch \<in> set (sig_closed s2) \<longleftrightarrow>
      (\<exists>x \<in> insert (sig_state s) {x. CallSet x \<in> set cs}. x = st \<or> (m \<and> st \<le> x))"
    by (auto simp: waiter_satisfied_def w_def)
  with s2 show ?thesis by blast
qed

theorem waiter_closed_iff_state_reached_witness:
  "\<exists>s2. sig_run (\<lambda>_. True) [CallSet 1, CallObserve, CallSet 5]
          (fst (case Signal_WaitForStateMin 3 (NewSignal [0, 1, 5]) of Ret r \<Rightarrow> r)) = Ret s2 \<and>
        0 \<in> set (sig_closed s2)"
proof -
  have w: "Signal_WaitForStateMin 3 (NewSignal [0, 1, 5]) =
     Ret (\<lparr>sig_state = 0, sig_waiters = [\<lparr>w_done = 0, w_state = 3, w_minState = True\<rparr>],
           sig_observers = [], sig_allowedStates = [0, 1, 5], sig_closed = [], sig_next = 1\<rparr>, 0)"
    by (simp add: Signal_WaitForStateMin_def Signal_waitForWaiter_def NewSignal_def)
  have "legal_run (\<lambda>_. True) [CallSet 1, CallObserve, CallSet 5]
          (fst (case Signal_WaitForStateMin 3 (NewSignal [0, 1, 5]) of Ret r \<Rightarrow> r))"
    by (simp add: w legal_call_def sig_step_def Signal_SetState_def waiter_satisfied_def
        Signal_ObserveStateChange_def close_chan_def Let_def Observer_notify_def)
  with waiter_closed_iff_state_reached
    [of "NewSignal [0, 1, 5]" True 3 _ 0 "\<lambda>_. True" "[CallSet 1, CallObserve, CallSet 5]"]
  show ?thesis by (auto simp: w sig_inv_NewSignal)
qed

text \<open>C16: an observer receives the state the signal was in when it was created, followed by exactly the
  changes of the state, in order: setting the state the signal is already in sends nothing, and no
  change is lost or repeated.\<close>

theorem observer_receives_all_changes:
  assumes "sig_inv s" and "set sts \<subseteq> set (sig_allowedStates s)"
  shows "\<exists>s2. sig_run send (map CallSet sts) (fst (Signal_ObserveStateChange s)) = Ret s2 \<and>
           obs_queue (snd (Signal_ObserveStateChange s)) s2 =
             Some (sig_state s # state_changes (sig_state s) sts)"
proof -
  define t where "t = fst (Signal_ObserveStateChange s)"
  define i where "i = snd (Signal_ObserveStateChange s)"
  have "sig_step send CallObserve s = Ret t"
    by (simp add: sig_step_def t_def)
  with assms(1) have "sig_inv t" by (auto intro: sig_inv_legal simp: legal_call_def)
  moreover have "find (\<lambda>obs. obs_id obs = sig_next s) (sig_observers s) = None"
    using assms(1) by (auto simp: sig_inv_def find_None_iff)
  then have "obs_queue i t = Some [sig_state s]"
    by (simp add: obs_queue_def t_def i_def Signal_ObserveStateChange_def Let_def find_append)
  moreover have "set sts \<subseteq> set (sig_allowedStates t)" "i \<notin> set (sig_closed t)"
    "i \<notin> w_done ` set (sig_waiters t)" "sig_state t = sig_state s"
    using assms by (auto simp: t_def i_def Signal_ObserveStateChange_def Let_def sig_inv_def)
  ultimately show ?thesis
    using obs_queue_run [of t sts i "[sig_state s]" send] by (simp add: t_def i_def)
qed

theorem observer_receives_all_changes_witness:
  "\<exists>s2. sig_run (\<lambda>_. True) (map CallSet [1, 1, 0]) (fst (Signal_ObserveStateChange (NewSignal [0, 1]))) =
       Ret s2 \<and> obs_queue 0 s2 = Some [0, 1, 0]"
  using observer_receives_all_changes [of "NewSignal [0, 1]" "[1, 1, 0]" "\<lambda>_. True"]
  by (simp add: sig_inv_NewSignal) (simp add: NewSignal_def Signal_ObserveStateChange_def)

end
