(* ===== verification/Goka_Storage.thy ===== *)
theory Goka_Storage
  imports Goka_Prelude
begin

text \<open>
  The storage interface (storage/storage.go) and the storages that need no external database: the
  in-memory storage with its iterator (storage/memory.go), the null storage (storage/null.go) and the
  append-only file (storage/append.go).

  A storage implementation is a record of its methods over a state type, \<open>storage_ops\<close>; an iterator
  is a record of its methods, \<open>iter_ops\<close>. The locale \<open>kv_storage\<close> states what the partition tables
  rely on, the locale \<open>ordered_iterator\<close> what the merge iterator relies on; both are interpreted on
  the in-memory storage here and on the LevelDB storage in the theory \<open>Goka_LevelDB\<close>.
\<close>

definition offsetKey :: string where
  "offsetKey = ''__offset''"

definition slice_bytes :: "slice \<Rightarrow> bytes" where
  "slice_bytes s = (case s of None \<Rightarrow> [] | Some b \<Rightarrow> b)"

lemma slice_bytes_simps [simp]: "slice_bytes None = []" "slice_bytes (Some b) = b"
  by (simp_all add: slice_bytes_def)

section \<open>Interfaces\<close>

record 's storage_ops =
  st_Open :: "'s \<Rightarrow> 's \<times> gerr option"
  st_Close :: "'s \<Rightarrow> ('s \<times> gerr option) go"
  st_Has :: "'s \<Rightarrow> string \<Rightarrow> bool result"
  st_Get :: "'s \<Rightarrow> string \<Rightarrow> slice result"
  st_Set :: "'s \<Rightarrow> string \<Rightarrow> slice \<Rightarrow> 's \<times> gerr option"
  st_Delete :: "'s \<Rightarrow> string \<Rightarrow> 's \<times> gerr option"
  st_GetOffset :: "'s \<Rightarrow> int \<Rightarrow> int result"
  st_SetOffset :: "'s \<Rightarrow> int \<Rightarrow> 's \<times> gerr option"
  st_MarkRecovered :: "'s \<Rightarrow> ('s \<times> gerr option) go"

record 'i iter_ops =
  it_Next :: "'i \<Rightarrow> 'i \<times> bool"
  it_Err :: "'i \<Rightarrow> gerr option"
  it_Key :: "'i \<Rightarrow> slice"
  it_Value :: "'i \<Rightarrow> slice result"
  it_Release :: "'i \<Rightarrow> 'i"
  it_Seek :: "'i \<Rightarrow> bytes \<Rightarrow> 'i \<times> bool"

text \<open>
  The contract of a storage, as the partition tables use it: a map from keys to values and one
  offset. Some keys may be \<open>reserved\<close> for the storage itself; \<open>fresh\<close> holds until the storage is
  marked recovered, which may be done once; \<open>offset_ok\<close> says which offsets the storage can record.
\<close>

locale kv_storage =
  fixes ops :: "'s storage_ops" and invar :: "'s \<Rightarrow> bool" and contents :: "'s \<Rightarrow> string \<rightharpoonup> bytes"
    and offset :: "'s \<Rightarrow> int option" and reserved :: "string set"
    and fresh :: "'s \<Rightarrow> bool" and offset_ok :: "'s \<Rightarrow> int \<Rightarrow> bool"
  assumes get: "invar s \<Longrightarrow> k \<notin> reserved \<Longrightarrow> st_Get ops s k = Inr (contents s k)"
    and has: "invar s \<Longrightarrow> k \<notin> reserved \<Longrightarrow> st_Has ops s k = Inr (contents s k \<noteq> None)"
    and set: "invar s \<Longrightarrow> k \<notin> reserved \<Longrightarrow> st_Set ops s k (Some v) = (s', e) \<Longrightarrow>
      e = None \<and> invar s' \<and> contents s' = (contents s)(k \<mapsto> v) \<and> offset s' = offset s \<and>
      fresh s' = fresh s \<and> offset_ok s' = offset_ok s"
    and delete: "invar s \<Longrightarrow> k \<notin> reserved \<Longrightarrow> st_Delete ops s k = (s', e) \<Longrightarrow>
      e = None \<and> invar s' \<and> contents s' = (contents s)(k := None) \<and> offset s' = offset s \<and>
      fresh s' = fresh s \<and> offset_ok s' = offset_ok s"
    and set_offset: "invar s \<Longrightarrow> int64 n \<Longrightarrow> st_SetOffset ops s n = (s', e) \<Longrightarrow>
      e = None \<and> invar s' \<and> contents s' = contents s \<and>
      (offset_ok s n \<longrightarrow> offset s' = Some n) \<and> fresh s' = fresh s \<and> offset_ok s' = offset_ok s"
    and get_offset: "invar s \<Longrightarrow>
      st_GetOffset ops s d = Inr (case offset s of None \<Rightarrow> d | Some n \<Rightarrow> n)"
    and offset_int64: "invar s \<Longrightarrow> offset s = Some n \<Longrightarrow> int64 n"
    and mark_recovered: "invar s \<Longrightarrow> fresh s \<Longrightarrow> \<exists>s'. st_MarkRecovered ops s = Ret (s', None) \<and>
      invar s' \<and> contents s' = contents s \<and> offset s' = offset s"

text \<open>The contract of an iterator: it runs through a list of entries and raises no error.\<close>

locale ordered_iterator =
  fixes ops :: "'i iter_ops" and invar :: "'i \<Rightarrow> bool" and remaining :: "'i \<Rightarrow> (bytes \<times> bytes) list"
  assumes next_some: "invar i \<Longrightarrow> remaining i = (k, v) # r \<Longrightarrow> it_Next ops i = (i', b) \<Longrightarrow>
      b \<and> invar i' \<and> remaining i' = r \<and> it_Key ops i' = Some k \<and> it_Value ops i' = Inr (Some v)"
    and next_none: "invar i \<Longrightarrow> remaining i = [] \<Longrightarrow> it_Next ops i = (i', b) \<Longrightarrow>
      \<not> b \<and> invar i' \<and> remaining i' = [] \<and> it_Err ops i' = None"

text \<open>A loop \<open>for it.Next() \<dots>\<close> that collects what the iterator yields; the fuel bounds the number
  of calls.\<close>

fun iterate :: "'i iter_ops \<Rightarrow> nat \<Rightarrow> 'i \<Rightarrow> (slice \<times> slice result) list option" where
  "iterate ops 0 i = None"
| "iterate ops (Suc fuel) i =
     (case it_Next ops i of (i', b) \<Rightarrow>
        if b then map_option ((#) (it_Key ops i', it_Value ops i')) (iterate ops fuel i')
        else Some [])"

context ordered_iterator
begin

lemma iterate_remaining:
  assumes "invar i" and "length (remaining i) < fuel"
  shows "iterate ops fuel i = Some (map (\<lambda>(k, v). (Some k, Inr (Some v))) (remaining i))"
  using assms
proof (induction fuel arbitrary: i)
  case (Suc fuel)
  obtain i' b where step: "it_Next ops i = (i', b)" by (cases "it_Next ops i")
  show ?case
  proof (cases "remaining i")
    case Nil
    with Suc.prems step next_none [of i i' b] show ?thesis by simp
  next
    case (Cons e r)
    obtain k v where e: "e = (k, v)" by (cases e)
    with Cons Suc.prems step have "b \<and> invar i' \<and> remaining i' = r \<and> it_Key ops i' = Some k \<and>
        it_Value ops i' = Inr (Some v)"
      using next_some by blast
    with Suc.IH [of i'] Suc.prems Cons e step show ?thesis by simp
  qed
qed simp

end

section \<open>The in-memory storage\<close>

record memiter =
  mi_current :: int
  mi_keys :: "string list"
  mi_storage :: "string \<rightharpoonup> bytes"

definition memiter_exhausted :: "memiter \<Rightarrow> bool" where
  "memiter_exhausted i \<longleftrightarrow> int (length (mi_keys i)) \<le> mi_current i"

text \<open>Before the first \<open>Next\<close> the position is -1 and reading the current entry panics.\<close>

definition memiter_Key :: "memiter \<Rightarrow> slice go" where
  "memiter_Key i =
     (if memiter_exhausted i then Ret None
      else if mi_current i < 0 then Panic ''index out of range''
      else Ret (Some (mi_keys i ! nat (mi_current i))))"

definition memiter_Value :: "memiter \<Rightarrow> slice result go" where
  "memiter_Value i =
     (if memiter_exhausted i then Ret (Inr None)
      else if mi_current i < 0 then Panic ''index out of range''
      else Ret (Inr (mi_storage i (mi_keys i ! nat (mi_current i)))))"

definition memiter_Next :: "memiter \<Rightarrow> (memiter \<times> bool) go" where
  "memiter_Next i =
     (let i = i\<lparr>mi_current := mi_current i + 1\<rparr>
      in go_bind (memiter_Key i) (\<lambda>key.
        let i = (if slice_bytes key = offsetKey then i\<lparr>mi_current := mi_current i + 1\<rparr> else i)
        in Ret (i, \<not> memiter_exhausted i)))"

definition memiter_Err :: "memiter \<Rightarrow> gerr option" where
  "memiter_Err i = None"

definition memiter_Release :: "memiter \<Rightarrow> memiter" where
  "memiter_Release i = i\<lparr>mi_current := int (length (mi_keys i))\<rparr>"

text \<open>The loop of \<open>Seek\<close> from a position that is not negative.\<close>

definition has_prefix :: "string \<Rightarrow> bytes \<Rightarrow> bool" where
  "has_prefix s p \<longleftrightarrow> take (length p) s = p"

function memiter_seek_loop :: "bytes \<Rightarrow> memiter \<Rightarrow> memiter" where
  "memiter_seek_loop key i =
     (if mi_current i < int (length (mi_keys i)) \<and>
         \<not> has_prefix (mi_keys i ! nat (mi_current i)) key
      then memiter_seek_loop key (i\<lparr>mi_current := mi_current i + 1\<rparr>)
      else i)"
  by pat_completeness auto
termination
  by (relation "measure (\<lambda>(key, i). nat (int (length (mi_keys i)) - mi_current i))") auto

declare memiter_seek_loop.simps [simp del]

definition memiter_Seek :: "memiter \<Rightarrow> bytes \<Rightarrow> (memiter \<times> bool) go" where
  "memiter_Seek i key =
     (if memiter_exhausted i then Ret (i, False)
      else go_bind (if mi_current i < 0 then memiter_Next i else Ret (i, True)) (\<lambda>(i, ok).
        if \<not> ok then Ret (i, False)
        else let i = memiter_seek_loop key i in Ret (i, \<not> memiter_exhausted i)))"

text \<open>The iterator as a value of the \<open>Iterator\<close> interface; at positions where a method panics the
  interface value is arbitrary.\<close>

primrec go_or :: "'a \<Rightarrow> 'a go \<Rightarrow> 'a" where
  "go_or d (Ret x) = x"
| "go_or d (Panic m) = d"

definition memiter_ops :: "memiter iter_ops" where
  "memiter_ops = \<lparr>it_Next = (\<lambda>i. go_or (i, False) (memiter_Next i)), it_Err = memiter_Err,
     it_Key = (\<lambda>i. go_or None (memiter_Key i)), it_Value = (\<lambda>i. go_or (Inr None) (memiter_Value i)),
     it_Release = memiter_Release, it_Seek = (\<lambda>i key. go_or (i, False) (memiter_Seek i key))\<rparr>"

record memory =
  mem_keys :: "string list"
  mem_storage :: "string \<rightharpoonup> bytes"
  mem_offset :: "int option"
  mem_recovered :: bool

definition NewMemory :: memory where
  "NewMemory = \<lparr>mem_keys = [], mem_storage = Map.empty, mem_offset = None, mem_recovered = False\<rparr>"

definition memory_Has :: "memory \<Rightarrow> string \<Rightarrow> bool result" where
  "memory_Has m key = Inr (mem_storage m key \<noteq> None)"

definition memory_Get :: "memory \<Rightarrow> string \<Rightarrow> slice result" where
  "memory_Get m key = Inr (mem_storage m key)"

definition memory_Set :: "memory \<Rightarrow> string \<Rightarrow> slice \<Rightarrow> memory \<times> gerr option" where
  "memory_Set m key value =
     (case value of
        None \<Rightarrow> (m, Some (Err ''cannot write nil value''))
      | Some v \<Rightarrow>
          let m = (if mem_storage m key = None
                   then m\<lparr>mem_keys := sort (mem_keys m @ [key])\<rparr> else m)
          in (m\<lparr>mem_storage := (mem_storage m)(key \<mapsto> v)\<rparr>, None))"

fun delete_key :: "string \<Rightarrow> string list \<Rightarrow> string list" where
  "delete_key key [] = []"
| "delete_key key (k # ks) = (if k = key then ks else k # delete_key key ks)"

definition memory_Delete :: "memory \<Rightarrow> string \<Rightarrow> memory \<times> gerr option" where
  "memory_Delete m key =
     (m\<lparr>mem_storage := (mem_storage m)(key := None), mem_keys := delete_key key (mem_keys m)\<rparr>, None)"

definition memory_Iterator :: "memory \<Rightarrow> memiter result" where
  "memory_Iterator m =
     Inr \<lparr>mi_current = -1, mi_keys = mem_keys m, mi_storage = mem_storage m\<rparr>"

text \<open>\<open>bytesPrefixLimit start\<close> stands for \<open>util.BytesPrefix(start).Limit\<close> of goleveldb.\<close>

definition memory_IteratorWithRange ::
  "(bytes \<Rightarrow> slice) \<Rightarrow> memory \<Rightarrow> slice \<Rightarrow> slice \<Rightarrow> memiter result" where
  "memory_IteratorWithRange bytesPrefixLimit m start limit =
     (let limit = (if slice_bytes limit = [] then bytesPrefixLimit (slice_bytes start) else limit);
          inRange = (\<lambda>k. slice_bytes start \<le> k \<and> k \<le> slice_bytes limit);
          keys = filter inRange (mem_keys m)
      in Inr \<lparr>mi_current = -1, mi_keys = keys,
              mi_storage = (\<lambda>k. if k \<in> set keys then mem_storage m k else None)\<rparr>)"

definition memory_MarkRecovered :: "memory \<Rightarrow> (memory \<times> gerr option) go" where
  "memory_MarkRecovered m = Ret (m, None)"

definition memory_Recovered :: "memory \<Rightarrow> bool" where
  "memory_Recovered m = mem_recovered m"

definition memory_SetOffset :: "memory \<Rightarrow> int \<Rightarrow> memory \<times> gerr option" where
  "memory_SetOffset m off = (m\<lparr>mem_offset := Some off\<rparr>, None)"

definition memory_GetOffset :: "memory \<Rightarrow> int \<Rightarrow> int result" where
  "memory_GetOffset m defValue =
     (case mem_offset m of None \<Rightarrow> Inr defValue | Some off \<Rightarrow> Inr off)"

definition memory_Open :: "memory \<Rightarrow> memory \<times> gerr option" where
  "memory_Open m = (m, None)"

definition memory_Close :: "memory \<Rightarrow> (memory \<times> gerr option) go" where
  "memory_Close m = Ret (m, None)"

definition memory_ops :: "memory storage_ops" where
  "memory_ops = \<lparr>st_Open = memory_Open, st_Close = memory_Close, st_Has = memory_Has,
     st_Get = memory_Get, st_Set = memory_Set, st_Delete = memory_Delete,
     st_GetOffset = memory_GetOffset, st_SetOffset = memory_SetOffset,
     st_MarkRecovered = memory_MarkRecovered\<rparr>"

section \<open>The null storage\<close>

record Null = null_recovered :: bool

definition NewNull :: Null where
  "NewNull = \<lparr>null_recovered = False\<rparr>"

definition Null_ops :: "Null storage_ops" where
  "Null_ops = \<lparr>st_Open = (\<lambda>n. (n, None)), st_Close = (\<lambda>n. Ret (n, None)),
     st_Has = (\<lambda>n key. Inr False), st_Get = (\<lambda>n key. Inr None),
     st_Set = (\<lambda>n key val. (n, None)), st_Delete = (\<lambda>n key. (n, None)),
     st_GetOffset = (\<lambda>n d. Inr d), st_SetOffset = (\<lambda>n val. (n, None)),
     st_MarkRecovered = (\<lambda>n. Ret (n, None))\<rparr>"

definition NullIter_ops :: "unit iter_ops" where
  "NullIter_ops = \<lparr>it_Next = (\<lambda>i. (i, False)), it_Err = (\<lambda>i. None), it_Key = (\<lambda>i. None),
     it_Value = (\<lambda>i. Inr None), it_Release = (\<lambda>i. i), it_Seek = (\<lambda>i key. (i, False))\<rparr>"

section \<open>The append-only file\<close>

text \<open>The file itself (an \<open>io.WriteCloser\<close>) is external: \<open>write\<close> writes bytes and returns their
  number or an error, \<open>fclose\<close> closes it.\<close>

record 'w file_storage =
  f_file :: 'w
  f_recovered :: bool
  f_bytesWritten :: int

definition NewFile :: "gerr option \<Rightarrow> 'w result \<Rightarrow> 'w file_storage result" where
  "NewFile mkdir_res open_res =
     (case mkdir_res of
        Some err \<Rightarrow> Inl (Wrap ''error creating storage directory: %v'' err)
      | None \<Rightarrow>
          case open_res of
            Inl err \<Rightarrow> Inl err
          | Inr f \<Rightarrow> Inr \<lparr>f_file = f, f_recovered = False, f_bytesWritten = 0\<rparr>)"

definition file_Set ::
  "('w \<Rightarrow> bytes \<Rightarrow> 'w \<times> int result) \<Rightarrow> 'w file_storage \<Rightarrow> string \<Rightarrow> slice \<Rightarrow> 'w file_storage \<times> gerr option" where
  "file_Set write f key val =
     (case write (f_file f) (slice_bytes val) of
        (w, Inl err) \<Rightarrow> (f\<lparr>f_file := w\<rparr>, Some err)
      | (w, Inr num) \<Rightarrow>
          let f = f\<lparr>f_file := w, f_bytesWritten := wrap64 (f_bytesWritten f + num)\<rparr>
          in case write w [CHR 0x0A] of
               (w, Inl err) \<Rightarrow> (f\<lparr>f_file := w\<rparr>, Some err)
             | (w, Inr _) \<Rightarrow> (f\<lparr>f_file := w\<rparr>, None))"

definition file_MarkRecovered :: "'w file_storage \<Rightarrow> ('w file_storage \<times> gerr option) go" where
  "file_MarkRecovered f = Ret (f\<lparr>f_recovered := True\<rparr>, None)"

definition file_Recovered :: "'w file_storage \<Rightarrow> bool" where
  "file_Recovered f = f_recovered f"

definition file_Close :: "('w \<Rightarrow> 'w \<times> gerr option) \<Rightarrow> 'w file_storage \<Rightarrow> ('w file_storage \<times> gerr option) go" where
  "file_Close fclose f = (case fclose (f_file f) of (w, e) \<Rightarrow> Ret (f\<lparr>f_file := w\<rparr>, e))"

definition file_ops ::
  "('w \<Rightarrow> bytes \<Rightarrow> 'w \<times> int result) \<Rightarrow> ('w \<Rightarrow> 'w \<times> gerr option) \<Rightarrow> 'w file_storage storage_ops" where
  "file_ops write fclose = \<lparr>st_Open = (\<lambda>f. (f, None)), st_Close = file_Close fclose,
     st_Has = (\<lambda>f key. Inr False), st_Get = (\<lambda>f key. Inr None),
     st_Set = file_Set write, st_Delete = (\<lambda>f key. (f, None)),
     st_GetOffset = (\<lambda>f d. Inr d), st_SetOffset = (\<lambda>f val. (f, None)),
     st_MarkRecovered = file_MarkRecovered\<rparr>"

section \<open>Lemmas on the in-memory storage\<close>

lemmas memory_defs [goka_defs] =
  memory_Open_def memory_Close_def memory_Has_def memory_Get_def memory_Set_def memory_Delete_def
  memory_GetOffset_def memory_SetOffset_def memory_MarkRecovered_def

definition memory_invar :: "memory \<Rightarrow> bool" where
  "memory_invar m \<longleftrightarrow> sorted (mem_keys m) \<and> distinct (mem_keys m) \<and>
     set (mem_keys m) = dom (mem_storage m) \<and> (\<forall>n. mem_offset m = Some n \<longrightarrow> int64 n)"

lemma delete_key_eq: "delete_key key ks = remove1 key ks"
  by (induction ks) auto

lemma memory_invar_NewMemory [simp]: "memory_invar NewMemory"
  by (simp add: memory_invar_def NewMemory_def)

lemma memory_invar_Set:
  assumes "memory_invar m"
  shows "memory_invar (fst (memory_Set m key val))"
proof (cases val)
  case None
  with assms show ?thesis by (simp add: memory_Set_def)
next
  case (Some v)
  show ?thesis
  proof (cases "mem_storage m key")
    case None
    then have "key \<notin> set (mem_keys m)" using assms by (auto simp: memory_invar_def)
    with None Some assms show ?thesis by (auto simp: memory_Set_def memory_invar_def)
  next
    case (Some w)
    with \<open>val = Some v\<close> assms show ?thesis by (auto simp: memory_Set_def memory_invar_def)
  qed
qed

lemma memory_invar_Delete: "memory_invar m \<Longrightarrow> memory_invar (fst (memory_Delete m key))"
  by (auto simp: memory_Delete_def memory_invar_def delete_key_eq sorted_remove1)

lemma memory_Set_Some:
  "memory_Set m key (Some v) = (s', e) \<Longrightarrow>
     e = None \<and> mem_storage s' = (mem_storage m)(key \<mapsto> v) \<and> mem_offset s' = mem_offset m"
  by (auto simp: memory_Set_def Let_def split: if_splits)

interpretation mem: kv_storage memory_ops memory_invar mem_storage mem_offset "{}" "\<lambda>_. True" "\<lambda>_ _. True"
proof (unfold_locales, goal_cases)
  case (3 s k v s' e)
  then have "memory_Set s k (Some v) = (s', e)" by (simp add: memory_ops_def)
  with 3 memory_invar_Set [of s k "Some v"] memory_Set_Some [of s k v s' e] show ?case by auto
next
  case (4 s k s' e)
  then have "memory_Delete s k = (s', e)" by (simp add: memory_ops_def)
  with 4 memory_invar_Delete [of s k] show ?case by (auto simp: memory_Delete_def)
qed (auto simp: memory_ops_def goka_defs memory_invar_def split: option.splits)

section \<open>Lemmas on the iterator\<close>

definition memiter_invar :: "memiter \<Rightarrow> bool" where
  "memiter_invar i \<longleftrightarrow> -1 \<le> mi_current i \<and> distinct (mi_keys i) \<and> set (mi_keys i) \<subseteq> dom (mi_storage i)"

definition memiter_entries :: "memiter \<Rightarrow> string list \<Rightarrow> (bytes \<times> bytes) list" where
  "memiter_entries i ks = map (\<lambda>k. (k, the (mi_storage i k))) (filter (\<lambda>k. k \<noteq> offsetKey) ks)"

definition memiter_remaining :: "memiter \<Rightarrow> (bytes \<times> bytes) list" where
  "memiter_remaining i = memiter_entries i (drop (nat (mi_current i + 1)) (mi_keys i))"

lemma offsetKey_neq_Nil [simp]: "offsetKey \<noteq> []" "[] \<noteq> offsetKey"
  by (simp_all add: offsetKey_def)

lemma drop_Cons_nth:
  "drop n xs = y # ys \<Longrightarrow> n < length xs \<and> xs ! n = y \<and> drop (Suc n) xs = ys"
  by (metis Cons_nth_drop_Suc drop_eq_Nil list.inject list.simps(3) not_less)

lemma nat_succ: "-1 \<le> c \<Longrightarrow> nat (c + 1 + 1) = Suc (nat (c + 1))"
  by simp

text \<open>A position past the last key stays there.\<close>

lemma memiter_Next_end:
  assumes "memiter_invar i" and "drop (nat (mi_current i + 1)) (mi_keys i) = []"
  shows "memiter_Next i = Ret (i\<lparr>mi_current := mi_current i + 1\<rparr>, False)"
  using assms
  by (auto simp: memiter_Next_def memiter_Key_def memiter_exhausted_def memiter_invar_def Let_def)

lemma memiter_Next_key:
  assumes "memiter_invar i" and "drop (nat (mi_current i + 1)) (mi_keys i) = k # ks"
    and "k \<noteq> offsetKey"
  shows "memiter_Next i = Ret (i\<lparr>mi_current := mi_current i + 1\<rparr>, True)"
  using assms drop_Cons_nth [OF assms(2)]
  by (auto simp: memiter_Next_def memiter_Key_def memiter_exhausted_def memiter_invar_def Let_def)

lemma memiter_Next_offset:
  assumes "memiter_invar i" and "drop (nat (mi_current i + 1)) (mi_keys i) = offsetKey # ks"
  shows "memiter_Next i = Ret (i\<lparr>mi_current := mi_current i + 2\<rparr>, ks \<noteq> [])"
proof -
  from drop_Cons_nth [OF assms(2)] have "nat (mi_current i + 1) < length (mi_keys i)"
    "mi_keys i ! nat (mi_current i + 1) = offsetKey" and "drop (Suc (nat (mi_current i + 1))) (mi_keys i) = ks"
    by auto
  moreover from this(3) have "ks \<noteq> [] \<longleftrightarrow> Suc (nat (mi_current i + 1)) < length (mi_keys i)"
    by auto
  ultimately show ?thesis
    using assms(1)
    by (auto simp: memiter_Next_def memiter_Key_def memiter_exhausted_def memiter_invar_def Let_def)
qed

lemma memiter_current:
  assumes "drop (nat (mi_current i)) (mi_keys i) = k # ks" and "0 \<le> mi_current i"
    and "set (mi_keys i) \<subseteq> dom (mi_storage i)"
  shows "memiter_Key i = Ret (Some k) \<and> memiter_Value i = Ret (Inr (Some (the (mi_storage i k))))"
proof -
  from drop_Cons_nth [OF assms(1)] have "nat (mi_current i) < length (mi_keys i)"
    "mi_keys i ! nat (mi_current i) = k" by auto
  moreover from this have "k \<in> dom (mi_storage i)" using assms(3) nth_mem by blast
  ultimately show ?thesis
    using assms(2) by (auto simp: memiter_Key_def memiter_Value_def memiter_exhausted_def)
qed

lemma memiter_remaining_Cons_positions:
  assumes "memiter_invar i" and "memiter_remaining i = (k, v) # r"
  obtains j ks where "memiter_Next i = Ret (i\<lparr>mi_current := j\<rparr>, True)" and "0 \<le> j"
    and "drop (nat j) (mi_keys i) = k # ks" and "v = the (mi_storage i k)"
    and "r = memiter_entries i ks"
proof -
  let ?d = "drop (nat (mi_current i + 1)) (mi_keys i)"
  have ne: "?d \<noteq> []" using assms(2) by (auto simp: memiter_remaining_def memiter_entries_def)
  then obtain k0 ks0 where d: "?d = k0 # ks0" by (cases ?d) auto
  show ?thesis
  proof (cases "k0 = offsetKey")
    case False
    with d assms memiter_Next_key [OF assms(1) d] that [of "mi_current i + 1" ks0] show ?thesis
      by (auto simp: memiter_remaining_def memiter_entries_def memiter_invar_def)
  next
    case True
    have dist: "offsetKey \<notin> set ks0"
      using assms(1) d True distinct_drop [of "mi_keys i" "nat (mi_current i + 1)"]
      by (auto simp: memiter_invar_def)
    with True d assms(2) obtain ks where ks0: "ks0 = k # ks" and v: "v = the (mi_storage i k)"
      and r: "r = memiter_entries i ks"
      by (cases ks0) (auto simp: memiter_remaining_def memiter_entries_def)
    have "nat (mi_current i + 2) = Suc (nat (mi_current i + 1))"
      using assms(1) by (auto simp: memiter_invar_def)
    then have "drop (nat (mi_current i + 2)) (mi_keys i) = k # ks"
      using drop_Cons_nth [OF d] ks0 by simp
    with that [of "mi_current i + 2" ks] memiter_Next_offset [OF assms(1)] d True ks0 v r assms(1)
    show ?thesis by (auto simp: memiter_invar_def)
  qed
qed

lemma memiter_remaining_Nil_next:
  assumes "memiter_invar i" and "memiter_remaining i = []"
  obtains j where "memiter_Next i = Ret (i\<lparr>mi_current := j\<rparr>, False)" and "0 \<le> j"
    and "drop (nat (j + 1)) (mi_keys i) = []"
proof (cases "drop (nat (mi_current i + 1)) (mi_keys i)")
  case Nil
  with assms(1) that [of "mi_current i + 1"] memiter_Next_end [OF assms(1) Nil] show ?thesis
    by (auto simp: memiter_invar_def)
next
  case (Cons k ks)
  then have k: "k = offsetKey" and "memiter_entries i ks = []"
    using assms(2) by (auto simp: memiter_remaining_def memiter_entries_def split: if_splits)
  moreover have "offsetKey \<notin> set ks"
    using assms(1) Cons k distinct_drop [of "mi_keys i" "nat (mi_current i + 1)"]
    by (auto simp: memiter_invar_def)
  ultimately have ks: "ks = []" by (cases ks) (auto simp: memiter_entries_def)
  from drop_Cons_nth [OF Cons] ks have "drop (Suc (nat (mi_current i + 1))) (mi_keys i) = []" by simp
  with assms(1) ks k Cons that [of "mi_current i + 2"] memiter_Next_offset [OF assms(1)] show ?thesis
    by (auto simp: memiter_invar_def)
qed

lemma memiter_invar_position:
  "memiter_invar i \<Longrightarrow> 0 \<le> j \<Longrightarrow> memiter_invar (i\<lparr>mi_current := j\<rparr>)"
  by (simp add: memiter_invar_def)

lemma memiter_entries_position [simp]: "memiter_entries (i\<lparr>mi_current := j\<rparr>) ks = memiter_entries i ks"
  by (simp add: memiter_entries_def)

interpretation memiter: ordered_iterator memiter_ops memiter_invar memiter_remaining
proof (unfold_locales, goal_cases)
  case (1 i k v r i' b)
  obtain j ks where nx: "memiter_Next i = Ret (i\<lparr>mi_current := j\<rparr>, True)" and j: "0 \<le> j"
    and d: "drop (nat j) (mi_keys i) = k # ks" and vr: "v = the (mi_storage i k)"
      "r = memiter_entries i ks"
    using 1 by (blast elim: memiter_remaining_Cons_positions)
  with 1 have i': "i' = i\<lparr>mi_current := j\<rparr>" and b: "b" by (auto simp: memiter_ops_def)
  have "drop (nat (j + 1)) (mi_keys i) = ks"
    using drop_Cons_nth [OF d] j by (simp add: nat_add_distrib)
  moreover have "memiter_Key i' = Ret (Some k) \<and> memiter_Value i' = Ret (Inr (Some v))"
    using memiter_current [of i' k ks] 1 i' d j vr by (simp add: memiter_invar_def)
  ultimately show ?case
    using 1 b i' j vr by (simp add: memiter_ops_def memiter_remaining_def memiter_invar_position)
next
  case (2 i i' b)
  then obtain j where "memiter_Next i = Ret (i\<lparr>mi_current := j\<rparr>, False)" and "0 \<le> j"
    and "drop (nat (j + 1)) (mi_keys i) = []"
    by (blast elim: memiter_remaining_Nil_next)
  with 2 show ?case
    by (auto simp: memiter_ops_def memiter_Err_def memiter_remaining_def memiter_invar_position
        memiter_entries_def)
qed

lemma memory_Iterator_invar:
  assumes "memory_invar m" and "memory_Iterator m = Inr i"
  shows "memiter_invar i" and "memiter_remaining i = memiter_entries i (mem_keys m)"
  using assms by (auto simp: memory_Iterator_def memory_invar_def memiter_invar_def memiter_remaining_def)

lemma sorted_distinct_keys:
  assumes "memory_invar m"
  shows "mem_keys m = sorted_list_of_set (dom (mem_storage m))"
  using assms
  by (metis memory_invar_def sorted_list_of_set.idem_if_sorted_distinct)

section \<open>Sequences of updates\<close>

datatype upd = Put string bytes | Del string

definition upd_key :: "upd \<Rightarrow> string" where
  "upd_key u = (case u of Put k v \<Rightarrow> k | Del k \<Rightarrow> k)"

definition apply_upd :: "'s storage_ops \<Rightarrow> upd \<Rightarrow> 's \<Rightarrow> 's" where
  "apply_upd ops u s =
     (case u of Put k v \<Rightarrow> fst (st_Set ops s k (Some v)) | Del k \<Rightarrow> fst (st_Delete ops s k))"

definition upd_map :: "upd \<Rightarrow> (string \<rightharpoonup> bytes) \<Rightarrow> (string \<rightharpoonup> bytes)" where
  "upd_map u m = (case u of Put k v \<Rightarrow> m(k \<mapsto> v) | Del k \<Rightarrow> m(k := None))"

context kv_storage
begin

lemma apply_upd_refines:
  assumes "invar s" and "upd_key u \<notin> reserved"
  shows "invar (apply_upd ops u s) \<and> contents (apply_upd ops u s) = upd_map u (contents s) \<and>
         offset (apply_upd ops u s) = offset s"
proof (cases u)
  case (Put k v)
  with assms set [of s k v] show ?thesis
    by (cases "st_Set ops s k (Some v)") (auto simp: apply_upd_def upd_map_def upd_key_def)
next
  case (Del k)
  with assms delete [of s k] show ?thesis
    by (cases "st_Delete ops s k") (auto simp: apply_upd_def upd_map_def upd_key_def)
qed

lemma apply_upds_refine:
  assumes "invar s" and "\<forall>u \<in> set us. upd_key u \<notin> reserved"
  shows "invar (fold (apply_upd ops) us s) \<and>
         contents (fold (apply_upd ops) us s) = fold upd_map us (contents s) \<and>
         offset (fold (apply_upd ops) us s) = offset s"
  using assms by (induction us arbitrary: s) (simp_all add: apply_upd_refines)

end

section \<open>Properties\<close>

text \<open>C6: the in-memory storage refines a map: after any sequence of \<open>Set\<close> and \<open>Delete\<close> calls on a new
  storage, \<open>Get\<close> and \<open>Has\<close> answer every key as the map that the updates describe, the offset is
  untouched, and a full iteration yields exactly the entries of that map in ascending key order,
  each once (without the reserved key \<open>__offset\<close>).\<close>

theorem memory_refines_map:
  fixes us :: "upd list"
  defines "m \<equiv> fold (apply_upd memory_ops) us NewMemory"
    and "c \<equiv> fold upd_map us Map.empty"
  shows "(\<forall>k. memory_Get m k = Inr (c k) \<and> memory_Has m k = Inr (c k \<noteq> None)) \<and>
         memory_GetOffset m d = Inr d \<and>
         (\<exists>i. memory_Iterator m = Inr i \<and>
            iterate memiter_ops (Suc (card (dom c))) i =
              Some (map (\<lambda>k. (Some k, Inr (c k)))
                 (filter (\<lambda>k. k \<noteq> offsetKey) (sorted_list_of_set (dom c)))))"
proof -
  have ref: "memory_invar m \<and> mem_storage m = c \<and> mem_offset m = None"
    using mem.apply_upds_refine [of NewMemory us] unfolding m_def c_def
    by (simp add: NewMemory_def memory_invar_def)
  obtain i where i: "memory_Iterator m = Inr i" and st: "mi_storage i = c"
    using ref by (simp add: memory_Iterator_def)
  let ?ks = "filter (\<lambda>k. k \<noteq> offsetKey) (sorted_list_of_set (dom c))"
  have rem: "memiter_remaining i = map (\<lambda>k. (k, the (c k))) ?ks"
    using memory_Iterator_invar(2) [OF _ i] ref st sorted_distinct_keys [of m]
    by (simp add: memiter_entries_def)
  have "length (memiter_remaining i) \<le> card (dom c)"
    using length_filter_le [of "\<lambda>k. k \<noteq> offsetKey" "sorted_list_of_set (dom c)"]
    by (simp add: rem)
  then have "iterate memiter_ops (Suc (card (dom c))) i =
      Some (map (\<lambda>(k, v). (Some k, Inr (Some v))) (memiter_remaining i))"
    using memiter.iterate_remaining [of i "Suc (card (dom c))"] memory_Iterator_invar(1) [OF _ i] ref
    by simp
  moreover have fin: "finite (dom c)"
    using ref by (metis List.finite_set memory_invar_def)
  moreover have "k \<in> set ?ks \<Longrightarrow> Some (the (c k)) = c k" for k
    using fin by auto
  ultimately have "iterate memiter_ops (Suc (card (dom c))) i = Some (map (\<lambda>k. (Some k, Inr (c k))) ?ks)"
    by (simp add: rem)
  with ref i show ?thesis
    by (simp add: memory_Get_def memory_Has_def memory_GetOffset_def)
qed

end
