(* ===== verification/Goka_LevelDB.thy ===== *)
theory Goka_LevelDB
  imports Goka_Storage Goka_Codec
begin

text \<open>
  The LevelDB storage (\<open>storage/storage.go\<close>) and its iterator (\<open>storage/iterator.go\<close>).

  The database (goleveldb) is a parameter: a record of its operations on a state
  \<open>'d\<close>. What goleveldb documents about them is the predicate \<open>leveldb_contract\<close>, which the
  theorems take as a hypothesis: a map from keys to values whose operations raise no error while
  the database is open. Under it the storage satisfies the contract \<open>kv_storage\<close> of
  \<open>Goka_Storage\<close>, with the key \<open>__offset\<close> reserved for the offset.

  The channels \<open>recovered\<close>, \<open>close\<close> and \<open>closed\<close> only ever get closed: each is a flag, and
  closing one twice panics. The goroutine that \<open>Open\<close> starts is \<open>storage_sync\<close>, one step per
  round of its loop.
\<close>

section \<open>The database\<close>

datatype ldb_error = LdbNotFound | LdbOther gerr

record 'd leveldb =
  ldb_Has :: "'d \<Rightarrow> bytes \<Rightarrow> bool result"
  ldb_Get :: "'d \<Rightarrow> bytes \<Rightarrow> ldb_error + bytes"
  ldb_Put :: "'d \<Rightarrow> bytes \<Rightarrow> slice \<Rightarrow> 'd \<times> gerr option"
  ldb_Delete :: "'d \<Rightarrow> bytes \<Rightarrow> 'd \<times> gerr option"
  ldb_Close :: "'d \<Rightarrow> 'd \<times> gerr option"

definition leveldb_contract :: "'d leveldb \<Rightarrow> ('d \<Rightarrow> bool) \<Rightarrow> ('d \<Rightarrow> bytes \<rightharpoonup> bytes) \<Rightarrow> bool" where
  "leveldb_contract db opened content \<longleftrightarrow>
     (\<forall>d k. opened d \<longrightarrow> ldb_Has db d k = Inr (content d k \<noteq> None)) \<and>
     (\<forall>d k. opened d \<longrightarrow>
        ldb_Get db d k = (case content d k of None \<Rightarrow> Inl LdbNotFound | Some v \<Rightarrow> Inr v)) \<and>
     (\<forall>d k v d' e. opened d \<longrightarrow> ldb_Put db d k v = (d', e) \<longrightarrow>
        e = None \<and> opened d' \<and> content d' = (content d)(k \<mapsto> slice_bytes v)) \<and>
     (\<forall>d k d' e. opened d \<longrightarrow> ldb_Delete db d k = (d', e) \<longrightarrow>
        e = None \<and> opened d' \<and> content d' = (content d)(k := None)) \<and>
     (\<forall>d d' e. opened d \<longrightarrow> ldb_Close db d = (d', e) \<longrightarrow>
        e = None \<and> \<not> opened d' \<and> content d' = content d)"

section \<open>The storage\<close>

record 'd storage =
  ls_offset :: int
  ls_recovered :: bool
  ls_close :: bool
  ls_closed :: bool
  ls_sync :: bool
  ls_db :: 'd

definition storage_New :: "'d \<Rightarrow> 'd storage" where
  "storage_New d = \<lparr>ls_offset = 0, ls_recovered = False, ls_close = False, ls_closed = False,
     ls_sync = False, ls_db = d\<rparr>"

definition storage_Has :: "'d leveldb \<Rightarrow> 'd storage \<Rightarrow> string \<Rightarrow> bool result" where
  "storage_Has db s key = ldb_Has db (ls_db s) key"

definition storage_Get :: "'d leveldb \<Rightarrow> 'd storage \<Rightarrow> string \<Rightarrow> slice result" where
  "storage_Get db s key =
     (case ldb_Get db (ls_db s) key of
        Inl LdbNotFound \<Rightarrow> Inr None
      | Inl (LdbOther err) \<Rightarrow> Inl (Wrap ''error getting from leveldb (key %s): %v'' err)
      | Inr v \<Rightarrow> Inr (Some v))"

definition storage_GetOffset :: "'d leveldb \<Rightarrow> 'd storage \<Rightarrow> int \<Rightarrow> int result" where
  "storage_GetOffset db s defValue =
     (if \<not> ls_recovered s \<and> ls_offset s \<noteq> 0 then Inr (ls_offset s)
      else case storage_Get db s offsetKey of
          Inl err \<Rightarrow> Inl err
        | Inr None \<Rightarrow> Inr defValue
        | Inr (Some data) \<Rightarrow>
            (case ParseInt data of
               Inl err \<Rightarrow> Inl (Err ''error decoding offset: %v'')
             | Inr v \<Rightarrow> Inr v))"

definition storage_Set ::
  "'d leveldb \<Rightarrow> 'd storage \<Rightarrow> string \<Rightarrow> slice \<Rightarrow> 'd storage \<times> gerr option" where
  "storage_Set db s key val =
     (case ldb_Put db (ls_db s) key val of
        (d, Some err) \<Rightarrow> (s\<lparr>ls_db := d\<rparr>, Some (Wrap ''error setting to leveldb (key %s): %v'' err))
      | (d, None) \<Rightarrow> (s\<lparr>ls_db := d\<rparr>, None))"

definition storage_putOffset :: "'d leveldb \<Rightarrow> 'd storage \<Rightarrow> int \<Rightarrow> 'd storage \<times> gerr option" where
  "storage_putOffset db s off = storage_Set db s offsetKey (Some (FormatInt off))"

definition storage_SetOffset :: "'d leveldb \<Rightarrow> 'd storage \<Rightarrow> int \<Rightarrow> 'd storage \<times> gerr option" where
  "storage_SetOffset db s off =
     (let s = s\<lparr>ls_offset := off\<rparr>
      in if ls_recovered s then storage_putOffset db s off else (s, None))"

definition storage_Delete :: "'d leveldb \<Rightarrow> 'd storage \<Rightarrow> string \<Rightarrow> 'd storage \<times> gerr option" where
  "storage_Delete db s key =
     (case ldb_Delete db (ls_db s) key of
        (d, Some err) \<Rightarrow> (s\<lparr>ls_db := d\<rparr>, Some (Wrap ''error deleting from leveldb (key %s): %v'' err))
      | (d, None) \<Rightarrow> (s\<lparr>ls_db := d\<rparr>, None))"

definition close_of_closed :: "'a go" where
  "close_of_closed = Panic ''close of closed channel''"

definition storage_MarkRecovered :: "'d leveldb \<Rightarrow> 'd storage \<Rightarrow> ('d storage \<times> gerr option) go" where
  "storage_MarkRecovered db s =
     (case (if ls_offset s \<noteq> 0 then storage_putOffset db s (ls_offset s) else (s, None)) of
        (s, Some err) \<Rightarrow> Ret (s, Some err)
      | (s, None) \<Rightarrow>
          if ls_recovered s then close_of_closed else Ret (s\<lparr>ls_recovered := True\<rparr>, None))"

definition storage_Open :: "'d storage \<Rightarrow> 'd storage \<times> gerr option" where
  "storage_Open s = (s\<lparr>ls_sync := True\<rparr>, None)"

text \<open>A round of the goroutine started by \<open>Open\<close>: \<open>select\<close> takes any of the channels that is
  ready; the ticker may always be.\<close>

datatype sync_case = SyncClose | SyncRecovered | SyncTick

definition storage_sync :: "'d leveldb \<Rightarrow> sync_case \<Rightarrow> 'd storage \<Rightarrow> 'd storage" where
  "storage_sync db ch s =
     (if \<not> ls_sync s then s
      else case ch of
          SyncClose \<Rightarrow> if ls_close s then s\<lparr>ls_sync := False\<rparr> else s
        | SyncRecovered \<Rightarrow> if ls_recovered s then s\<lparr>ls_sync := False\<rparr> else s
        | SyncTick \<Rightarrow> if ls_offset s \<noteq> 0 then fst (storage_putOffset db s (ls_offset s)) else s)"

definition storage_Close :: "'d leveldb \<Rightarrow> 'd storage \<Rightarrow> ('d storage \<times> gerr option) go" where
  "storage_Close db s =
     (if ls_close s then close_of_closed
      else let s = s\<lparr>ls_close := True\<rparr>;
               s = (if ls_offset s \<noteq> 0 then fst (storage_putOffset db s (ls_offset s)) else s)
           in case ldb_Close db (ls_db s) of (d, e) \<Rightarrow>
                Ret (s\<lparr>ls_db := d, ls_closed := True\<rparr>, e))"

definition storage_ops :: "'d leveldb \<Rightarrow> 'd storage storage_ops" where
  "storage_ops db = \<lparr>st_Open = storage_Open, st_Close = storage_Close db, st_Has = storage_Has db,
     st_Get = storage_Get db, st_Set = storage_Set db, st_Delete = storage_Delete db,
     st_GetOffset = storage_GetOffset db, st_SetOffset = storage_SetOffset db,
     st_MarkRecovered = storage_MarkRecovered db\<rparr>"

section \<open>The iterator\<close>

record 'i ldb_iterator =
  li_Next :: "'i \<Rightarrow> 'i \<times> bool"
  li_Key :: "'i \<Rightarrow> slice"
  li_Value :: "'i \<Rightarrow> slice"
  li_Error :: "'i \<Rightarrow> gerr option"
  li_Release :: "'i \<Rightarrow> 'i"
  li_Seek :: "'i \<Rightarrow> bytes \<Rightarrow> 'i \<times> bool"

text \<open>The iterators goleveldb opens: \<open>ldb_GetSnapshot\<close> fails or not, \<open>ldb_NewIterator\<close> iterates
  over a range of keys, from the start up to but without the limit.\<close>

record ('d, 'i, 'n) ldb_snapshots =
  ldb_GetSnapshot :: "'d \<Rightarrow> 'n result"
  ldb_NewIterator :: "'d \<Rightarrow> (slice \<times> slice) option \<Rightarrow> 'i"
  ldb_BytesPrefix :: "slice \<Rightarrow> slice \<times> slice"
  ldb_ReleaseSnapshot :: "'n \<Rightarrow> 'n"

record ('i, 'n) iterator =
  it_iter :: 'i
  it_snap :: 'n

definition storage_Iterator ::
  "('d, 'i, 'n) ldb_snapshots \<Rightarrow> 'd storage \<Rightarrow> ('i, 'n) iterator result" where
  "storage_Iterator sn s =
     (case ldb_GetSnapshot sn (ls_db s) of
        Inl err \<Rightarrow> Inl err
      | Inr snap \<Rightarrow> Inr \<lparr>it_iter = ldb_NewIterator sn (ls_db s) None, it_snap = snap\<rparr>)"

definition storage_IteratorWithRange ::
  "('d, 'i, 'n) ldb_snapshots \<Rightarrow> 'd storage \<Rightarrow> slice \<Rightarrow> slice \<Rightarrow> ('i, 'n) iterator result" where
  "storage_IteratorWithRange sn s start limit =
     (case ldb_GetSnapshot sn (ls_db s) of
        Inl err \<Rightarrow> Inl err
      | Inr snap \<Rightarrow>
          if limit \<noteq> None \<and> slice_bytes limit \<noteq> []
          then Inr \<lparr>it_iter = ldb_NewIterator sn (ls_db s) (Some (start, limit)), it_snap = snap\<rparr>
          else Inr \<lparr>it_iter = ldb_NewIterator sn (ls_db s) (Some (ldb_BytesPrefix sn start)),
                    it_snap = snap\<rparr>)"

definition iterator_Next ::
  "'i ldb_iterator \<Rightarrow> ('i, 'n) iterator \<Rightarrow> ('i, 'n) iterator \<times> bool" where
  "iterator_Next li i =
     (case li_Next li (it_iter i) of (j, n) \<Rightarrow>
        if slice_bytes (li_Key li j) = offsetKey
        then (case li_Next li j of (j, n) \<Rightarrow> (i\<lparr>it_iter := j\<rparr>, n))
        else (i\<lparr>it_iter := j\<rparr>, n))"

definition iterator_Value :: "'i ldb_iterator \<Rightarrow> ('i, 'n) iterator \<Rightarrow> slice result" where
  "iterator_Value li i = Inr (li_Value li (it_iter i))"

definition iterator_Release ::
  "'i ldb_iterator \<Rightarrow> ('n \<Rightarrow> 'n) \<Rightarrow> ('i, 'n) iterator \<Rightarrow> ('i, 'n) iterator" where
  "iterator_Release li release_snapshot i =
     i\<lparr>it_iter := li_Release li (it_iter i), it_snap := release_snapshot (it_snap i)\<rparr>"

definition iterator_Seek ::
  "'i ldb_iterator \<Rightarrow> ('i, 'n) iterator \<Rightarrow> bytes \<Rightarrow> ('i, 'n) iterator \<times> bool" where
  "iterator_Seek li i key = (case li_Seek li (it_iter i) key of (j, b) \<Rightarrow> (i\<lparr>it_iter := j\<rparr>, b))"

definition iterator_ops :: "'i ldb_iterator \<Rightarrow> ('n \<Rightarrow> 'n) \<Rightarrow> ('i, 'n) iterator iter_ops" where
  "iterator_ops li release_snapshot = \<lparr>it_Next = iterator_Next li, it_Err = (\<lambda>i. li_Error li (it_iter i)),
     it_Key = (\<lambda>i. li_Key li (it_iter i)), it_Value = iterator_Value li,
     it_Release = iterator_Release li release_snapshot, it_Seek = iterator_Seek li\<rparr>"

section \<open>The storage as a map with an offset\<close>

definition storage_invar :: "('d \<Rightarrow> bool) \<Rightarrow> ('d \<Rightarrow> bytes \<rightharpoonup> bytes) \<Rightarrow> 'd storage \<Rightarrow> bool" where
  "storage_invar opened content s \<longleftrightarrow> opened (ls_db s) \<and> int64 (ls_offset s) \<and>
     (\<forall>data. content (ls_db s) offsetKey = Some data \<longrightarrow> (\<exists>n. ParseInt data = Inr n))"

definition storage_contents :: "('d \<Rightarrow> bytes \<rightharpoonup> bytes) \<Rightarrow> 'd storage \<Rightarrow> string \<rightharpoonup> bytes" where
  "storage_contents content s = (content (ls_db s))(offsetKey := None)"

definition stored_offset :: "(bytes \<rightharpoonup> bytes) \<Rightarrow> int option" where
  "stored_offset m = map_option (\<lambda>data. projr (ParseInt data)) (m offsetKey)"

definition storage_offset :: "('d \<Rightarrow> bytes \<rightharpoonup> bytes) \<Rightarrow> 'd storage \<Rightarrow> int option" where
  "storage_offset content s =
     (if \<not> ls_recovered s \<and> ls_offset s \<noteq> 0 then Some (ls_offset s)
      else stored_offset (content (ls_db s)))"

lemma ldb_get: "leveldb_contract db opened content \<Longrightarrow> opened d \<Longrightarrow>
    ldb_Get db d k = (case content d k of None \<Rightarrow> Inl LdbNotFound | Some v \<Rightarrow> Inr v)"
  unfolding leveldb_contract_def by blast

lemma ldb_has: "leveldb_contract db opened content \<Longrightarrow> opened d \<Longrightarrow>
    ldb_Has db d k = Inr (content d k \<noteq> None)"
  unfolding leveldb_contract_def by blast

lemma ldb_put: "leveldb_contract db opened content \<Longrightarrow> opened d \<Longrightarrow>
    \<exists>d'. ldb_Put db d k v = (d', None) \<and> opened d' \<and> content d' = (content d)(k \<mapsto> slice_bytes v)"
  unfolding leveldb_contract_def by (metis surj_pair)

lemma ldb_delete: "leveldb_contract db opened content \<Longrightarrow> opened d \<Longrightarrow>
    \<exists>d'. ldb_Delete db d k = (d', None) \<and> opened d' \<and> content d' = (content d)(k := None)"
  unfolding leveldb_contract_def by (metis surj_pair)

lemma ldb_close: "leveldb_contract db opened content \<Longrightarrow> opened d \<Longrightarrow>
    \<exists>d'. ldb_Close db d = (d', None) \<and> content d' = content d"
  unfolding leveldb_contract_def by (metis surj_pair)

lemma storage_Set_ok:
  assumes "leveldb_contract db opened content" and "opened (ls_db s)"
  obtains d where "storage_Set db s k (Some v) = (s\<lparr>ls_db := d\<rparr>, None)" and "opened d"
    and "content d = (content (ls_db s))(k \<mapsto> v)"
  using ldb_put [OF assms, of k "Some v"]
  by (auto simp: storage_Set_def slice_bytes_def)

lemma storage_Delete_ok:
  assumes "leveldb_contract db opened content" and "opened (ls_db s)"
  obtains d where "storage_Delete db s k = (s\<lparr>ls_db := d\<rparr>, None)" and "opened d"
    and "content d = (content (ls_db s))(k := None)"
  using ldb_delete [OF assms, of k] by (auto simp: storage_Delete_def)

lemma storage_putOffset_ok:
  assumes "leveldb_contract db opened content" and "opened (ls_db s)" and "int64 n"
  obtains d where "storage_putOffset db s n = (s\<lparr>ls_db := d\<rparr>, None)" and "opened d"
    and "content d = (content (ls_db s))(offsetKey \<mapsto> FormatInt n)"
    and "stored_offset (content d) = Some n"
  using storage_Set_ok [OF assms(1,2), of offsetKey "FormatInt n"] assms(3)
  unfolding storage_putOffset_def by (auto simp: stored_offset_def ParseInt_FormatInt)

lemma storage_Get_ok:
  "leveldb_contract db opened content \<Longrightarrow> opened (ls_db s) \<Longrightarrow>
   storage_Get db s k = Inr (content (ls_db s) k)"
  by (simp add: storage_Get_def ldb_get split: option.splits)

lemma storage_GetOffset_ok:
  assumes "leveldb_contract db opened content" and "storage_invar opened content s"
  shows "storage_GetOffset db s d = Inr (case storage_offset content s of None \<Rightarrow> d | Some n \<Rightarrow> n)"
proof -
  have "storage_Get db s offsetKey = Inr (content (ls_db s) offsetKey)"
    using storage_Get_ok assms unfolding storage_invar_def by blast
  note g = this
  show ?thesis
  proof (cases "content (ls_db s) offsetKey")
    case None
    then show ?thesis
      by (simp add: storage_GetOffset_def storage_offset_def stored_offset_def g)
  next
    case (Some data)
    then obtain n where n: "ParseInt data = Inr n"
      using assms(2) unfolding storage_invar_def by blast
    show ?thesis
      unfolding storage_GetOffset_def storage_offset_def stored_offset_def g Some
      by (simp only: sum.case option.case option.map sum.sel n if_distrib [of "\<lambda>v. case v of None \<Rightarrow> d | Some n \<Rightarrow> n"] if_distrib [of Inr])
  qed
qed

lemma storage_SetOffset_ok:
  assumes "leveldb_contract db opened content" and "opened (ls_db s)" and "int64 n"
  obtains d where "storage_SetOffset db s n = (s\<lparr>ls_offset := n, ls_db := d\<rparr>, None)" and "opened d"
    and "if ls_recovered s
         then content d = (content (ls_db s))(offsetKey \<mapsto> FormatInt n) \<and>
              stored_offset (content d) = Some n
         else d = ls_db s"
proof (cases "ls_recovered s")
  case True
  have "opened (ls_db (s\<lparr>ls_offset := n\<rparr>))" using assms(2) by simp
  then obtain d where "storage_putOffset db (s\<lparr>ls_offset := n\<rparr>) n = (s\<lparr>ls_offset := n, ls_db := d\<rparr>, None)"
    and d: "opened d" "content d = (content (ls_db s))(offsetKey \<mapsto> FormatInt n)"
      "stored_offset (content d) = Some n"
    using storage_putOffset_ok [OF assms(1) _ assms(3), of "s\<lparr>ls_offset := n\<rparr>"] by auto
  then have "storage_SetOffset db s n = (s\<lparr>ls_offset := n, ls_db := d\<rparr>, None)"
    using True by (simp add: storage_SetOffset_def)
  from this d(1) show ?thesis by (rule that) (simp add: True, intro conjI d)
next
  case False
  then have "storage_SetOffset db s n = (s\<lparr>ls_offset := n, ls_db := ls_db s\<rparr>, None)"
    by (simp add: storage_SetOffset_def)
  from this assms(2) show ?thesis by (rule that) (simp add: False)
qed

lemma storage_MarkRecovered_ok:
  assumes "leveldb_contract db opened content" and "opened (ls_db s)" and "int64 (ls_offset s)"
    and "\<not> ls_recovered s"
  obtains d where "storage_MarkRecovered db s = Ret (s\<lparr>ls_db := d, ls_recovered := True\<rparr>, None)"
    and "opened d"
    and "if ls_offset s = 0 then d = ls_db s
         else content d = (content (ls_db s))(offsetKey \<mapsto> FormatInt (ls_offset s)) \<and>
              stored_offset (content d) = Some (ls_offset s)"
proof (cases "ls_offset s = 0")
  case True
  then have "storage_MarkRecovered db s = Ret (s\<lparr>ls_db := ls_db s, ls_recovered := True\<rparr>, None)"
    using assms(4) by (simp add: storage_MarkRecovered_def)
  from this assms(2) show ?thesis by (rule that) (simp add: True)
next
  case False
  obtain d where "storage_putOffset db s (ls_offset s) = (s\<lparr>ls_db := d\<rparr>, None)"
    and d: "opened d" "content d = (content (ls_db s))(offsetKey \<mapsto> FormatInt (ls_offset s))"
      "stored_offset (content d) = Some (ls_offset s)"
    using storage_putOffset_ok [OF assms(1-3)] by blast
  then have "storage_MarkRecovered db s = Ret (s\<lparr>ls_db := d, ls_recovered := True\<rparr>, None)"
    using assms(4) False by (simp add: storage_MarkRecovered_def)
  from this d(1) show ?thesis by (rule that) (simp add: False, intro conjI d)
qed

text \<open>The invariant after a write of the offset key, and after any change that leaves it alone.\<close>

lemma storage_invar_offset_written:
  assumes "opened (ls_db s)" and "int64 (ls_offset s)" and "int64 n"
    and "content (ls_db s) = m(offsetKey \<mapsto> FormatInt n)"
  shows "storage_invar opened content s"
  unfolding storage_invar_def using assms by (simp add: ParseInt_FormatInt)

lemma storage_invar_offset_kept:
  assumes "storage_invar opened content s" and "opened d" and "int64 n"
    and "content d offsetKey = content (ls_db s) offsetKey" and "ls_db s' = d" and "ls_offset s' = n"
  shows "storage_invar opened content s'"
  using assms unfolding storage_invar_def by metis

lemma storage_kv_storage:
  assumes "leveldb_contract db opened content"
  shows "kv_storage (storage_ops db) (storage_invar opened content) (storage_contents content)
    (storage_offset content) {offsetKey} (\<lambda>s. \<not> ls_recovered s) (\<lambda>s n. ls_recovered s \<or> n \<noteq> 0)"
proof (unfold_locales, goal_cases)
  case (1 s k)
  then have "storage_Get db s k = Inr (content (ls_db s) k)"
    using storage_Get_ok [OF assms] unfolding storage_invar_def by blast
  with 1 show ?case by (simp add: storage_ops_def storage_contents_def)
next
  case (2 s k)
  then have "storage_Has db s k = Inr (content (ls_db s) k \<noteq> None)"
    using ldb_has [OF assms] unfolding storage_invar_def storage_Has_def by blast
  with 2 show ?case by (simp add: storage_ops_def storage_contents_def)
next
  case (3 s k v s' e)
  then obtain d where "s' = s\<lparr>ls_db := d\<rparr>" "e = None" "opened d"
    "content d = (content (ls_db s))(k \<mapsto> v)"
    using storage_Set_ok [OF assms, of s k v] unfolding storage_invar_def storage_ops_def
    by (metis Pair_inject storage_ops.select_convs(5))
  moreover from this 3 have "storage_invar opened content s'"
    using storage_invar_offset_kept [OF 3(1), of d "ls_offset s" s'] unfolding storage_invar_def by simp
  ultimately show ?case
    using 3(2) by (auto simp: storage_contents_def storage_offset_def stored_offset_def)
next
  case (4 s k s' e)
  then obtain d where "s' = s\<lparr>ls_db := d\<rparr>" "e = None" "opened d"
    "content d = (content (ls_db s))(k := None)"
    using storage_Delete_ok [OF assms, of s k] unfolding storage_invar_def storage_ops_def
    by (metis Pair_inject storage_ops.select_convs(6))
  moreover from this 4 have "storage_invar opened content s'"
    using storage_invar_offset_kept [OF 4(1), of d "ls_offset s" s'] unfolding storage_invar_def by simp
  ultimately show ?case
    using 4(2) by (auto simp: storage_contents_def storage_offset_def stored_offset_def)
next
  case (5 s n s' e)
  then obtain d where d: "s' = s\<lparr>ls_offset := n, ls_db := d\<rparr>" "e = None" "opened d"
    "if ls_recovered s then content d = (content (ls_db s))(offsetKey \<mapsto> FormatInt n) \<and>
       stored_offset (content d) = Some n else d = ls_db s"
    using storage_SetOffset_ok [OF assms, of s n] unfolding storage_invar_def storage_ops_def
    by (metis Pair_inject storage_ops.select_convs(8))
  then have "storage_invar opened content s'"
    using storage_invar_offset_written [of opened s' n content "content (ls_db s)"]
      storage_invar_offset_kept [OF 5(1), of d n s'] 5(2) by (simp split: if_splits)
  with d show ?case
    by (cases "ls_recovered s") (auto simp: storage_contents_def storage_offset_def)
next
  case (6 s d)
  then show ?case using storage_GetOffset_ok [OF assms] by (simp add: storage_ops_def)
next
  case (7 s n)
  then have i: "int64 (ls_offset s)"
    and p: "\<forall>data. content (ls_db s) offsetKey = Some data \<longrightarrow> (\<exists>n. ParseInt data = Inr n)"
    unfolding storage_invar_def by blast+
  consider "n = ls_offset s" | data where "content (ls_db s) offsetKey = Some data" "n = projr (ParseInt data)"
    using 7(2) by (auto simp: storage_offset_def stored_offset_def split: if_splits)
  then show ?case
  proof cases
    case 2
    with p obtain m where "ParseInt data = Inr m" by blast
    with 2 ParseInt_range [of data m] show ?thesis by (simp only: sum.sel)
  qed (simp only: i)
next
  case (8 s)
  then obtain d where d: "storage_MarkRecovered db s = Ret (s\<lparr>ls_db := d, ls_recovered := True\<rparr>, None)"
    "opened d" "if ls_offset s = 0 then d = ls_db s
         else content d = (content (ls_db s))(offsetKey \<mapsto> FormatInt (ls_offset s)) \<and>
              stored_offset (content d) = Some (ls_offset s)"
    using storage_MarkRecovered_ok [OF assms, of s] unfolding storage_invar_def by blast
  let ?s = "s\<lparr>ls_db := d, ls_recovered := True\<rparr>"
  have "int64 (ls_offset s)" using 8 unfolding storage_invar_def by blast
  then have "storage_invar opened content ?s"
    using storage_invar_offset_written [of opened ?s "ls_offset s" content "content (ls_db s)"]
      storage_invar_offset_kept [OF 8(1), of d "ls_offset s" ?s] d by (simp split: if_splits)
  moreover have "storage_contents content ?s = storage_contents content s \<and>
      storage_offset content ?s = storage_offset content s"
    using d(3) 8(2) by (cases "ls_offset s = 0") (auto simp: storage_contents_def storage_offset_def)
  ultimately show ?case using d(1) by (simp add: storage_ops_def)
qed

section \<open>The iterator yields the entries without the offset\<close>

text \<open>What goleveldb documents of its iterators: they run once through entries with distinct keys;
  when exhausted they return no key.\<close>

definition ldb_iter_contract ::
  "'i ldb_iterator \<Rightarrow> ('i \<Rightarrow> bool) \<Rightarrow> ('i \<Rightarrow> (bytes \<times> bytes) list) \<Rightarrow> bool" where
  "ldb_iter_contract li valid entries \<longleftrightarrow>
     (\<forall>i k v r i' b. valid i \<longrightarrow> entries i = (k, v) # r \<longrightarrow> li_Next li i = (i', b) \<longrightarrow>
        b \<and> valid i' \<and> entries i' = r \<and> li_Key li i' = Some k \<and> li_Value li i' = Some v) \<and>
     (\<forall>i i' b. valid i \<longrightarrow> entries i = [] \<longrightarrow> li_Next li i = (i', b) \<longrightarrow>
        \<not> b \<and> valid i' \<and> entries i' = [] \<and> li_Key li i' = None \<and> li_Error li i' = None) \<and>
     (\<forall>i. valid i \<longrightarrow> distinct (map fst (entries i)))"

lemma ldb_iter_next:
  assumes "ldb_iter_contract li valid entries" and "valid i" and "entries i = (k, v) # r"
  obtains i' where "li_Next li i = (i', True)" and "valid i'" and "entries i' = r"
    and "li_Key li i' = Some k" and "li_Value li i' = Some v"
proof -
  obtain i' b where n: "li_Next li i = (i', b)" by (cases "li_Next li i")
  with assms have "b \<and> valid i' \<and> entries i' = r \<and> li_Key li i' = Some k \<and> li_Value li i' = Some v"
    unfolding ldb_iter_contract_def by blast
  with n that show ?thesis by simp
qed

lemma ldb_iter_end:
  assumes "ldb_iter_contract li valid entries" and "valid i" and "entries i = []"
  obtains i' where "li_Next li i = (i', False)" and "valid i'" and "entries i' = []"
    and "li_Key li i' = None" and "li_Error li i' = None"
proof -
  obtain i' b where n: "li_Next li i = (i', b)" by (cases "li_Next li i")
  with assms have "\<not> b \<and> valid i' \<and> entries i' = [] \<and> li_Key li i' = None \<and> li_Error li i' = None"
    unfolding ldb_iter_contract_def by blast
  with n that show ?thesis by simp
qed

lemma ldb_iter_distinct:
  "ldb_iter_contract li valid entries \<Longrightarrow> valid i \<Longrightarrow> distinct (map fst (entries i))"
  unfolding ldb_iter_contract_def by blast

definition user_entries :: "(bytes \<times> bytes) list \<Rightarrow> (bytes \<times> bytes) list" where
  "user_entries es = filter (\<lambda>e. fst e \<noteq> offsetKey) es"

lemma user_entries_no_offset: "offsetKey \<notin> fst ` set es \<Longrightarrow> user_entries es = es"
  unfolding user_entries_def by (induction es) auto

text \<open>\<open>Next\<close> moves to the first entry that is not the offset: one entry, or two.\<close>

lemma iterator_Next_some:
  assumes "ldb_iter_contract li valid entries" and "valid (it_iter i)"
    and "user_entries (entries (it_iter i)) = (k, v) # r"
  obtains j where "iterator_Next li i = (i\<lparr>it_iter := j\<rparr>, True)" and "valid j"
    and "user_entries (entries j) = r" and "li_Key li j = Some k" and "li_Value li j = Some v"
proof -
  obtain k0 v0 es where es: "entries (it_iter i) = (k0, v0) # es"
    using assms(3) by (cases "entries (it_iter i)") (auto simp: user_entries_def)
  obtain j where j: "li_Next li (it_iter i) = (j, True)" "valid j" "entries j = es"
    "li_Key li j = Some k0" "li_Value li j = Some v0"
    using ldb_iter_next [OF assms(1,2) es] by blast
  show ?thesis
  proof (cases "k0 = offsetKey")
    case True
    have "offsetKey \<notin> fst ` set es"
      using ldb_iter_distinct [OF assms(1,2)] es True by simp
    then have es': "user_entries es = es" by (rule user_entries_no_offset)
    with assms(3) es True have "entries j = (k, v) # r" by (simp add: user_entries_def j)
    from ldb_iter_next [OF assms(1) j(2) this] obtain j' where j': "li_Next li j = (j', True)"
      "valid j'" "entries j' = r" "li_Key li j' = Some k" "li_Value li j' = Some v" by blast
    have "user_entries (entries j') = r"
      using \<open>entries j = (k, v) # r\<close> j(3) j'(3) \<open>offsetKey \<notin> fst ` set es\<close>
      by (intro user_entries_no_offset [THEN trans]) auto
    moreover have "iterator_Next li i = (i\<lparr>it_iter := j'\<rparr>, True)"
      by (simp add: iterator_Next_def j j' True)
    ultimately show ?thesis using j'(2,4,5) that by blast
  next
    case False
    with assms(3) es have "k0 = k" "v0 = v" "user_entries es = r" by (simp_all add: user_entries_def)
    moreover have "iterator_Next li i = (i\<lparr>it_iter := j\<rparr>, True)"
      by (simp add: iterator_Next_def j False)
    ultimately show ?thesis using j(2-5) that by blast
  qed
qed

lemma iterator_Next_none:
  assumes "ldb_iter_contract li valid entries" and "valid (it_iter i)"
    and "user_entries (entries (it_iter i)) = []"
  obtains j where "iterator_Next li i = (i\<lparr>it_iter := j\<rparr>, False)" and "valid j"
    and "entries j = []" and "li_Error li j = None"
proof (cases "entries (it_iter i)")
  case Nil
  obtain j where j: "li_Next li (it_iter i) = (j, False)" "valid j" "entries j = []"
    "li_Key li j = None" "li_Error li j = None"
    using ldb_iter_end [OF assms(1,2) Nil] by blast
  then have "iterator_Next li i = (i\<lparr>it_iter := j\<rparr>, False)" by (simp add: iterator_Next_def)
  with j that show ?thesis by blast
next
  case (Cons e es)
  obtain k v where e: "e = (k, v)" by (cases e)
  with Cons assms(3) have k: "k = offsetKey" by (auto simp: user_entries_def split: if_splits)
  have "offsetKey \<notin> fst ` set es"
    using ldb_iter_distinct [OF assms(1,2)] Cons e k by simp
  with assms(3) Cons e k have es: "es = []"
    using user_entries_no_offset [of es] by (simp add: user_entries_def)
  obtain j where j: "li_Next li (it_iter i) = (j, True)" "valid j" "entries j = []"
    "li_Key li j = Some k"
    using ldb_iter_next [OF assms(1,2)] Cons e es by blast
  obtain j' where j': "li_Next li j = (j', False)" "valid j'" "entries j' = []" "li_Error li j' = None"
    using ldb_iter_end [OF assms(1) j(2,3)] by blast
  with j k have "iterator_Next li i = (i\<lparr>it_iter := j'\<rparr>, False)" by (simp add: iterator_Next_def)
  with j' that show ?thesis by blast
qed

lemma iterator_ordered:
  assumes "ldb_iter_contract li valid entries"
  shows "ordered_iterator (iterator_ops li rel) (\<lambda>i. valid (it_iter i))
    (\<lambda>i. user_entries (entries (it_iter i)))"
proof (unfold_locales, goal_cases)
  case (1 i k v r i' b)
  obtain j where "iterator_Next li i = (i\<lparr>it_iter := j\<rparr>, True)" "valid j"
    "user_entries (entries j) = r" "li_Key li j = Some k" "li_Value li j = Some v"
    using iterator_Next_some [OF assms 1(1,2)] by blast
  with 1(3) show ?case by (auto simp: iterator_ops_def iterator_Value_def)
next
  case (2 i i' b)
  obtain j where "iterator_Next li i = (i\<lparr>it_iter := j\<rparr>, False)" "valid j" "entries j = []"
    "li_Error li j = None"
    using iterator_Next_none [OF assms 2(1,2)] by blast
  with 2(3) show ?case by (auto simp: iterator_ops_def user_entries_def)
qed

section \<open>Runs of a storage\<close>

datatype storage_call = SUpd upd | SOff int | SMark | SSync sync_case

primrec storage_do :: "'d leveldb \<Rightarrow> storage_call \<Rightarrow> 'd storage \<Rightarrow> 'd storage go" where
  "storage_do db (SUpd u) s = Ret (apply_upd (storage_ops db) u s)"
| "storage_do db (SOff n) s = Ret (fst (storage_SetOffset db s n))"
| "storage_do db SMark s = go_bind (storage_MarkRecovered db s) (\<lambda>r. Ret (fst r))"
| "storage_do db (SSync ch) s = Ret (storage_sync db ch s)"

primrec storage_run :: "'d leveldb \<Rightarrow> storage_call list \<Rightarrow> 'd storage \<Rightarrow> 'd storage go" where
  "storage_run db [] s = Ret s"
| "storage_run db (c # cs) s = go_bind (storage_do db c s) (storage_run db cs)"

text \<open>What a caller may do: it does not use the reserved key, it marks the storage recovered at
  most once, and before that it does not set the offset to 0.\<close>

fun legal_calls :: "bool \<Rightarrow> storage_call list \<Rightarrow> bool" where
  "legal_calls recovered [] \<longleftrightarrow> True"
| "legal_calls recovered (SUpd u # cs) \<longleftrightarrow> upd_key u \<noteq> offsetKey \<and> legal_calls recovered cs"
| "legal_calls recovered (SOff n # cs) \<longleftrightarrow>
     int64 n \<and> (recovered \<or> n \<noteq> 0) \<and> legal_calls recovered cs"
| "legal_calls recovered (SMark # cs) \<longleftrightarrow> \<not> recovered \<and> legal_calls True cs"
| "legal_calls recovered (SSync ch # cs) \<longleftrightarrow> legal_calls recovered cs"

fun spec_contents :: "storage_call list \<Rightarrow> (string \<rightharpoonup> bytes) \<Rightarrow> (string \<rightharpoonup> bytes)" where
  "spec_contents [] m = m"
| "spec_contents (SUpd u # cs) m = spec_contents cs (upd_map u m)"
| "spec_contents (_ # cs) m = spec_contents cs m"

fun spec_offset :: "storage_call list \<Rightarrow> int option \<Rightarrow> int option" where
  "spec_offset [] off = off"
| "spec_offset (SOff n # cs) off = spec_offset cs (Some n)"
| "spec_offset (_ # cs) off = spec_offset cs off"

text \<open>The invariant of a run: the storage is open, and once it is recovered an offset other than 0
  that it holds is also in the database.\<close>

definition run_invar :: "('d \<Rightarrow> bool) \<Rightarrow> ('d \<Rightarrow> bytes \<rightharpoonup> bytes) \<Rightarrow> 'd storage \<Rightarrow> bool" where
  "run_invar opened content s \<longleftrightarrow> storage_invar opened content s \<and> \<not> ls_close s \<and>
     (ls_recovered s \<and> ls_offset s \<noteq> 0 \<longrightarrow> stored_offset (content (ls_db s)) = Some (ls_offset s))"

lemma run_invar_D:
  assumes "run_invar opened content s"
  shows "storage_invar opened content s" and "\<not> ls_close s" and "opened (ls_db s)"
    and "int64 (ls_offset s)"
    and "ls_recovered s \<Longrightarrow> ls_offset s \<noteq> 0 \<Longrightarrow>
         stored_offset (content (ls_db s)) = Some (ls_offset s)"
  using assms unfolding run_invar_def storage_invar_def by blast+

lemma storage_offset_recovered:
  "run_invar opened content s \<Longrightarrow> ls_offset s \<noteq> 0 \<Longrightarrow> storage_offset content s = Some (ls_offset s)"
  using run_invar_D(5) unfolding storage_offset_def by metis

lemma apply_upd_fields:
  assumes "leveldb_contract db opened content" and "opened (ls_db s)" and "upd_key u \<noteq> offsetKey"
  obtains d where "apply_upd (storage_ops db) u s = s\<lparr>ls_db := d\<rparr>"
    and "stored_offset (content d) = stored_offset (content (ls_db s))"
proof (cases u)
  case (Put k v)
  obtain d where "storage_Set db s k (Some v) = (s\<lparr>ls_db := d\<rparr>, None)"
    "content d = (content (ls_db s))(k \<mapsto> v)"
    using storage_Set_ok [OF assms(1,2)] by blast
  with Put assms(3) that [of d] show ?thesis
    by (simp add: apply_upd_def storage_ops_def upd_key_def stored_offset_def)
next
  case (Del k)
  obtain d where "storage_Delete db s k = (s\<lparr>ls_db := d\<rparr>, None)"
    "content d = (content (ls_db s))(k := None)"
    using storage_Delete_ok [OF assms(1,2)] by blast
  with Del assms(3) that [of d] show ?thesis
    by (simp add: apply_upd_def storage_ops_def upd_key_def stored_offset_def)
qed

lemma run_upd:
  assumes "leveldb_contract db opened content" and "run_invar opened content s"
    and "upd_key u \<noteq> offsetKey"
  defines "s' \<equiv> apply_upd (storage_ops db) u s"
  shows "run_invar opened content s' \<and> ls_recovered s' = ls_recovered s \<and>
    storage_contents content s' = upd_map u (storage_contents content s) \<and>
    storage_offset content s' = storage_offset content s"
proof -
  note inv = run_invar_D [OF assms(2)]
  obtain d where d: "s' = s\<lparr>ls_db := d\<rparr>" "stored_offset (content d) = stored_offset (content (ls_db s))"
    using apply_upd_fields [OF assms(1) inv(3) assms(3)] unfolding s'_def by blast
  have "storage_invar opened content s' \<and>
      storage_contents content s' = upd_map u (storage_contents content s) \<and>
      storage_offset content s' = storage_offset content s"
    using kv_storage.apply_upd_refines [OF storage_kv_storage [OF assms(1)] inv(1)] assms(3)
    unfolding s'_def by simp
  with d inv(2,5) show ?thesis unfolding run_invar_def by simp
qed

lemma run_offset:
  assumes "leveldb_contract db opened content" and "run_invar opened content s" and "int64 n"
    and "ls_recovered s \<or> n \<noteq> 0"
  defines "s' \<equiv> fst (storage_SetOffset db s n)"
  shows "run_invar opened content s' \<and> ls_recovered s' = ls_recovered s \<and>
    storage_contents content s' = storage_contents content s \<and> storage_offset content s' = Some n"
proof -
  note inv = run_invar_D [OF assms(2)]
  obtain d where d: "storage_SetOffset db s n = (s\<lparr>ls_offset := n, ls_db := d\<rparr>, None)"
    and st: "ls_recovered s \<Longrightarrow> stored_offset (content d) = Some n"
    using storage_SetOffset_ok [OF assms(1) inv(3) assms(3)] by metis
  have "storage_invar opened content s' \<and> storage_contents content s' = storage_contents content s \<and>
      storage_offset content s' = Some n"
    using kv_storage.set_offset [OF storage_kv_storage [OF assms(1)] inv(1) assms(3), of s' None] assms(4) d
    unfolding s'_def storage_ops_def by simp
  moreover have "run_invar opened content s'"
    using calculation inv(2) d st unfolding run_invar_def s'_def by simp
  ultimately show ?thesis using d unfolding s'_def by simp
qed

lemma run_mark:
  assumes "leveldb_contract db opened content" and "run_invar opened content s" and "\<not> ls_recovered s"
  obtains s' where "storage_MarkRecovered db s = Ret (s', None)" and "run_invar opened content s'"
    and "ls_recovered s'" and "storage_contents content s' = storage_contents content s"
    and "storage_offset content s' = storage_offset content s"
proof -
  note inv = run_invar_D [OF assms(2)]
  obtain d where d: "storage_MarkRecovered db s = Ret (s\<lparr>ls_db := d, ls_recovered := True\<rparr>, None)"
    and st: "ls_offset s \<noteq> 0 \<Longrightarrow> stored_offset (content d) = Some (ls_offset s)"
    using storage_MarkRecovered_ok [OF assms(1) inv(3,4) assms(3)] by metis
  let ?s = "s\<lparr>ls_db := d, ls_recovered := True\<rparr>"
  have k: "storage_invar opened content ?s \<and> storage_contents content ?s = storage_contents content s \<and>
      storage_offset content ?s = storage_offset content s"
    using kv_storage.mark_recovered [OF storage_kv_storage [OF assms(1)] inv(1) assms(3)] d
    unfolding storage_ops_def by auto
  then have "run_invar opened content ?s" using inv(2) st unfolding run_invar_def by simp
  with d k that show ?thesis by simp
qed

text \<open>Writing the offset the storage holds (the ticker, \<open>Close\<close>) changes neither the contents nor
  the offset.\<close>

lemma run_putOffset:
  assumes "leveldb_contract db opened content" and "run_invar opened content s" and "ls_offset s \<noteq> 0"
  obtains d where "storage_putOffset db s (ls_offset s) = (s\<lparr>ls_db := d\<rparr>, None)" and "opened d"
    and "stored_offset (content d) = Some (ls_offset s)"
    and "(content d)(offsetKey := None) = storage_contents content s"
    and "storage_invar opened content (s\<lparr>ls_db := d\<rparr>)"
proof -
  note inv = run_invar_D [OF assms(2)]
  obtain d where d: "storage_putOffset db s (ls_offset s) = (s\<lparr>ls_db := d\<rparr>, None)" "opened d"
    "content d = (content (ls_db s))(offsetKey \<mapsto> FormatInt (ls_offset s))"
    "stored_offset (content d) = Some (ls_offset s)"
    using storage_putOffset_ok [OF assms(1) inv(3,4)] by blast
  have "storage_invar opened content (s\<lparr>ls_db := d\<rparr>)"
    using storage_invar_offset_written [of opened "s\<lparr>ls_db := d\<rparr>" "ls_offset s" content] d inv(4) by simp
  with d that show ?thesis by (simp add: storage_contents_def)
qed

lemma run_sync:
  fixes ch :: sync_case
  assumes "leveldb_contract db opened content" and "run_invar opened content s"
  defines "s' \<equiv> storage_sync db ch s"
  shows "run_invar opened content s' \<and> ls_recovered s' = ls_recovered s \<and>
    storage_contents content s' = storage_contents content s \<and>
    storage_offset content s' = storage_offset content s"
proof -
  note inv = run_invar_D [OF assms(2)]
  have "s' = s \<or> s' = s\<lparr>ls_sync := False\<rparr> \<or>
      (ls_offset s \<noteq> 0 \<and> s' = fst (storage_putOffset db s (ls_offset s)))"
    unfolding s'_def storage_sync_def by (cases ch) simp_all
  then consider "s' = s" | "s' = s\<lparr>ls_sync := False\<rparr>"
    | "ls_offset s \<noteq> 0" "s' = fst (storage_putOffset db s (ls_offset s))" by blast
  then show ?thesis
  proof cases
    case 1
    then show ?thesis using assms(2) by simp
  next
    case 2
    then show ?thesis using assms(2)
      by (simp add: run_invar_def storage_invar_def storage_contents_def storage_offset_def)
  next
    case 3
    obtain d where d: "s' = s\<lparr>ls_db := d\<rparr>" "stored_offset (content d) = Some (ls_offset s)"
      "(content d)(offsetKey := None) = storage_contents content s"
      "storage_invar opened content s'"
      using run_putOffset [OF assms(1,2) 3(1)] 3(2) by (metis fst_conv)
    then have "run_invar opened content s'" using inv(2) by (simp add: run_invar_def)
    with d 3(1) storage_offset_recovered [OF assms(2)] storage_offset_recovered [of opened content s']
    show ?thesis by (simp add: storage_contents_def)
  qed
qed

lemma run_calls:
  assumes "leveldb_contract db opened content" and "run_invar opened content s"
    and "legal_calls (ls_recovered s) cs"
  shows "\<exists>s'. storage_run db cs s = Ret s' \<and> run_invar opened content s' \<and>
    storage_contents content s' = spec_contents cs (storage_contents content s) \<and>
    storage_offset content s' = spec_offset cs (storage_offset content s)"
  using assms(2,3)
proof (induction cs arbitrary: s)
  case (Cons c cs)
  obtain s1 where step: "storage_do db c s = Ret s1" and "run_invar opened content s1"
    and "legal_calls (ls_recovered s1) cs"
    and "storage_contents content s1 = spec_contents [c] (storage_contents content s)"
    and "storage_offset content s1 = spec_offset [c] (storage_offset content s)"
  proof (cases c)
    case (SUpd u)
    with Cons.prems run_upd [OF assms(1) Cons.prems(1), of u] that show ?thesis by simp
  next
    case (SOff n)
    with Cons.prems run_offset [OF assms(1) Cons.prems(1), of n] that show ?thesis by simp
  next
    case SMark
    with Cons.prems(2) have "\<not> ls_recovered s" by simp
    from run_mark [OF assms(1) Cons.prems(1) this] obtain s' where
      "storage_MarkRecovered db s = Ret (s', None)" "run_invar opened content s'" "ls_recovered s'"
      "storage_contents content s' = storage_contents content s"
      "storage_offset content s' = storage_offset content s" by blast
    with SMark Cons.prems(2) that [of s'] show ?thesis by simp
  next
    case (SSync ch)
    with Cons.prems run_sync [OF assms(1) Cons.prems(1), of ch] that show ?thesis by simp
  qed
  with Cons.IH [of s1] show ?case by (cases c) simp_all
qed simp

lemma run_close:
  assumes "leveldb_contract db opened content" and "run_invar opened content s"
  shows "\<exists>s'. storage_Close db s = Ret (s', None) \<and>
    (content (ls_db s'))(offsetKey := None) = storage_contents content s \<and>
    stored_offset (content (ls_db s')) = storage_offset content s \<and>
    (\<forall>data. content (ls_db s') offsetKey = Some data \<longrightarrow> (\<exists>n. ParseInt data = Inr n))"
proof (cases "ls_offset s = 0")
  case True
  note inv = run_invar_D [OF assms(2)]
  obtain d where "ldb_Close db (ls_db s) = (d, None)" "content d = content (ls_db s)"
    using ldb_close [OF assms(1) inv(3)] by blast
  with True inv(2) have "\<exists>s'. storage_Close db s = Ret (s', None) \<and> content (ls_db s') = content (ls_db s)"
    by (simp add: storage_Close_def)
  moreover have "storage_offset content s = stored_offset (content (ls_db s))"
    by (simp add: storage_offset_def True)
  moreover have "\<forall>data. content (ls_db s) offsetKey = Some data \<longrightarrow> (\<exists>n. ParseInt data = Inr n)"
    using inv(1) unfolding storage_invar_def by blast
  ultimately show ?thesis unfolding storage_contents_def by metis
next
  case False
  note inv = run_invar_D [OF assms(2)]
  let ?s = "s\<lparr>ls_close := True\<rparr>"
  have op: "opened (ls_db ?s)" using inv(3) by simp
  obtain d where d: "storage_putOffset db ?s (ls_offset s) = (?s\<lparr>ls_db := d\<rparr>, None)" "opened d"
    "content d = (content (ls_db s))(offsetKey \<mapsto> FormatInt (ls_offset s))"
    "stored_offset (content d) = Some (ls_offset s)"
    using storage_putOffset_ok [OF assms(1) op inv(4)] by auto
  obtain d' where d': "ldb_Close db d = (d', None)" "content d' = content d"
    using ldb_close [OF assms(1) d(2)] by blast
  have "storage_Close db s = Ret (?s\<lparr>ls_db := d', ls_closed := True\<rparr>, None)"
    using inv(2) False d d' by (simp add: storage_Close_def)
  moreover have "(content d')(offsetKey := None) = storage_contents content s"
    by (simp only: d' d(3) storage_contents_def fun_upd_upd)
  moreover have "stored_offset (content d') = storage_offset content s"
    by (simp only: d' d(4) storage_offset_recovered [OF assms(2) False])
  moreover have "content d' offsetKey = Some (FormatInt (ls_offset s))" by (simp add: d' d(3))
  moreover note ParseInt_FormatInt [OF inv(4)]
  ultimately show ?thesis by auto
qed


text \<open>A database that is a map, open or closed.\<close>

definition map_leveldb :: "(bool \<times> (bytes \<rightharpoonup> bytes)) leveldb" where
  "map_leveldb =
     \<lparr>ldb_Has = (\<lambda>(op, m) k. if op then Inr (m k \<noteq> None) else Inl (Err ''leveldb: closed'')),
      ldb_Get = (\<lambda>(op, m) k. if op then (case m k of None \<Rightarrow> Inl LdbNotFound | Some v \<Rightarrow> Inr v)
                             else Inl (LdbOther (Err ''leveldb: closed''))),
      ldb_Put = (\<lambda>(op, m) k v. if op then ((op, m(k \<mapsto> slice_bytes v)), None)
                               else ((op, m), Some (Err ''leveldb: closed''))),
      ldb_Delete = (\<lambda>(op, m) k. if op then ((op, m(k := None)), None)
                                else ((op, m), Some (Err ''leveldb: closed''))),
      ldb_Close = (\<lambda>(op, m). if op then ((False, m), None)
                             else ((op, m), Some (Err ''leveldb: closed'')))\<rparr>"

lemma map_leveldb_contract: "leveldb_contract map_leveldb fst snd"
  unfolding leveldb_contract_def map_leveldb_def by (auto split: option.splits)


end
