(* ===== verification/Goka_Merge_Iterator.thy ===== *)
theory Goka_Merge_Iterator
  imports Goka_LevelDB
begin

text \<open>
  The iterator that merges the iterators of several storages (\<open>storage/merge_iterator.go\<close>), with
  the binary heap of Go's \<open>container/heap\<close> it uses.

  The heap of the source holds pointers to the sub-iterators it also keeps in \<open>iters\<close>; the model's
  heap holds their positions in \<open>mg_iters\<close>, so that advancing an iterator is seen through both.
  The sub-iterators are distinct objects.
\<close>

section \<open>The binary heap\<close>

text \<open>\<open>key\<close> gives what \<open>Less\<close> compares.\<close>

definition heap_swap :: "'a list \<Rightarrow> nat \<Rightarrow> nat \<Rightarrow> 'a list" where
  "heap_swap h i j = h[i := h ! j, j := h ! i]"

function heap_up :: "('a \<Rightarrow> 'k::linorder) \<Rightarrow> 'a list \<Rightarrow> nat \<Rightarrow> 'a list" where
  "heap_up key h j =
     (let i = (j - 1) div 2
      in if i = j \<or> \<not> key (h ! j) < key (h ! i) then h
         else heap_up key (heap_swap h i j) i)"
  by pat_completeness auto
termination
  by (relation "measure (\<lambda>(key, h, j). j)") auto

function heap_down :: "('a \<Rightarrow> 'k::linorder) \<Rightarrow> 'a list \<Rightarrow> nat \<Rightarrow> nat \<Rightarrow> 'a list" where
  "heap_down key h i n =
     (let j1 = 2 * i + 1
      in if n \<le> j1 then h
         else let j = (if j1 + 1 < n \<and> key (h ! (j1 + 1)) < key (h ! j1) then j1 + 1 else j1)
              in if \<not> key (h ! j) < key (h ! i) then h
                 else heap_down key (heap_swap h i j) j n)"
  by pat_completeness auto
termination
  by (relation "measure (\<lambda>(key, h, i, n). n - i)") (auto split: if_splits)

declare heap_up.simps [simp del] heap_down.simps [simp del]

definition heap_Push :: "('a \<Rightarrow> 'k::linorder) \<Rightarrow> 'a \<Rightarrow> 'a list \<Rightarrow> 'a list" where
  "heap_Push key x h = heap_up key (h @ [x]) (length h)"

definition heap_Pop :: "('a \<Rightarrow> 'k::linorder) \<Rightarrow> 'a list \<Rightarrow> 'a list \<times> 'a" where
  "heap_Pop key h =
     (let n = length h - 1; h = heap_down key (heap_swap h 0 n) 0 n in (take n h, h ! n))"

section \<open>The merge iterator\<close>

record 'i mergeIterator =
  mg_key :: slice
  mg_value :: slice
  mg_err :: "gerr option"
  mg_heap :: "nat list"
  mg_iters :: "'i list"

definition iter_key :: "'i iter_ops \<Rightarrow> 'i list \<Rightarrow> nat \<Rightarrow> bytes" where
  "iter_key ops iters i = slice_bytes (it_Key ops (iters ! i))"

text \<open>\<open>append(s[:0], b...)\<close>\<close>

definition reuse_slice :: "slice \<Rightarrow> bytes \<Rightarrow> slice" where
  "reuse_slice s b = (if s = None \<and> b = [] then None else Some b)"

fun merge_build_loop ::
  "'i iter_ops \<Rightarrow> ('i \<Rightarrow> 'i \<times> bool) \<Rightarrow> nat list \<Rightarrow> 'i mergeIterator \<Rightarrow> 'i mergeIterator" where
  "merge_build_loop ops hasValue [] m = m"
| "merge_build_loop ops hasValue (j # js) m =
     (case hasValue (mg_iters m ! j) of (i, b) \<Rightarrow>
        let m = m\<lparr>mg_iters := (mg_iters m)[j := i]\<rparr>
        in if \<not> b then
             let m = m\<lparr>mg_err := it_Err ops i\<rparr>
             in if mg_err m \<noteq> None then m else merge_build_loop ops hasValue js m
           else merge_build_loop ops hasValue js
                  (m\<lparr>mg_heap := heap_Push (iter_key ops (mg_iters m)) j (mg_heap m)\<rparr>))"

definition merge_buildHeap ::
  "'i iter_ops \<Rightarrow> ('i \<Rightarrow> 'i \<times> bool) \<Rightarrow> 'i mergeIterator \<Rightarrow> 'i mergeIterator" where
  "merge_buildHeap ops hasValue m =
     merge_build_loop ops hasValue [0..<length (mg_iters m)] (m\<lparr>mg_heap := []\<rparr>)"

definition NewMultiIterator :: "'i iter_ops \<Rightarrow> 'i list \<Rightarrow> 'i mergeIterator" where
  "NewMultiIterator ops iters =
     merge_buildHeap ops (it_Next ops)
       \<lparr>mg_key = None, mg_value = None, mg_err = None, mg_heap = [], mg_iters = iters\<rparr>"

definition merge_Key :: "'i mergeIterator \<Rightarrow> slice" where
  "merge_Key m = mg_key m"

definition merge_Value :: "'i mergeIterator \<Rightarrow> slice result" where
  "merge_Value m = Inr (mg_value m)"

definition merge_Seek :: "'i iter_ops \<Rightarrow> 'i mergeIterator \<Rightarrow> bytes \<Rightarrow> 'i mergeIterator \<times> bool" where
  "merge_Seek ops m key =
     (if mg_err m \<noteq> None then (m, False)
      else let m = merge_buildHeap ops (\<lambda>i. it_Seek ops i key) m
           in (m, mg_err m = None \<and> 0 < length (mg_heap m)))"

definition merge_Next :: "'i iter_ops \<Rightarrow> 'i mergeIterator \<Rightarrow> 'i mergeIterator \<times> bool" where
  "merge_Next ops m =
     (if mg_err m \<noteq> None \<or> length (mg_heap m) = 0 then (m, False)
      else case heap_Pop (iter_key ops (mg_iters m)) (mg_heap m) of (h, j) \<Rightarrow>
        let iter = mg_iters m ! j;
            m = m\<lparr>mg_heap := h, mg_key := reuse_slice (mg_key m) (slice_bytes (it_Key ops iter))\<rparr>
        in case it_Value ops iter of
             Inl err \<Rightarrow> (m\<lparr>mg_err := Some err\<rparr>, False)
           | Inr val \<Rightarrow>
               let m = m\<lparr>mg_value := reuse_slice (mg_value m) (slice_bytes val)\<rparr>
               in case it_Next ops iter of (iter, b) \<Rightarrow>
                    let m = m\<lparr>mg_iters := (mg_iters m)[j := iter]\<rparr>
                    in if b then
                         (m\<lparr>mg_heap := heap_Push (iter_key ops (mg_iters m)) j (mg_heap m)\<rparr>, True)
                       else let m = m\<lparr>mg_err := it_Err ops iter\<rparr> in (m, mg_err m = None))"

definition merge_Err :: "'i mergeIterator \<Rightarrow> gerr option" where
  "merge_Err m = mg_err m"

text \<open>\<open>Release\<close> also leaves the sub-iterators released; they are the first component.\<close>

definition merge_Release :: "'i iter_ops \<Rightarrow> 'i mergeIterator \<Rightarrow> 'i list \<times> 'i mergeIterator" where
  "merge_Release ops m =
     (map (it_Release ops) (mg_iters m),
      m\<lparr>mg_iters := [], mg_heap := [], mg_key := None, mg_value := None, mg_err := None\<rparr>)"

definition merge_ops :: "'i iter_ops \<Rightarrow> 'i mergeIterator iter_ops" where
  "merge_ops ops = \<lparr>it_Next = merge_Next ops, it_Err = merge_Err, it_Key = merge_Key,
     it_Value = merge_Value, it_Release = (\<lambda>m. snd (merge_Release ops m)), it_Seek = merge_Seek ops\<rparr>"

section \<open>Correctness of the heap\<close>

definition parent :: "nat \<Rightarrow> nat" where
  "parent c = (c - 1) div 2"

definition is_heap :: "('a \<Rightarrow> 'k::linorder) \<Rightarrow> 'a list \<Rightarrow> nat \<Rightarrow> bool" where
  "is_heap key h n \<longleftrightarrow> (\<forall>c. 0 < c \<and> c < n \<longrightarrow> key (h ! parent c) \<le> key (h ! c))"

text \<open>The heap with one entry that may be too small for its parent, or too large for its children.\<close>

definition up_inv :: "('a \<Rightarrow> 'k::linorder) \<Rightarrow> 'a list \<Rightarrow> nat \<Rightarrow> bool" where
  "up_inv key h j \<longleftrightarrow> (\<forall>c. 0 < c \<and> c < length h \<and> c \<noteq> j \<longrightarrow>
     key (h ! parent c) \<le> key (h ! c) \<and> (parent c = j \<and> 0 < j \<longrightarrow> key (h ! parent j) \<le> key (h ! c)))"

definition down_inv :: "('a \<Rightarrow> 'k::linorder) \<Rightarrow> 'a list \<Rightarrow> nat \<Rightarrow> nat \<Rightarrow> bool" where
  "down_inv key h i n \<longleftrightarrow> (\<forall>c. 0 < c \<and> c < n \<longrightarrow>
     (parent c \<noteq> i \<longrightarrow> key (h ! parent c) \<le> key (h ! c)) \<and>
     (parent c = i \<and> 0 < i \<longrightarrow> key (h ! parent i) \<le> key (h ! c)))"

lemma parent_less: "0 < c \<Longrightarrow> parent c < c"
  by (simp add: parent_def div_less_iff_less_mult)

lemma parent_eq: "parent c = i \<and> 0 < c \<longleftrightarrow> c = 2 * i + 1 \<or> c = 2 * i + 2"
  by (auto simp: parent_def)

lemma length_heap_swap [simp]: "length (heap_swap h i j) = length h"
  by (simp add: heap_swap_def)

lemma mset_heap_swap: "i < length h \<Longrightarrow> j < length h \<Longrightarrow> mset (heap_swap h i j) = mset h"
  using mset_swap [of j h i] by (simp add: heap_swap_def)

lemma nth_heap_swap:
  "i < length h \<Longrightarrow> j < length h \<Longrightarrow>
   heap_swap h i j ! c = (if c = i then h ! j else if c = j then h ! i else h ! c)"
  by (auto simp: heap_swap_def nth_list_update)

lemma up_inv_swap:
  assumes inv: "up_inv key h j" and j: "0 < j" "j < length h"
    and less: "key (h ! j) < key (h ! parent j)"
  shows "up_inv key (heap_swap h (parent j) j) (parent j)"
proof -
  let ?i = "parent j" and ?h = "heap_swap h (parent j) j"
  have i: "?i < j" using j parent_less by blast
  then have nth: "?h ! c = (if c = ?i then h ! j else if c = j then h ! ?i else h ! c)" for c
    using j by (simp add: nth_heap_swap)
  have old: "key (h ! parent c) \<le> key (h ! c)" if "0 < c" "c < length h" "c \<noteq> j" for c
    using inv that unfolding up_inv_def by blast
  have grand: "key (h ! ?i) \<le> key (h ! c)" if "0 < c" "c < length h" "parent c = j" for c
    using inv that j parent_less [of c] unfolding up_inv_def by auto
  have "key (?h ! parent c) \<le> key (?h ! c) \<and>
      (parent c = ?i \<and> 0 < ?i \<longrightarrow> key (?h ! parent ?i) \<le> key (?h ! c))"
    if c: "0 < c" "c < length h" "c \<noteq> ?i" for c
  proof
    show "key (?h ! parent c) \<le> key (?h ! c)"
      using old [of c] grand [of c] less c parent_less [of c] i by (auto simp: nth)
    show "parent c = ?i \<and> 0 < ?i \<longrightarrow> key (?h ! parent ?i) \<le> key (?h ! c)"
      using old [of c] old [of ?i] c j i parent_less [of ?i] by (auto simp: nth)
  qed
  then show ?thesis unfolding up_inv_def by simp
qed

lemma heap_up_correct:
  assumes "up_inv key h j" and "j < length h"
  shows "is_heap key (heap_up key h j) (length h) \<and> mset (heap_up key h j) = mset h"
  using assms
proof (induction key h j rule: heap_up.induct)
  case (1 key h j)
  show ?case
  proof (cases "parent j = j \<or> \<not> key (h ! j) < key (h ! parent j)")
    case True
    then have "heap_up key h j = h" unfolding parent_def by (simp add: heap_up.simps Let_def)
    moreover have "is_heap key h (length h)"
      using 1(2,3) True unfolding up_inv_def is_heap_def by (metis linorder_not_less parent_less less_irrefl)
    ultimately show ?thesis by simp
  next
    case False
    then have j: "0 < j" by (cases j) (simp_all add: parent_def)
    from False have step: "heap_up key h j = heap_up key (heap_swap h (parent j) j) (parent j)"
      unfolding parent_def by (simp add: heap_up.simps [of key h j] Let_def)
    have "up_inv key (heap_swap h (parent j) j) (parent j)"
      using up_inv_swap [OF 1(2) j 1(3)] False by simp
    with 1(1) [OF refl] False j 1(3) parent_less [OF j] step mset_heap_swap [of "parent j" h j]
    show ?thesis unfolding parent_def by simp
  qed
qed

lemma down_inv_swap:
  assumes inv: "down_inv key h i n" and n: "n \<le> length h" and j: "0 < j" "j < n" "parent j = i"
    and less: "key (h ! j) < key (h ! i)"
    and least: "\<And>c. 0 < c \<Longrightarrow> c < n \<Longrightarrow> parent c = i \<Longrightarrow> key (h ! j) \<le> key (h ! c)"
  shows "down_inv key (heap_swap h i j) j n"
proof -
  let ?h = "heap_swap h i j"
  have i: "i < j" using j parent_less by blast
  then have nth: "?h ! c = (if c = i then h ! j else if c = j then h ! i else h ! c)" for c
    using j n by (simp add: nth_heap_swap)
  have old: "key (h ! parent c) \<le> key (h ! c)" if "0 < c" "c < n" "parent c \<noteq> i" for c
    using inv that unfolding down_inv_def by blast
  have grand: "0 < i \<Longrightarrow> key (h ! parent i) \<le> key (h ! j)"
    using inv j unfolding down_inv_def by blast
  have "(parent c \<noteq> j \<longrightarrow> key (?h ! parent c) \<le> key (?h ! c)) \<and>
      (parent c = j \<and> 0 < j \<longrightarrow> key (?h ! parent j) \<le> key (?h ! c))"
    if c: "0 < c" "c < n" for c
  proof
    show "parent c \<noteq> j \<longrightarrow> key (?h ! parent c) \<le> key (?h ! c)"
      using old [of c] least [of c] grand less c parent_less [of c] i j by (auto simp: nth)
    show "parent c = j \<and> 0 < j \<longrightarrow> key (?h ! parent j) \<le> key (?h ! c)"
      using old [of c] c j i parent_less [of c] by (auto simp: nth)
  qed
  then show ?thesis unfolding down_inv_def by simp
qed

definition least_child :: "('a \<Rightarrow> 'k::linorder) \<Rightarrow> 'a list \<Rightarrow> nat \<Rightarrow> nat \<Rightarrow> nat" where
  "least_child key h i n =
     (if 2 * i + 2 < n \<and> key (h ! (2 * i + 2)) < key (h ! (2 * i + 1)) then 2 * i + 2 else 2 * i + 1)"

lemma least_child:
  assumes "2 * i + 1 < n"
  shows "0 < least_child key h i n" and "least_child key h i n < n"
    and "parent (least_child key h i n) = i"
    and "0 < c \<Longrightarrow> c < n \<Longrightarrow> parent c = i \<Longrightarrow> key (h ! least_child key h i n) \<le> key (h ! c)"
  using assms parent_eq [of c i] parent_eq [of "least_child key h i n" i]
  by (auto simp: least_child_def)

lemma heap_down_step:
  "heap_down key h i n =
     (if n \<le> 2 * i + 1 \<or> \<not> key (h ! least_child key h i n) < key (h ! i) then h
      else heap_down key (heap_swap h i (least_child key h i n)) (least_child key h i n) n)"
  by (subst heap_down.simps) (simp add: Let_def least_child_def)

lemma heap_down_correct:
  assumes "down_inv key h i n" and "n \<le> length h"
  shows "is_heap key (heap_down key h i n) n \<and> mset (heap_down key h i n) = mset h \<and>
         drop n (heap_down key h i n) = drop n h \<and> length (heap_down key h i n) = length h"
  using assms
proof (induction "n - i" arbitrary: h i rule: less_induct)
  case less
  let ?j = "least_child key h i n"
  show ?case
  proof (cases "n \<le> 2 * i + 1 \<or> \<not> key (h ! ?j) < key (h ! i)")
    case True
    have "key (h ! i) \<le> key (h ! c)" if "0 < c" "c < n" "parent c = i" for c
      using True that least_child(4) [of i n c key h] parent_eq [of c i] by fastforce
    then have "is_heap key h n"
      using less.prems(1) unfolding down_inv_def is_heap_def by metis
    with True show ?thesis by (subst (1 2 3 4) heap_down_step) simp
  next
    case False
    then have i: "2 * i + 1 < n" by simp
    note lc = least_child [OF i, where key = key and h = h]
    have ij: "i < ?j" using lc parent_less by metis
    have "down_inv key (heap_swap h i ?j) ?j n"
      using down_inv_swap [OF less.prems lc(1,2,3)] False lc(4) by blast
    moreover have "drop n (heap_swap h i ?j) = drop n h"
      using lc(2) ij by (simp add: heap_swap_def)
    moreover have "mset (heap_swap h i ?j) = mset h"
      using lc(2) ij less.prems(2) by (simp add: mset_heap_swap)
    ultimately show ?thesis
      using False less.hyps [of ?j "heap_swap h i ?j"] less.prems(2) lc(2) ij
      by (subst (1 2 3 4) heap_down_step) simp
  qed
qed

lemma heap_root_least:
  assumes "is_heap key h n" and "c < n"
  shows "key (h ! 0) \<le> key (h ! c)"
  using assms(2)
proof (induction c rule: less_induct)
  case (less c)
  show ?case
  proof (cases "c = 0")
    case False
    with less assms(1) parent_less [of c] have "key (h ! 0) \<le> key (h ! parent c)"
      "key (h ! parent c) \<le> key (h ! c)" unfolding is_heap_def by auto
    then show ?thesis by (rule order_trans)
  qed simp
qed

lemma is_heap_cong:
  assumes "is_heap key h n" and "n \<le> length h" and "\<And>x. x \<in> set h \<Longrightarrow> key' x = key x"
  shows "is_heap key' h n"
  unfolding is_heap_def
proof (intro allI impI, elim conjE)
  fix c assume "0 < c" "c < n"
  moreover from this have "parent c < n" using parent_less [of c] by simp
  ultimately show "key' (h ! parent c) \<le> key' (h ! c)"
    using assms unfolding is_heap_def by simp
qed

lemma is_heap_take: "is_heap key h n \<Longrightarrow> is_heap key (take n h) n"
  using parent_less less_trans unfolding is_heap_def by (metis nth_take)

lemma heap_Push_correct:
  assumes "is_heap key h (length h)"
  shows "is_heap key (heap_Push key x h) (Suc (length h)) \<and>
         mset (heap_Push key x h) = add_mset x (mset h)"
proof -
  have "parent c < length h \<and> key (h ! parent c) \<le> key (h ! c)" if "0 < c" "c < length h" for c
    using assms that parent_less [OF that(1)] unfolding is_heap_def by simp
  then have "up_inv key (h @ [x]) (length h)"
    unfolding up_inv_def by (simp add: nth_append less_Suc_eq) (metis less_irrefl)
  from heap_up_correct [OF this] show ?thesis by (simp add: heap_Push_def)
qed

lemma heap_Pop_correct:
  assumes "is_heap key h (length h)" and "h \<noteq> []" and "heap_Pop key h = (h', x)"
  shows "is_heap key h' (length h') \<and> mset h = add_mset x (mset h') \<and>
         (\<forall>y \<in> set h. key x \<le> key y)"
proof -
  let ?n = "length h - 1"
  let ?s = "heap_swap h 0 ?n"
  let ?d = "heap_down key ?s 0 ?n"
  have n: "?n < length h" using assms(2) by simp
  then have nth: "?s ! c = (if c = 0 then h ! ?n else if c = ?n then h ! 0 else h ! c)" for c
    by (intro nth_heap_swap) (auto simp: assms(2))
  have "key (?s ! parent c) \<le> key (?s ! c)" if "0 < c" "c < ?n" "parent c \<noteq> 0" for c
    using assms(1) that parent_less [OF that(1)] unfolding is_heap_def nth by simp
  then have "down_inv key ?s 0 ?n" unfolding down_inv_def by simp
  from heap_down_correct [OF this] have d: "is_heap key ?d ?n" "mset ?d = mset ?s"
    "drop ?n ?d = drop ?n ?s" "length ?d = length h" using n by simp_all
  have h': "h' = take ?n ?d" and x: "x = ?d ! ?n"
    using assms(3) by (simp_all add: heap_Pop_def Let_def)
  have "x = ?s ! ?n"
    using d(3,4) n by (metis x drop_all hd_drop_conv_nth length_heap_swap)
  then have x0: "x = h ! 0" unfolding nth by simp
  have "?d = h' @ [x]"
    using d(4) n h' x id_take_nth_drop [of ?n ?d] by simp
  then have "mset ?d = add_mset x (mset h')" by simp
  then have "mset h = add_mset x (mset h')"
    using d(2) n mset_heap_swap [of 0 h ?n] assms(2) by simp
  moreover have "is_heap key h' (length h')"
    using is_heap_take [OF d(1)] d(4) h' n by simp
  moreover have "\<forall>y \<in> set h. key x \<le> key y"
    using heap_root_least [OF assms(1)] x0 by (metis in_set_conv_nth)
  ultimately show ?thesis by blast
qed

section \<open>Correctness of the merge\<close>

text \<open>The entry an iterator stands on, and everything it has yet to yield, that entry included.\<close>

definition iter_entry :: "'i iter_ops \<Rightarrow> 'i \<Rightarrow> bytes \<times> bytes" where
  "iter_entry ops i = (slice_bytes (it_Key ops i), slice_bytes (projr (it_Value ops i)))"

text \<open>What a loop has read at one position.\<close>

definition yielded :: "slice \<times> slice result \<Rightarrow> bytes \<times> bytes" where
  "yielded e = (slice_bytes (fst e), slice_bytes (projr (snd e)))"

context ordered_iterator
begin

definition pending :: "'i \<Rightarrow> (bytes \<times> bytes) list" where
  "pending i = iter_entry ops i # remaining i"

definition active :: "'i \<Rightarrow> bool" where
  "active i \<longleftrightarrow> invar i \<and> (\<exists>k v. it_Key ops i = Some k \<and> it_Value ops i = Inr (Some v)) \<and>
     sorted (map fst (pending i))"

definition merge_invar :: "'i mergeIterator \<Rightarrow> bool" where
  "merge_invar m \<longleftrightarrow> mg_err m = None \<and> distinct (mg_heap m) \<and>
     (\<forall>j \<in> set (mg_heap m). j < length (mg_iters m) \<and> active (mg_iters m ! j)) \<and>
     is_heap (iter_key ops (mg_iters m)) (mg_heap m) (length (mg_heap m))"

definition merge_rest :: "'i mergeIterator \<Rightarrow> (bytes \<times> bytes) multiset" where
  "merge_rest m = (\<Sum>j \<in># mset (mg_heap m). mset (pending (mg_iters m ! j)))"

lemma next_active:
  assumes "invar i" and "remaining i = e # r" and "sorted (map fst (remaining i))"
  obtains i' where "it_Next ops i = (i', True)" and "active i'" and "pending i' = e # r"
proof -
  obtain i' b where n: "it_Next ops i = (i', b)" by (cases "it_Next ops i")
  obtain k v where e: "e = (k, v)" by (cases e)
  have s: "b \<and> invar i' \<and> remaining i' = r \<and> it_Key ops i' = Some k \<and> it_Value ops i' = Inr (Some v)"
    using next_some [OF assms(1) _ n] assms(2) e by blast
  then have "pending i' = e # r" by (simp add: pending_def iter_entry_def e)
  with s n assms(2,3) that show ?thesis by (simp add: active_def)
qed

lemma next_finished:
  assumes "invar i" and "remaining i = []"
  obtains i' where "it_Next ops i = (i', False)" and "it_Err ops i' = None"
proof -
  obtain i' b where n: "it_Next ops i = (i', b)" by (cases "it_Next ops i")
  with next_none [OF assms n] that show ?thesis by simp
qed

lemma pending_sum_cong:
  "(\<And>x. x \<in> set h \<Longrightarrow> iters' ! x = iters ! x) \<Longrightarrow>
   (\<Sum>x \<in># mset h. mset (pending (iters' ! x))) = (\<Sum>x \<in># mset h. mset (pending (iters ! x)))"
  by (induction h) simp_all

text \<open>Pushing a position whose iterator has just been advanced.\<close>

lemma merge_push:
  assumes inv: "merge_invar m" and j: "j \<notin> set (mg_heap m)" "j < length (mg_iters m)" and i: "active i"
  defines "iters \<equiv> (mg_iters m)[j := i]"
  defines "m' \<equiv> m\<lparr>mg_iters := iters, mg_heap := heap_Push (iter_key ops iters) j (mg_heap m)\<rparr>"
  shows "merge_invar m' \<and> merge_rest m' = mset (pending i) + merge_rest m \<and>
         set (mg_heap m') = insert j (set (mg_heap m))"
proof -
  let ?key = "iter_key ops iters"
  have same: "iters ! x = mg_iters m ! x" if "x \<in> set (mg_heap m)" for x
    using that j by (cases "x = j") (simp_all add: iters_def)
  have "is_heap ?key (mg_heap m) (length (mg_heap m))"
    using inv is_heap_cong [of "iter_key ops (mg_iters m)" "mg_heap m" _ ?key] same
    unfolding merge_invar_def by (simp add: iter_key_def)
  from heap_Push_correct [OF this, of j]
  have h: "is_heap ?key (mg_heap m') (Suc (length (mg_heap m)))" "mset (mg_heap m') = add_mset j (mset (mg_heap m))"
    by (simp_all add: m'_def)
  then have set: "set (mg_heap m') = insert j (set (mg_heap m))" and len: "length (mg_heap m') = Suc (length (mg_heap m))"
    by (metis set_mset_add_mset_insert set_mset_mset) (metis h(2) size_add_mset size_mset)
  have "distinct (mg_heap m')"
    using inv j h(2) unfolding merge_invar_def
    by (metis card_distinct card_insert_disjoint distinct_card finite_set len set)
  moreover have "x < length iters \<and> active (iters ! x)" if "x \<in> set (mg_heap m')" for x
    using that set same inv j i unfolding merge_invar_def by (auto simp: iters_def)
  ultimately have "merge_invar m'"
    using h(1) inv len unfolding merge_invar_def by (simp add: m'_def)
  moreover have "(\<Sum>x \<in># mset (mg_heap m). mset (pending (iters ! x))) = merge_rest m"
    unfolding merge_rest_def using same by (rule pending_sum_cong)
  moreover have "merge_rest m' = (\<Sum>x \<in># mset (mg_heap m'). mset (pending (iters ! x)))"
    by (simp add: merge_rest_def m'_def)
  ultimately show ?thesis using set j by (simp add: h(2) iters_def)
qed

text \<open>\<open>Next\<close> yields a least entry of what is left.\<close>

lemma merge_Next_some:
  assumes inv: "merge_invar m" and ne: "mg_heap m \<noteq> []"
  obtains m' e where "merge_Next ops m = (m', True)" and "merge_invar m'"
    and "merge_rest m = add_mset e (merge_rest m')" and "\<forall>x \<in># merge_rest m. fst e \<le> fst x"
    and "iter_entry (merge_ops ops) m' = e"
proof -
  let ?key = "iter_key ops (mg_iters m)"
  obtain h j where pop: "heap_Pop ?key (mg_heap m) = (h, j)" by (cases "heap_Pop ?key (mg_heap m)")
  have hp: "is_heap ?key h (length h)" and ms: "mset (mg_heap m) = add_mset j (mset h)"
    and least: "\<forall>y \<in> set (mg_heap m). ?key j \<le> ?key y"
    using heap_Pop_correct [OF _ ne pop] inv unfolding merge_invar_def by blast+
  have set: "set (mg_heap m) = insert j (set h)" using ms by (metis set_mset_add_mset_insert set_mset_mset)
  have "distinct (j # h)" using ms inv unfolding merge_invar_def by (metis mset.simps(2) mset_eq_imp_distinct_iff)
  then have jh: "j \<notin> set h" and dh: "distinct h" by simp_all
  let ?i = "mg_iters m ! j"
  have j: "j < length (mg_iters m)" and act: "active ?i"
    using inv set unfolding merge_invar_def by auto
  then obtain k v where kv: "it_Key ops ?i = Some k" "it_Value ops ?i = Inr (Some v)" and iv: "invar ?i"
    and srt: "sorted (map fst (pending ?i))"
    unfolding active_def by blast
  let ?m = "m\<lparr>mg_heap := h, mg_key := reuse_slice (mg_key m) k, mg_value := reuse_slice (mg_value m) v\<rparr>"
  have inv1: "merge_invar ?m" using inv hp dh set unfolding merge_invar_def by simp
  have rest: "merge_rest m = mset (pending ?i) + merge_rest ?m"
    by (simp add: merge_rest_def ms)
  have pk: "pending ?i = (k, v) # remaining ?i" by (simp add: pending_def iter_entry_def kv)
  have le: "\<forall>x \<in># merge_rest m. k \<le> fst x"
  proof
    fix x assume "x \<in># merge_rest m"
    then obtain y where y: "y \<in> set (mg_heap m)" and x: "x \<in> set (pending (mg_iters m ! y))"
      by (auto simp: merge_rest_def)
    have "k \<le> fst (iter_entry ops (mg_iters m ! y))"
      using least y kv by (simp add: iter_key_def iter_entry_def)
    also have "\<dots> \<le> fst x"
      using inv y x unfolding merge_invar_def active_def pending_def by auto
    finally show "k \<le> fst x" .
  qed
  have entry: "iter_entry (merge_ops ops) m' = (k, v)"
    if "mg_key m' = mg_key ?m" "mg_value m' = mg_value ?m" for m'
    using that by (simp add: iter_entry_def merge_ops_def merge_Key_def merge_Value_def reuse_slice_def)
  show ?thesis
  proof (cases "remaining ?i")
    case Nil
    then obtain i' where n: "it_Next ops ?i = (i', False)" "it_Err ops i' = None"
      using next_finished [OF iv] by blast
    let ?m' = "?m\<lparr>mg_iters := (mg_iters m)[j := i'], mg_err := None\<rparr>"
    have "merge_Next ops m = (?m', True)"
      using inv ne by (simp add: merge_Next_def merge_invar_def pop kv n)
    moreover have same: "(mg_iters m)[j := i'] ! x = mg_iters m ! x" if "x \<in> set h" for x
      using that jh by (cases "x = j") simp_all
    moreover have "merge_invar ?m'"
      using inv1 same is_heap_cong [OF hp, of "iter_key ops ((mg_iters m)[j := i'])"]
      unfolding merge_invar_def by (simp add: iter_key_def)
    moreover have "merge_rest ?m' = merge_rest ?m"
      unfolding merge_rest_def using pending_sum_cong [OF same] by simp
    ultimately show ?thesis
      using that [of ?m' "(k, v)"] rest le pk Nil entry [of ?m'] by simp
  next
    case (Cons e r)
    have "sorted (map fst (remaining ?i))" using srt by (simp add: pending_def)
    then obtain i' where n: "it_Next ops ?i = (i', True)" "active i'" "pending i' = remaining ?i"
      using next_active [OF iv Cons] Cons by metis
    let ?its = "(mg_iters m)[j := i']"
    let ?m' = "?m\<lparr>mg_iters := ?its, mg_heap := heap_Push (iter_key ops ?its) j h\<rparr>"
    have "merge_Next ops m = (?m', True)"
      using inv ne by (simp add: merge_Next_def merge_invar_def pop kv n)
    moreover have "merge_invar ?m' \<and> merge_rest ?m' = mset (pending i') + merge_rest ?m"
      using merge_push [OF inv1 _ _ n(2), of j] jh j by simp
    ultimately show ?thesis
      using that [of ?m' "(k, v)"] rest le pk n(3) entry [of ?m'] by simp
  qed
qed

lemma merge_iterate:
  assumes "merge_invar m" and "size (merge_rest m) < fuel"
  shows "\<exists>es. iterate (merge_ops ops) fuel m = Some es \<and> sorted (map (\<lambda>e. fst (yielded e)) es) \<and>
    mset (map yielded es) = merge_rest m"
  using assms
proof (induction fuel arbitrary: m)
  case (Suc fuel)
  show ?case
  proof (cases "mg_heap m = []")
    case True
    then show ?thesis
      using Suc.prems(1) by (simp add: merge_ops_def merge_Next_def merge_invar_def merge_rest_def)
  next
    case False
    then obtain m' e where m': "merge_Next ops m = (m', True)" "merge_invar m'"
      and rest: "merge_rest m = add_mset e (merge_rest m')" and le: "\<forall>x \<in># merge_rest m. fst e \<le> fst x"
      and e: "iter_entry (merge_ops ops) m' = e"
      using merge_Next_some [OF Suc.prems(1)] by blast
    obtain es where es: "iterate (merge_ops ops) fuel m' = Some es"
      "sorted (map (\<lambda>e. fst (yielded e)) es)" "mset (map yielded es) = merge_rest m'"
      using Suc.IH [OF m'(2)] Suc.prems(2) rest by auto
    let ?e = "(it_Key (merge_ops ops) m', it_Value (merge_ops ops) m')"
    have y: "yielded ?e = e" using e by (simp add: yielded_def iter_entry_def)
    have "\<forall>x \<in> set es. fst e \<le> fst (yielded x)"
    proof
      fix x assume "x \<in> set es"
      then have "yielded x \<in># merge_rest m'" using es(3) by (metis image_eqI set_map set_mset_mset)
      then show "fst e \<le> fst (yielded x)" using le rest by simp
    qed
    with es y rest have "sorted (map (\<lambda>e. fst (yielded e)) (?e # es)) \<and>
        mset (map yielded (?e # es)) = merge_rest m" by simp
    moreover have "iterate (merge_ops ops) (Suc fuel) m = Some (?e # es)"
      using m'(1) es(1) by (simp add: merge_ops_def)
    ultimately show ?thesis by blast
  qed
qed simp

lemma merge_build:
  assumes "merge_invar m" and "distinct js"
    and "\<forall>j \<in> set js. j < length (mg_iters m) \<and> j \<notin> set (mg_heap m) \<and> invar (mg_iters m ! j) \<and>
           sorted (map fst (remaining (mg_iters m ! j)))"
  shows "merge_invar (merge_build_loop ops (it_Next ops) js m) \<and>
    merge_rest (merge_build_loop ops (it_Next ops) js m) =
      (\<Sum>j \<in># mset js. mset (remaining (mg_iters m ! j))) + merge_rest m"
  using assms
proof (induction js arbitrary: m)
  case (Cons j js)
  let ?i = "mg_iters m ! j"
  have j: "j < length (mg_iters m)" "j \<notin> set (mg_heap m)" "invar ?i" "sorted (map fst (remaining ?i))"
    and js: "distinct js" "j \<notin> set js"
    using Cons.prems(2,3) by auto
  have same: "(mg_iters m)[j := i] ! x = mg_iters m ! x" if "x \<noteq> j" for i x
    using that by simp
  obtain m1 where step: "merge_build_loop ops (it_Next ops) (j # js) m = merge_build_loop ops (it_Next ops) js m1"
    and m1: "merge_invar m1" "merge_rest m1 = mset (remaining ?i) + merge_rest m"
      "set (mg_heap m1) \<subseteq> insert j (set (mg_heap m))" "\<exists>i. mg_iters m1 = (mg_iters m)[j := i]"
  proof (cases "remaining ?i")
    case Nil
    then obtain i' where n: "it_Next ops ?i = (i', False)" "it_Err ops i' = None"
      using next_finished [OF j(3)] by blast
    let ?m1 = "m\<lparr>mg_iters := (mg_iters m)[j := i'], mg_err := None\<rparr>"
    have sh: "(mg_iters m)[j := i'] ! x = mg_iters m ! x" if "x \<in> set (mg_heap m)" for x
      using that j(2) same by metis
    have "merge_invar ?m1"
      using Cons.prems(1) sh is_heap_cong [of "iter_key ops (mg_iters m)" "mg_heap m" _
          "iter_key ops ((mg_iters m)[j := i'])"]
      unfolding merge_invar_def by (simp add: iter_key_def)
    moreover have "merge_rest ?m1 = merge_rest m"
      unfolding merge_rest_def using pending_sum_cong [OF sh] by simp
    ultimately show ?thesis using that [of ?m1] n Nil by auto
  next
    case (Cons e r)
    then obtain i' where n: "it_Next ops ?i = (i', True)" "active i'" "pending i' = remaining ?i"
      using next_active [OF j(3) Cons j(4)] by metis
    let ?its = "(mg_iters m)[j := i']"
    let ?m1 = "m\<lparr>mg_iters := ?its, mg_heap := heap_Push (iter_key ops ?its) j (mg_heap m)\<rparr>"
    show ?thesis
      using that [of ?m1] merge_push [OF Cons.prems(1) j(2,1) n(2)] n by auto
  qed
  then obtain i where its: "mg_iters m1 = (mg_iters m)[j := i]" by blast
  have eq: "mg_iters m1 ! x = mg_iters m ! x" if "x \<in> set js" for x
    using that js(2) same its by metis
  have "\<forall>x \<in> set js. x < length (mg_iters m1) \<and> x \<notin> set (mg_heap m1) \<and> invar (mg_iters m1 ! x) \<and>
      sorted (map fst (remaining (mg_iters m1 ! x)))"
    using Cons.prems(3) m1(3) js(2) eq its by auto
  from Cons.IH [OF m1(1) js(1) this] have "merge_invar (merge_build_loop ops (it_Next ops) js m1) \<and>
      merge_rest (merge_build_loop ops (it_Next ops) js m1) =
        (\<Sum>j \<in># mset js. mset (remaining (mg_iters m1 ! j))) + merge_rest m1" .
  moreover have "(\<Sum>j \<in># mset js. mset (remaining (mg_iters m1 ! j))) =
      (\<Sum>j \<in># mset js. mset (remaining (mg_iters m ! j)))"
    using eq by (induction js) simp_all
  ultimately show ?case using step m1(2) by (simp add: ac_simps)
qed simp

lemma merge_correct:
  assumes "\<forall>i \<in> set iters. invar i \<and> sorted (map fst (remaining i))"
    and "sum_list (map (\<lambda>i. length (remaining i)) iters) < fuel"
  shows "\<exists>es. iterate (merge_ops ops) fuel (NewMultiIterator ops iters) = Some es \<and>
    sorted (map (\<lambda>e. fst (yielded e)) es) \<and>
    mset (map yielded es) = (\<Sum>i \<in># mset iters. mset (remaining i))"
proof -
  let ?m = "\<lparr>mg_key = None, mg_value = None, mg_err = None, mg_heap = [], mg_iters = iters\<rparr>"
  have "merge_invar ?m" by (simp add: merge_invar_def is_heap_def)
  from merge_build [OF this, of "[0..<length iters]"] assms(1)
  have b: "merge_invar (NewMultiIterator ops iters)"
    "merge_rest (NewMultiIterator ops iters) = (\<Sum>j \<in># mset [0..<length iters]. mset (remaining (iters ! j)))"
    by (simp_all add: NewMultiIterator_def merge_buildHeap_def merge_rest_def)
  have "(\<Sum>j \<in># mset [0..<length iters]. mset (remaining (iters ! j))) =
      sum_mset (mset (map (\<lambda>j. mset (remaining (iters ! j))) [0..<length iters]))" by simp
  also have "map (\<lambda>j. mset (remaining (iters ! j))) [0..<length iters] = map (\<lambda>i. mset (remaining i)) iters"
    by (intro nth_equalityI) simp_all
  finally have r: "merge_rest (NewMultiIterator ops iters) = (\<Sum>i \<in># mset iters. mset (remaining i))"
    using b(2) by simp
  have "size (\<Sum>i \<in># mset iters. mset (remaining i)) = sum_list (map (\<lambda>i. length (remaining i)) iters)"
    by (induction iters) simp_all
  with merge_iterate [OF b(1)] r assms(2) show ?thesis by simp
qed

end

section \<open>Properties\<close>

lemma memory_remaining:
  assumes "memory_invar m" and "memory_Iterator m = Inr i"
  shows "memiter_invar i" and "sorted (map fst (memiter_remaining i))"
    and "mset (memiter_remaining i) =
           mset_set {(k, v). mem_storage m k = Some v \<and> k \<noteq> offsetKey}"
    and "length (memiter_remaining i) \<le> card (dom (mem_storage m))"
proof -
  let ?ks = "filter (\<lambda>k. k \<noteq> offsetKey) (mem_keys m)"
  have st: "mi_storage i = mem_storage m" using assms(2) by (auto simp: memory_Iterator_def)
  have rem: "memiter_remaining i = map (\<lambda>k. (k, the (mem_storage m k))) ?ks"
    using memory_Iterator_invar(2) [OF assms] by (simp add: memiter_entries_def st)
  show "memiter_invar i" using memory_Iterator_invar(1) [OF assms] .
  have srt: "sorted (mem_keys m)" "distinct (mem_keys m)" "set (mem_keys m) = dom (mem_storage m)"
    using assms(1) unfolding memory_invar_def by blast+
  show "sorted (map fst (memiter_remaining i))"
    using sorted_filter [of id "mem_keys m"] srt(1) by (simp add: rem comp_def)
  have "distinct (memiter_remaining i)"
    using srt(2) by (simp add: rem distinct_map inj_on_def)
  moreover have "set (memiter_remaining i) = {(k, v). mem_storage m k = Some v \<and> k \<noteq> offsetKey}"
    using srt(3) by (auto simp: rem image_iff)
  ultimately show "mset (memiter_remaining i) =
      mset_set {(k, v). mem_storage m k = Some v \<and> k \<noteq> offsetKey}"
    using mset_set_set [of "memiter_remaining i"] by simp
  show "length (memiter_remaining i) \<le> card (dom (mem_storage m))"
    using length_filter_le [of "\<lambda>k. k \<noteq> offsetKey" "mem_keys m"] distinct_card [OF srt(2)] srt(3)
    by (simp add: rem)
qed

text \<open>The merge of the iterators of in-memory storages: every entry of every storage exactly once, the
  reserved offset key excepted.\<close>

lemma merge_memories:
  assumes "\<forall>m \<in> set ms. memory_invar m"
  shows "\<exists>es. iterate (merge_ops memiter_ops)
        (Suc (sum_list (map (\<lambda>m. card (dom (mem_storage m))) ms)))
        (NewMultiIterator memiter_ops (map (\<lambda>m. projr (memory_Iterator m)) ms)) = Some es \<and>
      sorted (map (\<lambda>e. fst (yielded e)) es) \<and>
      mset (map yielded es) =
        (\<Sum>m \<in># mset ms. mset_set {(k, v). mem_storage m k = Some v \<and> k \<noteq> offsetKey})"
proof -
  let ?it = "\<lambda>m. projr (memory_Iterator m)"
  have it: "memory_Iterator m = Inr (?it m)" for m by (simp add: memory_Iterator_def)
  have inv: "\<forall>i \<in> set (map ?it ms). memiter_invar i \<and> sorted (map fst (memiter_remaining i))"
    using assms memory_remaining(1,2) [OF _ it] by auto
  have len: "sum_list (map (\<lambda>i. length (memiter_remaining i)) (map ?it ms))
      \<le> sum_list (map (\<lambda>m. card (dom (mem_storage m))) ms)"
    using assms memory_remaining(4) [OF _ it] by (induction ms) (simp_all add: add_mono)
  have eq: "(\<Sum>i \<in># mset (map ?it ms). mset (memiter_remaining i)) =
      (\<Sum>m \<in># mset ms. mset_set {(k, v). mem_storage m k = Some v \<and> k \<noteq> offsetKey})"
    using assms memory_remaining(3) [OF _ it] by (induction ms) simp_all
  from memiter.merge_correct [OF inv le_imp_less_Suc [OF len]] show ?thesis by (simp only: eq)
qed

text \<open>C12: a merge of iterators is a merge. For iterators that satisfy their contract and each yield their
  entries in ascending order of the keys, the loop over the merge iterator ends; it yields the keys in
  ascending order, and every entry of every iterator exactly once.\<close>

theorem merged_iteration_sorted:
  assumes "ordered_iterator ops invar remaining"
    and "\<forall>i \<in> set iters. invar i \<and> sorted (map fst (remaining i))"
    and "sum_list (map (\<lambda>i. length (remaining i)) iters) < fuel"
  shows "\<exists>es. iterate (merge_ops ops) fuel (NewMultiIterator ops iters) = Some es \<and>
    sorted (map (\<lambda>e. fst (yielded e)) es) \<and>
    mset (map yielded es) = (\<Sum>i \<in># mset iters. mset (remaining i))"
  by (rule ordered_iterator.merge_correct [OF assms])

theorem merged_iteration_sorted_witness:
  "\<exists>es. iterate (merge_ops memiter_ops) 3 (NewMultiIterator memiter_ops
        (map (\<lambda>m. projr (memory_Iterator m))
          [fst (memory_Set NewMemory ''b'' (Some ''1'')), fst (memory_Set NewMemory ''a'' (Some ''2''))]))
      = Some es \<and> sorted (map (\<lambda>e. fst (yielded e)) es)"
proof -
  let ?ms = "[fst (memory_Set NewMemory ''b'' (Some ''1'')), fst (memory_Set NewMemory ''a'' (Some ''2''))]"
  let ?it = "\<lambda>m. projr (memory_Iterator m)"
  have it: "memory_Iterator m = Inr (?it m)" for m by (simp add: memory_Iterator_def)
  have inv: "\<forall>m \<in> set ?ms. memory_invar m"
    by (auto simp: memory_Set_def NewMemory_def memory_invar_def Let_def)
  have n: "sum_list (map (\<lambda>m. card (dom (mem_storage m))) ?ms) = 2"
    by (simp add: memory_Set_def NewMemory_def Let_def)
  have "sum_list (map (\<lambda>i. length (memiter_remaining i)) (map ?it ?ms)) \<le> sum_list (map (\<lambda>m. card (dom (mem_storage m))) ?ms)"
    using inv memory_remaining(4) [OF _ it] by (simp add: add_mono)
  then have len: "sum_list (map (\<lambda>i. length (memiter_remaining i)) (map ?it ?ms)) < 3" using n by linarith
  have "\<forall>i \<in> set (map ?it ?ms). memiter_invar i \<and> sorted (map fst (memiter_remaining i))"
    using inv memory_remaining(1,2) [OF _ it] by auto
  from merged_iteration_sorted [OF memiter.ordered_iterator_axioms this len] show ?thesis by blast
qed

end
