(* ===== verification/Goka_Stats.thy ===== *)
theory Goka_Stats
  imports Goka_Prelude
begin

text \<open>
  The statistics of tables and partition processors (\<open>stats.go\<close>).

  The structures share parts through pointers, and \<open>clone\<close> is meant to cut that sharing, so the
  parts live in an explicit store: \<open>stats_heap\<close> holds the objects of each type, a pointer is a
  position in its list, \<open>new\<close> appends. A Go \<open>uint\<close> counter wraps at \<open>2 ^ 64\<close>. A \<open>time.Time\<close> is
  a number, \<open>None\<close> is the zero time.
\<close>

section \<open>The structures\<close>

record InputStats =
  is_Count :: int
  is_Bytes :: int
  is_OffsetLag :: int
  is_LastOffset :: int
  is_Delay :: int

record OutputStats =
  os_Count :: int
  os_Bytes :: int

record RecoveryStats =
  rs_StartTime :: "int option"
  rs_RecoveryTime :: "int option"
  rs_Offset :: int
  rs_Hwm :: int

record stats_heap =
  h_input :: "InputStats list"
  h_output :: "OutputStats list"
  h_recovery :: "RecoveryStats list"

record TableStats =
  ts_Stalled :: bool
  ts_Status :: int
  ts_RunMode :: int
  ts_Recovery :: nat
  ts_Input :: nat
  ts_Writes :: nat

record PartitionProcStats =
  pps_Now :: "int option"
  pps_TableStats :: "TableStats option"
  pps_Joined :: "(string \<times> TableStats option) list"
  pps_Input :: "(string \<times> nat) list"
  pps_Output :: "(string \<times> nat) list"

definition PartitionStopped :: int where "PartitionStopped = 0"
definition PartitionInitializing :: int where "PartitionInitializing = 1"
definition PartitionConnecting :: int where "PartitionConnecting = 2"
definition PartitionRecovering :: int where "PartitionRecovering = 3"
definition PartitionPreparing :: int where "PartitionPreparing = 4"
definition PartitionRunning :: int where "PartitionRunning = 5"

lemmas partition_states =
  PartitionStopped_def PartitionInitializing_def PartitionConnecting_def PartitionRecovering_def
  PartitionPreparing_def PartitionRunning_def

definition wrap_uint :: "int \<Rightarrow> int" where
  "wrap_uint x = x mod 2 ^ 64"

section \<open>Construction\<close>

definition newInputStats :: "stats_heap \<Rightarrow> stats_heap \<times> nat" where
  "newInputStats h =
     (h\<lparr>h_input := h_input h @ [\<lparr>is_Count = 0, is_Bytes = 0, is_OffsetLag = 0, is_LastOffset = 0,
        is_Delay = 0\<rparr>]\<rparr>, length (h_input h))"

definition newOutputStats :: "stats_heap \<Rightarrow> stats_heap \<times> nat" where
  "newOutputStats h =
     (h\<lparr>h_output := h_output h @ [\<lparr>os_Count = 0, os_Bytes = 0\<rparr>]\<rparr>, length (h_output h))"

definition newRecoveryStats :: "stats_heap \<Rightarrow> stats_heap \<times> nat" where
  "newRecoveryStats h =
     (h\<lparr>h_recovery := h_recovery h @ [\<lparr>rs_StartTime = None, rs_RecoveryTime = None, rs_Offset = 0,
        rs_Hwm = 0\<rparr>]\<rparr>, length (h_recovery h))"

definition newTableStats :: "stats_heap \<Rightarrow> stats_heap \<times> TableStats" where
  "newTableStats h =
     (let (h, i) = newInputStats h; (h, w) = newOutputStats h; (h, r) = newRecoveryStats h
      in (h, \<lparr>ts_Stalled = False, ts_Status = 0, ts_RunMode = 0, ts_Recovery = r, ts_Input = i,
              ts_Writes = w\<rparr>))"

definition TableStats_reset :: "stats_heap \<Rightarrow> TableStats \<Rightarrow> stats_heap \<times> TableStats" where
  "TableStats_reset h ts =
     (let (h, i) = newInputStats h; (h, w) = newOutputStats h
      in (h, ts\<lparr>ts_Input := i, ts_Writes := w\<rparr>))"

fun new_all :: "(stats_heap \<Rightarrow> stats_heap \<times> nat) \<Rightarrow> string list \<Rightarrow> stats_heap \<Rightarrow>
    (string \<times> nat) list \<Rightarrow> stats_heap \<times> (string \<times> nat) list" where
  "new_all new [] h m = (h, m)"
| "new_all new (k # ks) h m = (case new h of (h, p) \<Rightarrow> new_all new ks h (map_put k p m))"

definition newPartitionProcStats ::
  "int \<Rightarrow> string list \<Rightarrow> string list \<Rightarrow> stats_heap \<Rightarrow> stats_heap \<times> PartitionProcStats" where
  "newPartitionProcStats now inputs outputs h =
     (let (h, i) = new_all newInputStats inputs h []; (h, o') = new_all newOutputStats outputs h []
      in (h, \<lparr>pps_Now = Some now, pps_TableStats = None, pps_Joined = [], pps_Input = i,
              pps_Output = o'\<rparr>))"

section \<open>Cloning\<close>

text \<open>\<open>&(*is)\<close> is the pointer \<open>is\<close> itself: only the recovery statistics are copied.\<close>

definition InputStats_clone :: "stats_heap \<Rightarrow> nat \<Rightarrow> stats_heap \<times> nat" where
  "InputStats_clone h is = (h, is)"

definition OutputStats_clone :: "stats_heap \<Rightarrow> nat \<Rightarrow> stats_heap \<times> nat" where
  "OutputStats_clone h os = (h, os)"

definition RecoveryStats_clone :: "stats_heap \<Rightarrow> nat \<Rightarrow> stats_heap \<times> nat" where
  "RecoveryStats_clone h rs =
     (h\<lparr>h_recovery := h_recovery h @ [h_recovery h ! rs]\<rparr>, length (h_recovery h))"

fun clone_all :: "(stats_heap \<Rightarrow> nat \<Rightarrow> stats_heap \<times> nat) \<Rightarrow> (string \<times> nat) list \<Rightarrow> stats_heap \<Rightarrow>
    (string \<times> nat) list \<Rightarrow> stats_heap \<times> (string \<times> nat) list" where
  "clone_all clone [] h c = (h, c)"
| "clone_all clone ((k, p) # m) h c = (case clone h p of (h, p) \<Rightarrow> clone_all clone m h (map_put k p c))"

definition inputStatsMap_clone ::
  "stats_heap \<Rightarrow> (string \<times> nat) list \<Rightarrow> stats_heap \<times> (string \<times> nat) list" where
  "inputStatsMap_clone h isp = clone_all InputStats_clone isp h []"

definition outputStatsMap_clone ::
  "stats_heap \<Rightarrow> (string \<times> nat) list \<Rightarrow> stats_heap \<times> (string \<times> nat) list" where
  "outputStatsMap_clone h osp = clone_all OutputStats_clone osp h []"

definition TableStats_clone :: "stats_heap \<Rightarrow> TableStats \<Rightarrow> stats_heap \<times> TableStats" where
  "TableStats_clone h ts =
     (let (h, i) = InputStats_clone h (ts_Input ts); (h, w) = OutputStats_clone h (ts_Writes ts);
          (h, r) = RecoveryStats_clone h (ts_Recovery ts)
      in (h, \<lparr>ts_Stalled = ts_Stalled ts, ts_Status = 0, ts_RunMode = 0, ts_Recovery = r,
              ts_Input = i, ts_Writes = w\<rparr>))"

definition PartitionProcStats_clone ::
  "int \<Rightarrow> stats_heap \<Rightarrow> PartitionProcStats \<Rightarrow> stats_heap \<times> PartitionProcStats" where
  "PartitionProcStats_clone now h s =
     (let (h, pps) = newPartitionProcStats now [] [] h;
          (h, i) = inputStatsMap_clone h (pps_Input s); (h, o') = outputStatsMap_clone h (pps_Output s)
      in (h, pps\<lparr>pps_Now := Some now, pps_Joined := [], pps_Input := i, pps_Output := o'\<rparr>))"

section \<open>Tracking\<close>

definition PartitionProcStats_trackOutput ::
  "stats_heap \<Rightarrow> PartitionProcStats \<Rightarrow> string \<Rightarrow> int \<Rightarrow> stats_heap" where
  "PartitionProcStats_trackOutput h s topic valueLen =
     (case map_of (pps_Output s) topic of
        None \<Rightarrow> h
      | Some p \<Rightarrow>
          let os = h_output h ! p
          in h\<lparr>h_output := (h_output h)[p := os\<lparr>os_Count := wrap_uint (os_Count os + 1),
                 os_Bytes := wrap64 (os_Bytes os + valueLen)\<rparr>]\<rparr>)"

section \<open>Statistics of views and processors\<close>

record ViewStats =
  vs_Partitions :: "(int \<times> TableStats option) list"

definition newViewStats :: ViewStats where
  "newViewStats = \<lparr>vs_Partitions = []\<rparr>"

record ProcessorStats =
  prs_Group :: "(int \<times> PartitionProcStats option) list"
  prs_Lookup :: "(string \<times> ViewStats) list"

definition newProcessorStats :: ProcessorStats where
  "newProcessorStats = \<lparr>prs_Group = [], prs_Lookup = []\<rparr>"

section \<open>What a clone keeps\<close>

lemma clone_all_id:
  assumes "\<And>h p. clone h p = (h, p)"
  shows "clone_all clone m h c = (h, map_copy m c)"
  unfolding map_copy_def by (induction m arbitrary: c) (auto simp: assms)

lemma map_of_fold_put: "map_of (map_copy m c) = map_of c ++ map_of (rev m)"
  unfolding map_copy_def by (induction m arbitrary: c) (auto simp: map_add_def fun_eq_iff split: option.splits)

lemma map_of_rev: "gomap m \<Longrightarrow> map_of (rev m) = map_of m"
  by (rule map_of_inject_set [THEN iffD2]) (simp_all add: rev_map [symmetric])

text \<open>The clone of a partition processor's statistics still shares its input and output counters
  with the original: it maps every topic to the very same object, so a message tracked afterwards
  changes what the clone shows.\<close>

lemma proc_stats_clone_shares_counters:
  assumes "gomap (pps_Output s)" and "map_of (pps_Output s) topic = Some p" and "p < length (h_output h)"
    and "PartitionProcStats_clone now h s = (h', c)"
    and "PartitionProcStats_trackOutput h' s topic valueLen = h2"
  shows "map_of (pps_Output c) topic = Some p \<and>
    os_Bytes (h_output h2 ! p) = wrap64 (os_Bytes (h_output h ! p) + valueLen) \<and>
    os_Count (h_output h2 ! p) = wrap_uint (os_Count (h_output h ! p) + 1)"
proof -
  have "h_output h' = h_output h \<and> pps_Output c = map_copy (pps_Output s) []"
    using assms(4) clone_all_id [of OutputStats_clone] clone_all_id [of InputStats_clone]
    by (auto simp: PartitionProcStats_clone_def newPartitionProcStats_def inputStatsMap_clone_def
        outputStatsMap_clone_def InputStats_clone_def OutputStats_clone_def)
  then show ?thesis
    using assms(1,2,3,5) by (auto simp: PartitionProcStats_trackOutput_def map_of_fold_put map_of_rev Let_def)
qed

end
