(* ===== verification/Goka_Partition_Table.thy ===== *)
theory Goka_Partition_Table
  imports Goka_Merge_Iterator Goka_Signal Goka_Multierr Goka_Headers Goka_Stats
begin

text \<open>
  The table of one partition (\<open>partition_table.go\<close>), the storage proxy (\<open>proxy.go\<close>), \<open>once\<close>
  (\<open>once.go\<close>), the update context and \<open>DefaultUpdate\<close> (\<open>options.go\<close>), and the backoff
  (\<open>simple_backoff.go\<close>).

  \<^item> What the table gets from outside is the record \<open>table_env\<close>: the methods of the storage, the
    builder, the update callback, the answers of the topic manager and of the sarama consumer, and
    the choices of the \<open>select\<close> statements that several ready channels leave open.
  \<^item> The \<open>select\<close> loop of \<open>loadMessages\<close> runs over a script of events, the ones it receives in the
    order it takes them. When the script ends before the loop has, the result is \<open>None\<close>: the loop
    is still waiting. The errors that \<open>handleConsumerErrors\<close> collects concurrently and the rounds
    of the statistics goroutine are events of the same script.
  \<^item> A table whose storage has not been set up has the nil proxy; calling a method of it panics.
\<close>

section \<open>once and the storage proxy\<close>

record once =
  once_done :: bool
  once_err :: "gerr option"

definition newOnce :: once where
  "newOnce = \<lparr>once_done = False, once_err = None\<rparr>"

text \<open>\<open>f\<close> acts on a state and may panic; a \<open>sync.Once\<close> counts a panicking call as done.\<close>

definition once_Do :: "once \<Rightarrow> ('s \<Rightarrow> ('s \<times> gerr option) go) \<Rightarrow> 's \<Rightarrow> (once \<times> 's \<times> gerr option) go" where
  "once_Do o' f s =
     (if once_done o' then Ret (o', s, once_err o')
      else go_bind (f s) (\<lambda>(s, e). Ret (\<lparr>once_done = True, once_err = e\<rparr>, s, e)))"

record 's storageProxy =
  px_Storage :: 's
  px_topic :: string
  px_partition :: int
  px_stateless :: bool
  px_openedOnce :: once
  px_closedOnce :: once

definition storageProxy_Open ::
  "'s storage_ops \<Rightarrow> 's storageProxy option \<Rightarrow> ('s storageProxy option \<times> gerr option) go" where
  "storageProxy_Open ops s =
     (case s of
        None \<Rightarrow> Ret (None, None)
      | Some px \<Rightarrow>
          go_bind (once_Do (px_openedOnce px) (\<lambda>st. Ret (st_Open ops st)) (px_Storage px)) (\<lambda>(o', st, e).
            Ret (Some (px\<lparr>px_openedOnce := o', px_Storage := st\<rparr>), e)))"

definition storageProxy_Close ::
  "'s storage_ops \<Rightarrow> 's storageProxy option \<Rightarrow> ('s storageProxy option \<times> gerr option) go" where
  "storageProxy_Close ops s =
     (case s of
        None \<Rightarrow> Ret (None, None)
      | Some px \<Rightarrow>
          go_bind (once_Do (px_closedOnce px) (st_Close ops) (px_Storage px)) (\<lambda>(o', st, e).
            Ret (Some (px\<lparr>px_closedOnce := o', px_Storage := st\<rparr>), e)))"

record DefaultUpdateContext =
  uc_topic :: string
  uc_key :: string
  uc_partition :: int
  uc_offset :: int
  uc_value :: slice
  uc_headers :: Headers
  uc_saramaHeaders :: "RecordHeader list"

definition UpdateContext_Headers :: "DefaultUpdateContext \<Rightarrow> Headers" where
  "UpdateContext_Headers ctx =
     (if uc_headers ctx = None \<and> 0 < length (uc_saramaHeaders ctx)
      then FromSarama (uc_saramaHeaders ctx) else uc_headers ctx)"

text \<open>An update callback gets the storage through its context: here it takes and returns its state.\<close>

type_synonym 's UpdateCallback = "DefaultUpdateContext \<Rightarrow> 's \<Rightarrow> 's \<times> gerr option"

definition DefaultUpdate :: "'s storage_ops \<Rightarrow> 's UpdateCallback" where
  "DefaultUpdate ops ctx st =
     (if uc_value ctx = None then st_Delete ops st (uc_key ctx)
      else st_Set ops st (uc_key ctx) (uc_value ctx))"

definition storageProxy_Update ::
  "'s UpdateCallback \<Rightarrow> 's storageProxy \<Rightarrow> string \<Rightarrow> slice \<Rightarrow> int \<Rightarrow> Headers \<Rightarrow>
   's storageProxy \<times> gerr option" where
  "storageProxy_Update update s k v off headers =
     (case update \<lparr>uc_topic = px_topic s, uc_key = k, uc_partition = px_partition s, uc_offset = off,
             uc_value = v, uc_headers = headers, uc_saramaHeaders = []\<rparr> (px_Storage s) of
        (st, e) \<Rightarrow> (s\<lparr>px_Storage := st\<rparr>, e))"

definition storageProxy_Stateless :: "'s storageProxy \<Rightarrow> bool" where
  "storageProxy_Stateless s = px_stateless s"

definition storageProxy_MarkRecovered ::
  "'s storage_ops \<Rightarrow> 's storageProxy \<Rightarrow> ('s storageProxy \<times> gerr option) go" where
  "storageProxy_MarkRecovered ops s =
     go_bind (st_MarkRecovered ops (px_Storage s)) (\<lambda>(st, e). Ret (s\<lparr>px_Storage := st\<rparr>, e))"

section \<open>Backoff\<close>

record 'b backoff_ops =
  bo_Duration :: "'b \<Rightarrow> 'b \<times> int"
  bo_Reset :: "'b \<Rightarrow> 'b"

text \<open>The constructor of the simple backoff sets the step to a second whatever its argument is.\<close>

record simpleBackoff =
  sb_current :: int
  sb_step :: int

definition NewSimpleBackoff :: "int \<Rightarrow> simpleBackoff" where
  "NewSimpleBackoff step = \<lparr>sb_current = 0, sb_step = 1000000000\<rparr>"

definition simpleBackoff_Reset :: "simpleBackoff \<Rightarrow> simpleBackoff" where
  "simpleBackoff_Reset b = b\<lparr>sb_current := 0\<rparr>"

definition simpleBackoff_Duration :: "simpleBackoff \<Rightarrow> simpleBackoff \<times> int" where
  "simpleBackoff_Duration b =
     (let b = b\<lparr>sb_current := wrap64 (sb_current b + sb_step b)\<rparr> in (b, sb_current b))"

definition simpleBackoff_ops :: "simpleBackoff backoff_ops" where
  "simpleBackoff_ops = \<lparr>bo_Duration = simpleBackoff_Duration, bo_Reset = simpleBackoff_Reset\<rparr>"

section \<open>The partition table\<close>

record ConsumerMessage =
  msg_Key :: slice
  msg_Value :: slice
  msg_Topic :: string
  msg_Partition :: int
  msg_Offset :: int
  msg_Headers :: "RecordHeader list"
  msg_Timestamp :: "int option"

text \<open>The closures sent to the statistics goroutine.\<close>

datatype stats_update =
    StatsRecoveryInit int int int
  | StatsRecoveryOffset int
  | StatsRecoveryTime int
  | StatsTrackMessage int ConsumerMessage
  | StatsStalled
  | StatsWrite int

record 's PartitionTable =
  pt_topic :: string
  pt_partition :: int
  pt_state :: Signal
  pt_st :: "'s storageProxy option"
  pt_stats :: TableStats
  pt_heap :: stats_heap
  pt_updateStats :: "stats_update list"
  pt_responseStats :: "TableStats list"
  pt_stalledTimeout :: int

text \<open>The cases of a round of \<open>RunStatsLoop\<close>.\<close>

datatype stats_round = StatsRequested | StatsUpdated | StatsHwmTick

text \<open>What happens while \<open>loadMessages\<close> waits: a message at some time, the closing of the message
  channel, a tick of the stall ticker, the end of the context; and beside the loop an error of the
  consumer or a round of the statistics goroutine.\<close>

datatype load_event =
    EvMessage int "ConsumerMessage option"
  | EvClosed
  | EvStall int
  | EvDone
  | EvConsError gerr
  | EvStats stats_round

record consumption =
  cs_events :: "load_event list"
  cs_drained :: "gerr list"

datatype mark_case = MarkCtxDone | MarkDone

record 's table_env =
  te_ops :: "'s storage_ops"
  te_builder :: "string \<Rightarrow> int \<Rightarrow> 's result"
  te_update :: "'s UpdateCallback"
  te_GetOffset :: "string \<Rightarrow> int \<Rightarrow> int \<Rightarrow> int result"
  te_ConsumePartition :: "string \<Rightarrow> int \<Rightarrow> int \<Rightarrow> consumption result"
  te_hwm :: "string \<Rightarrow> int \<Rightarrow> int"
  te_send :: "nat \<Rightarrow> bool"
  te_skip :: "stats_update \<Rightarrow> bool"
  te_mark :: mark_case
  te_now :: int

definition offsetNotStored :: int where
  "offsetNotStored = -3"

definition OffsetNewest :: int where
  "OffsetNewest = -1"

definition OffsetOldest :: int where
  "OffsetOldest = -2"

definition nil_deref :: "'a go" where
  "nil_deref = Panic ''invalid memory address or nil pointer dereference''"

definition newPartitionTableState :: "Signal go" where
  "newPartitionTableState =
     Signal_SetState (\<lambda>_. True) PartitionStopped
       (NewSignal [PartitionStopped, PartitionInitializing, PartitionConnecting, PartitionRecovering,
         PartitionPreparing, PartitionRunning])"

definition newPartitionTable :: "string \<Rightarrow> int \<Rightarrow> 's PartitionTable go" where
  "newPartitionTable topic partition' =
     (case newTableStats \<lparr>h_input = [], h_output = [], h_recovery = []\<rparr> of (h, ts) \<Rightarrow>
        go_bind newPartitionTableState (\<lambda>state.
          Ret \<lparr>pt_topic = topic, pt_partition = partition', pt_state = state, pt_st = None,
               pt_stats = ts, pt_heap = h, pt_updateStats = [], pt_responseStats = [],
               pt_stalledTimeout = 120000000000\<rparr>))"

definition pt_SetState :: "'s table_env \<Rightarrow> int \<Rightarrow> 's PartitionTable \<Rightarrow> 's PartitionTable go" where
  "pt_SetState env st p =
     go_bind (Signal_SetState (te_send env) st (pt_state p)) (\<lambda>s. Ret (p\<lparr>pt_state := s\<rparr>))"

definition pt_with :: "'s PartitionTable \<Rightarrow> ('s storageProxy \<Rightarrow> 'a go) \<Rightarrow> 'a go" where
  "pt_with p f = (case pt_st p of None \<Rightarrow> nil_deref | Some px \<Rightarrow> f px)"

definition pt_IsRecovered :: "'s PartitionTable \<Rightarrow> bool" where
  "pt_IsRecovered p = Signal_IsState (pt_state p) PartitionRunning"

definition pt_CurrentState :: "'s PartitionTable \<Rightarrow> int" where
  "pt_CurrentState p = Signal_State (pt_state p)"

subsection \<open>Statistics\<close>

definition pt_enqueueStatsUpdate :: "'s table_env \<Rightarrow> stats_update \<Rightarrow> 's PartitionTable \<Rightarrow> 's PartitionTable" where
  "pt_enqueueStatsUpdate env updater p =
     (if length (pt_updateStats p) < 10 \<and> \<not> te_skip env updater
      then p\<lparr>pt_updateStats := pt_updateStats p @ [updater]\<rparr> else p)"

definition update_input :: "nat \<Rightarrow> (InputStats \<Rightarrow> InputStats) \<Rightarrow> stats_heap \<Rightarrow> stats_heap" where
  "update_input i f h = h\<lparr>h_input := (h_input h)[i := f (h_input h ! i)]\<rparr>"

definition update_recovery :: "nat \<Rightarrow> (RecoveryStats \<Rightarrow> RecoveryStats) \<Rightarrow> stats_heap \<Rightarrow> stats_heap" where
  "update_recovery i f h = h\<lparr>h_recovery := (h_recovery h)[i := f (h_recovery h ! i)]\<rparr>"

definition pt_trackIncomingMessageStats ::
  "int \<Rightarrow> ConsumerMessage \<Rightarrow> 's PartitionTable \<Rightarrow> 's PartitionTable" where
  "pt_trackIncomingMessageStats now msg p =
     (let track = (\<lambda>ip.
            let ip = ip\<lparr>is_Bytes := wrap64 (is_Bytes ip + int (length (slice_bytes (msg_Value msg)))),
                        is_LastOffset := msg_Offset msg\<rparr>;
                ip = (case msg_Timestamp msg of None \<Rightarrow> ip | Some t \<Rightarrow> ip\<lparr>is_Delay := now - t\<rparr>)
            in ip\<lparr>is_Count := wrap_uint (is_Count ip + 1)\<rparr>)
      in p\<lparr>pt_heap := update_input (ts_Input (pt_stats p)) track (pt_heap p),
           pt_stats := (pt_stats p)\<lparr>ts_Stalled := False\<rparr>\<rparr>)"

fun run_stats_update :: "stats_update \<Rightarrow> 's PartitionTable \<Rightarrow> 's PartitionTable" where
  "run_stats_update (StatsRecoveryInit now hwm loadOffset) p =
     p\<lparr>pt_heap := update_recovery (ts_Recovery (pt_stats p))
        (\<lambda>r. r\<lparr>rs_StartTime := Some now, rs_Hwm := hwm, rs_Offset := loadOffset\<rparr>) (pt_heap p)\<rparr>"
| "run_stats_update (StatsRecoveryOffset off) p =
     p\<lparr>pt_heap := update_recovery (ts_Recovery (pt_stats p)) (\<lambda>r. r\<lparr>rs_Offset := off\<rparr>) (pt_heap p)\<rparr>"
| "run_stats_update (StatsRecoveryTime now) p =
     p\<lparr>pt_heap := update_recovery (ts_Recovery (pt_stats p)) (\<lambda>r. r\<lparr>rs_RecoveryTime := Some now\<rparr>) (pt_heap p)\<rparr>"
| "run_stats_update (StatsTrackMessage now msg) p = pt_trackIncomingMessageStats now msg p"
| "run_stats_update StatsStalled p = p\<lparr>pt_stats := (pt_stats p)\<lparr>ts_Stalled := True\<rparr>\<rparr>"
| "run_stats_update (StatsWrite len) p =
     (let i = ts_Writes (pt_stats p); h = pt_heap p; os = h_output h ! i
      in p\<lparr>pt_heap := h\<lparr>h_output := (h_output h)[i := os\<lparr>os_Bytes := wrap64 (os_Bytes os + len),
           os_Count := wrap_uint (os_Count os + 1)\<rparr>]\<rparr>\<rparr>)"

definition pt_TrackMessageWrite :: "'s table_env \<Rightarrow> int \<Rightarrow> 's PartitionTable \<Rightarrow> 's PartitionTable" where
  "pt_TrackMessageWrite env len p = pt_enqueueStatsUpdate env (StatsWrite len) p"

definition pt_updateHwmStats :: "'s table_env \<Rightarrow> 's PartitionTable \<Rightarrow> 's PartitionTable" where
  "pt_updateHwmStats env p =
     (let hwm = te_hwm env (pt_topic p) (pt_partition p)
      in if hwm \<noteq> 0
         then p\<lparr>pt_heap := update_input (ts_Input (pt_stats p))
                 (\<lambda>ip. ip\<lparr>is_OffsetLag := wrap64 (hwm - is_LastOffset ip)\<rparr>) (pt_heap p)\<rparr>
         else p)"

text \<open>A request is answered on a channel with one place. With the place taken the goroutine waits in
  the send: its answer stands second in the list, and the loop takes no other round until the first
  one is received (or the context ends).\<close>

definition pt_handleStatsRequest :: "'s PartitionTable \<Rightarrow> 's PartitionTable" where
  "pt_handleStatsRequest p =
     (case TableStats_clone (pt_heap p) (pt_stats p) of (h, stats) \<Rightarrow>
        p\<lparr>pt_heap := h, pt_responseStats := pt_responseStats p @ [stats\<lparr>ts_Status := pt_CurrentState p\<rparr>]\<rparr>)"

definition pt_RunStatsLoop_round :: "'s table_env \<Rightarrow> stats_round \<Rightarrow> 's PartitionTable \<Rightarrow> 's PartitionTable" where
  "pt_RunStatsLoop_round env r p =
     (if length (pt_responseStats p) > 1 then p
      else case r of
        StatsRequested \<Rightarrow> pt_handleStatsRequest p
      | StatsUpdated \<Rightarrow>
          (case pt_updateStats p of
             [] \<Rightarrow> p
           | u # us \<Rightarrow> run_stats_update u (p\<lparr>pt_updateStats := us\<rparr>))
      | StatsHwmTick \<Rightarrow> pt_updateHwmStats env p)"

text \<open>The two selects of \<open>fetchStats\<close>: each is left through the context, the timeout or the channel.
  The request channel has no buffer, so the request is accepted by a round of the loop; the loop goes on
  with the rounds \<open>rs\<close> before the answer is looked for. The outer \<open>None\<close>: the call cannot leave a select
  that way (the loop stands in a send, or there is no answer yet).\<close>

datatype fetch_case = FetchCtxDone | FetchTimeout | FetchChannel

definition pt_receiveStats ::
  "fetch_case \<Rightarrow> 's PartitionTable \<Rightarrow> ('s PartitionTable \<times> TableStats option) option" where
  "pt_receiveStats resp p =
     (case resp of
        FetchChannel \<Rightarrow>
          (case pt_responseStats p of
             [] \<Rightarrow> None
           | stats # rest \<Rightarrow> Some (p\<lparr>pt_responseStats := rest\<rparr>, Some stats))
      | _ \<Rightarrow> Some (p, None))"

definition pt_fetchStats ::
  "'s table_env \<Rightarrow> fetch_case \<Rightarrow> stats_round list \<Rightarrow> fetch_case \<Rightarrow> 's PartitionTable \<Rightarrow>
   ('s PartitionTable \<times> TableStats option) option" where
  "pt_fetchStats env req rs resp p =
     (case req of
        FetchChannel \<Rightarrow>
          if length (pt_responseStats p) > 1 then None
          else pt_receiveStats resp (fold (pt_RunStatsLoop_round env) (StatsRequested # rs) p)
      | _ \<Rightarrow> Some (p, None))"

subsection \<open>Waiting and observing\<close>

definition pt_observeStateChanges :: "'s PartitionTable \<Rightarrow> 's PartitionTable \<times> nat" where
  "pt_observeStateChanges p =
     (case Signal_ObserveStateChange (pt_state p) of (s, obs) \<Rightarrow> (p\<lparr>pt_state := s\<rparr>, obs))"

definition pt_WaitRecovered :: "'s PartitionTable \<Rightarrow> ('s PartitionTable \<times> nat) go" where
  "pt_WaitRecovered p =
     go_bind (Signal_WaitForState PartitionRunning (pt_state p)) (\<lambda>(s, ch). Ret (p\<lparr>pt_state := s\<rparr>, ch))"

subsection \<open>Setting up the storage\<close>

definition pt_createStorage ::
  "'s table_env \<Rightarrow> bool \<Rightarrow> 's PartitionTable \<Rightarrow> 's storageProxy option result go" where
  "pt_createStorage env ctxDone p =
     (case te_builder env (pt_topic p) (pt_partition p) of
        Inl err \<Rightarrow> Ret (Inl (Wrap ''error building storage: %v'' err))
      | Inr st \<Rightarrow>
          case st_Open (te_ops env) st of
            (st, Some err) \<Rightarrow>
              go_bind (st_Close (te_ops env) st) (\<lambda>(st, cerr).
                let es = Errors_Collect newErrors cerr;
                    es = Errors_Collect es (Some (Wrap ''error opening storage: %v'' err))
                in Ret (Inl (the (Errors_NilOrError es))))
          | (st, None) \<Rightarrow>
              if ctxDone then
                go_bind (st_Close (te_ops env) st) (\<lambda>(st, cerr).
                  case cerr of
                    None \<Rightarrow> Ret (Inr None)
                  | Some err \<Rightarrow>
                      let es = Errors_Collect newErrors (Some err);
                          es = Errors_Collect es (Some ErrContext)
                      in Ret (Inl (the (Errors_NilOrError es))))
              else Ret (Inr (Some \<lparr>px_Storage = st, px_topic = pt_topic p, px_partition = pt_partition p,
                     px_stateless = False, px_openedOnce = newOnce, px_closedOnce = newOnce\<rparr>)))"

definition pt_setup ::
  "'s table_env \<Rightarrow> bool \<Rightarrow> 's PartitionTable \<Rightarrow> ('s PartitionTable \<times> gerr option) go" where
  "pt_setup env ctxDone p =
     go_bind (pt_SetState env PartitionInitializing p) (\<lambda>p.
     go_bind (pt_createStorage env ctxDone p) (\<lambda>r.
       case r of
         Inl err \<Rightarrow>
           go_bind (pt_SetState env PartitionStopped p) (\<lambda>p.
             Ret (p, Some (Wrap ''error setting up partition table: %v'' err)))
       | Inr storage \<Rightarrow> Ret (p\<lparr>pt_st := storage\<rparr>, None)))"

definition pt_Close :: "'s table_env \<Rightarrow> 's PartitionTable \<Rightarrow> ('s PartitionTable \<times> gerr option) go" where
  "pt_Close env p =
     (if pt_st p \<noteq> None
      then go_bind (storageProxy_Close (te_ops env) (pt_st p)) (\<lambda>(st, e). Ret (p\<lparr>pt_st := st\<rparr>, e))
      else Ret (p, None))"

subsection \<open>Loading\<close>

definition pt_findOffsetToLoad :: "'s table_env \<Rightarrow> 's PartitionTable \<Rightarrow> int \<Rightarrow> (int \<times> int) result" where
  "pt_findOffsetToLoad env p storedOffset =
     (case te_GetOffset env (pt_topic p) (pt_partition p) OffsetOldest of
        Inl err \<Rightarrow> Inl (Wrap ''Error getting oldest offset for topic/partition %s/%d: %v'' err)
      | Inr oldest \<Rightarrow>
          case te_GetOffset env (pt_topic p) (pt_partition p) OffsetNewest of
            Inl err \<Rightarrow> Inl (Wrap ''Error getting newest offset for topic/partition %s/%d: %v'' err)
          | Inr hwm \<Rightarrow>
              let start = (if storedOffset = offsetNotStored then oldest else wrap64 (storedOffset + 1));
                  start = (if start < oldest then oldest else start)
              in Inr (start, hwm))"

definition pt_storeEvent ::
  "'s table_env \<Rightarrow> string \<Rightarrow> slice \<Rightarrow> int \<Rightarrow> Headers \<Rightarrow> 's PartitionTable \<Rightarrow>
   ('s PartitionTable \<times> gerr option) go" where
  "pt_storeEvent env key val off headers p =
     pt_with p (\<lambda>px.
       case storageProxy_Update (te_update env) px key val off headers of
         (px, Some err) \<Rightarrow>
           Ret (p\<lparr>pt_st := Some px\<rparr>,
                Some (Wrap ''Error from the update callback while recovering from the log: %v'' err))
       | (px, None) \<Rightarrow>
           (case st_SetOffset (te_ops env) (px_Storage px) off of
              (st, e) \<Rightarrow>
                Ret (p\<lparr>pt_st := Some (px\<lparr>px_Storage := st\<rparr>)\<rparr>,
                     map_option (Wrap ''Error updating offset in local storage while recovering from the log: %v'') e)))"

definition pt_markRecovered ::
  "'s table_env \<Rightarrow> 's PartitionTable \<Rightarrow> ('s PartitionTable \<times> gerr option) go" where
  "pt_markRecovered env p =
     go_bind (pt_SetState env PartitionPreparing p) (\<lambda>p.
       let p = pt_enqueueStatsUpdate env (StatsRecoveryTime (te_now env)) p
       in pt_with p (\<lambda>px.
         go_bind (storageProxy_MarkRecovered (te_ops env) px) (\<lambda>(px, e).
           let p = p\<lparr>pt_st := Some px\<rparr>
           in case te_mark env of
                MarkCtxDone \<Rightarrow> Ret (p, None)
              | MarkDone \<Rightarrow>
                  (case e of
                     Some err \<Rightarrow> Ret (p, Some err)
                   | None \<Rightarrow> go_bind (pt_SetState env PartitionRunning p) (\<lambda>p. Ret (p, None))))))"

text \<open>A round of \<open>handleConsumerErrors\<close>.\<close>

definition pt_handleConsumerError :: "gerr \<Rightarrow> Errors \<Rightarrow> Errors" where
  "pt_handleConsumerError consError es = Errors_Collect es (Some (Wrap ''Consumer error: %v'' consError))"

definition pt_drainConsumer :: "gerr list \<Rightarrow> Errors \<Rightarrow> Errors" where
  "pt_drainConsumer drained es = fold (\<lambda>err es. Errors_Collect es (Some err)) drained es"

text \<open>The loop returns the table, the errors of the caller's collector and its own error.\<close>

fun pt_loadMessages ::
  "'s table_env \<Rightarrow> int \<Rightarrow> bool \<Rightarrow> load_event list \<Rightarrow> int \<Rightarrow> Errors \<Rightarrow> 's PartitionTable \<Rightarrow>
   ('s PartitionTable \<times> Errors \<times> gerr option) option go" where
  "pt_loadMessages env hwm stop [] lastMessage cerrs p = Ret None"
| "pt_loadMessages env hwm stop (EvClosed # evs) lastMessage cerrs p = Ret (Some (p, cerrs, None))"
| "pt_loadMessages env hwm stop (EvMessage now None # evs) lastMessage cerrs p =
     pt_loadMessages env hwm stop evs lastMessage cerrs p"
| "pt_loadMessages env hwm stop (EvMessage now (Some msg) # evs) lastMessage cerrs p =
     (if Signal_IsState (pt_state p) PartitionRunning \<and> stop
      then pt_loadMessages env hwm stop evs lastMessage cerrs p
      else go_bind (pt_storeEvent env (slice_bytes (msg_Key msg)) (msg_Value msg) (msg_Offset msg)
              (FromSarama (msg_Headers msg)) p) (\<lambda>(p, e).
        case e of
          Some err \<Rightarrow>
            Ret (Some (p, cerrs, Errors_NilOrError (Errors_Collect newErrors
              (Some (Wrap ''load: error updating storage: %v'' err)))))
        | None \<Rightarrow>
            let p = (if stop then pt_enqueueStatsUpdate env (StatsRecoveryOffset (msg_Offset msg)) p else p);
                p = pt_enqueueStatsUpdate env (StatsTrackMessage now msg) p
            in if stop \<and> msg_Offset msg \<ge> wrap64 (hwm - 1) then Ret (Some (p, cerrs, None))
               else pt_loadMessages env hwm stop evs now cerrs p))"
| "pt_loadMessages env hwm stop (EvStall now # evs) lastMessage cerrs p =
     pt_loadMessages env hwm stop evs lastMessage cerrs
       (if now - lastMessage > pt_stalledTimeout p then pt_enqueueStatsUpdate env StatsStalled p else p)"
| "pt_loadMessages env hwm stop (EvDone # evs) lastMessage cerrs p = Ret (Some (p, cerrs, None))"
| "pt_loadMessages env hwm stop (EvConsError err # evs) lastMessage cerrs p =
     pt_loadMessages env hwm stop evs lastMessage (pt_handleConsumerError err cerrs) p"
| "pt_loadMessages env hwm stop (EvStats r # evs) lastMessage cerrs p =
     pt_loadMessages env hwm stop evs lastMessage cerrs (pt_RunStatsLoop_round env r p)"

definition pt_load ::
  "'s table_env \<Rightarrow> bool \<Rightarrow> 's PartitionTable \<Rightarrow> ('s PartitionTable \<times> gerr option) option go" where
  "pt_load env stop p =
     go_bind (pt_SetState env PartitionConnecting p) (\<lambda>p.
     pt_with p (\<lambda>px.
       let fail = (\<lambda>err. Ret (Some (p, Errors_NilOrError (Errors_Collect newErrors (Some err)))))
       in case st_GetOffset (te_ops env) (px_Storage px) offsetNotStored of
         Inl err \<Rightarrow> fail (Wrap ''error reading local offset: %v'' err)
       | Inr storedOffset \<Rightarrow>
       (case pt_findOffsetToLoad env p storedOffset of
         Inl err \<Rightarrow> fail err
       | Inr (loadOffset, hwm) \<Rightarrow>
         if storedOffset > 0 \<and> hwm = 0
         then fail (Err ''kafka tells us there is no message in the topic, but our cache has one'')
         else
           let loadOffset = (if storedOffset \<ge> hwm then hwm else loadOffset);
               p = (if stop then pt_enqueueStatsUpdate env (StatsRecoveryInit (te_now env) hwm loadOffset) p
                    else p)
           in if stop \<and> loadOffset \<ge> hwm
              then go_bind (pt_markRecovered env p) (\<lambda>(p, e).
                     Ret (Some (p, Errors_NilOrError (Errors_Collect newErrors e))))
              else case te_ConsumePartition env (pt_topic p) (pt_partition p) loadOffset of
                Inl err \<Rightarrow>
                  Ret (Some (p, Errors_NilOrError (Errors_Collect newErrors
                    (Some (Wrap ''Error creating partition consumer for topic %s, partition %d, offset %d: %v'' err)))))
              | Inr cons \<Rightarrow>
                  go_bind (pt_SetState env (if stop then PartitionRecovering else PartitionRunning) p) (\<lambda>p.
                  go_bind (pt_loadMessages env hwm stop (cs_events cons) (te_now env) newErrors p) (\<lambda>r.
                    case r of
                      None \<Rightarrow> Ret None
                    | Some (p, es, Some loadErr) \<Rightarrow>
                        Ret (Some (p, Errors_NilOrError (pt_drainConsumer (cs_drained cons)
                          (Errors_Collect es (Some loadErr)))))
                    | Some (p, es, None) \<Rightarrow>
                        if stop
                        then go_bind (pt_markRecovered env p) (\<lambda>(p, e).
                          Ret (Some (pt_enqueueStatsUpdate env (StatsRecoveryTime (te_now env)) p,
                            Errors_NilOrError (pt_drainConsumer (cs_drained cons) (Errors_Collect es e)))))
                        else Ret (Some (p, Errors_NilOrError (pt_drainConsumer (cs_drained cons) es))))))))"

text \<open>The attempts of \<open>loadRestarting\<close>: the environment of each call of \<open>load\<close>, whether the timer
  that resets the backoff fires before the next failure, and whether the context ends during the
  wait.\<close>

record 's attempt =
  at_env :: "'s table_env"
  at_reset :: bool
  at_ctxDone :: bool

fun pt_loadRestarting ::
  "'b backoff_ops \<Rightarrow> 's attempt list \<Rightarrow> bool \<Rightarrow> 'b \<Rightarrow> 's PartitionTable \<Rightarrow>
   ('b \<times> 's PartitionTable \<times> gerr option) option go" where
  "pt_loadRestarting bo [] stop b p = Ret None"
| "pt_loadRestarting bo (a # as) stop b p =
     go_bind (pt_load (at_env a) stop p) (\<lambda>r.
       case r of
         None \<Rightarrow> Ret None
       | Some (p, None) \<Rightarrow> Ret (Some (b, p, None))
       | Some (p, Some err) \<Rightarrow>
           (case bo_Duration bo b of (b, retryDuration) \<Rightarrow>
              if at_ctxDone a then Ret (Some (b, p, None))
              else pt_loadRestarting bo as stop (if at_reset a then bo_Reset bo b else b) p))"

text \<open>\<open>SetupAndRecover\<close> without restarts; the flags say whether the context has ended when the
  storage has been opened, and after \<open>setup\<close>.\<close>

definition pt_SetupAndRecover ::
  "'s table_env \<Rightarrow> bool \<Rightarrow> bool \<Rightarrow> 's PartitionTable \<Rightarrow> ('s PartitionTable \<times> gerr option) option go" where
  "pt_SetupAndRecover env ctxDone1 ctxDone2 p =
     go_bind (pt_setup env ctxDone1 p) (\<lambda>(p, e).
       case e of
         Some err \<Rightarrow> Ret (Some (p, Some err))
       | None \<Rightarrow> if ctxDone1 \<or> ctxDone2 then Ret (Some (p, None)) else pt_load env True p)"

definition pt_SetupAndRecover_restarting ::
  "'b backoff_ops \<Rightarrow> 's table_env \<Rightarrow> 's attempt list \<Rightarrow> bool \<Rightarrow> bool \<Rightarrow> 'b \<Rightarrow> 's PartitionTable \<Rightarrow>
   ('b \<times> 's PartitionTable \<times> gerr option) option go" where
  "pt_SetupAndRecover_restarting bo env attempts ctxDone1 ctxDone2 b p =
     go_bind (pt_setup env ctxDone1 p) (\<lambda>(p, e).
       case e of
         Some err \<Rightarrow> Ret (Some (b, p, Some err))
       | None \<Rightarrow> if ctxDone1 \<or> ctxDone2 then Ret (Some (b, p, None))
                 else pt_loadRestarting bo attempts True b p)"

definition pt_CatchupForever ::
  "'s table_env \<Rightarrow> 's PartitionTable \<Rightarrow> ('s PartitionTable \<times> gerr option) option go" where
  "pt_CatchupForever env p = pt_load env False p"

definition pt_CatchupForever_restarting ::
  "'b backoff_ops \<Rightarrow> 's attempt list \<Rightarrow> 'b \<Rightarrow> 's PartitionTable \<Rightarrow>
   ('b \<times> 's PartitionTable \<times> gerr option) option go" where
  "pt_CatchupForever_restarting bo attempts b p = pt_loadRestarting bo attempts False b p"

subsection \<open>Access\<close>

definition pt_readyToRead :: "'s PartitionTable \<Rightarrow> gerr option" where
  "pt_readyToRead p =
     (if pt_CurrentState p \<noteq> PartitionRunning
      then Some (Err ''Partition is not running (but %v) so it's not safe to read values'') else None)"

definition pt_Get :: "'s storage_ops \<Rightarrow> string \<Rightarrow> 's PartitionTable \<Rightarrow> slice result go" where
  "pt_Get ops key p =
     (case pt_readyToRead p of
        Some err \<Rightarrow> Ret (Inl err)
      | None \<Rightarrow> pt_with p (\<lambda>px. Ret (st_Get ops (px_Storage px) key)))"

definition pt_Has :: "'s storage_ops \<Rightarrow> string \<Rightarrow> 's PartitionTable \<Rightarrow> bool result go" where
  "pt_Has ops key p =
     (case pt_readyToRead p of
        Some err \<Rightarrow> Ret (Inl err)
      | None \<Rightarrow> pt_with p (\<lambda>px. Ret (st_Has ops (px_Storage px) key)))"

text \<open>The storage's own \<open>Iterator\<close> and \<open>IteratorWithRange\<close> are arguments.\<close>

definition pt_Iterator :: "('s \<Rightarrow> 'i result) \<Rightarrow> 's PartitionTable \<Rightarrow> 'i result go" where
  "pt_Iterator mk p =
     (case pt_readyToRead p of
        Some err \<Rightarrow> Ret (Inl err)
      | None \<Rightarrow> pt_with p (\<lambda>px. Ret (mk (px_Storage px))))"

definition pt_IteratorWithRange ::
  "('s \<Rightarrow> slice \<Rightarrow> slice \<Rightarrow> 'i result) \<Rightarrow> slice \<Rightarrow> slice \<Rightarrow> 's PartitionTable \<Rightarrow> 'i result go" where
  "pt_IteratorWithRange mk start limit p =
     (case pt_readyToRead p of
        Some err \<Rightarrow> Ret (Inl err)
      | None \<Rightarrow> pt_with p (\<lambda>px. Ret (mk (px_Storage px) start limit)))"

definition pt_Set ::
  "'s storage_ops \<Rightarrow> string \<Rightarrow> slice \<Rightarrow> 's PartitionTable \<Rightarrow> ('s PartitionTable \<times> gerr option) go" where
  "pt_Set ops key val p =
     pt_with p (\<lambda>px. case st_Set ops (px_Storage px) key val of
       (st, e) \<Rightarrow> Ret (p\<lparr>pt_st := Some (px\<lparr>px_Storage := st\<rparr>)\<rparr>, e))"

definition pt_Delete ::
  "'s storage_ops \<Rightarrow> string \<Rightarrow> 's PartitionTable \<Rightarrow> ('s PartitionTable \<times> gerr option) go" where
  "pt_Delete ops key p =
     pt_with p (\<lambda>px. case st_Delete ops (px_Storage px) key of
       (st, e) \<Rightarrow> Ret (p\<lparr>pt_st := Some (px\<lparr>px_Storage := st\<rparr>)\<rparr>, e))"

definition pt_SetOffset ::
  "'s storage_ops \<Rightarrow> int \<Rightarrow> 's PartitionTable \<Rightarrow> ('s PartitionTable \<times> gerr option) go" where
  "pt_SetOffset ops val p =
     pt_with p (\<lambda>px. case st_SetOffset ops (px_Storage px) val of
       (st, e) \<Rightarrow> Ret (p\<lparr>pt_st := Some (px\<lparr>px_Storage := st\<rparr>)\<rparr>, e))"

definition pt_GetOffset :: "'s storage_ops \<Rightarrow> int \<Rightarrow> 's PartitionTable \<Rightarrow> int result go" where
  "pt_GetOffset ops defValue p = pt_with p (\<lambda>px. Ret (st_GetOffset ops (px_Storage px) defValue))"

definition pt_storeNewestOffset ::
  "'s storage_ops \<Rightarrow> int \<Rightarrow> 's PartitionTable \<Rightarrow> ('s PartitionTable \<times> gerr option) go" where
  "pt_storeNewestOffset ops newOffset p =
     go_bind (pt_GetOffset ops offsetNotStored p) (\<lambda>r.
       case r of
         Inl err \<Rightarrow> Ret (p, Some err)
       | Inr oldOffset \<Rightarrow>
           if offsetNotStored \<noteq> oldOffset \<and> oldOffset \<le> newOffset
           then pt_SetOffset ops newOffset p else Ret (p, None))"

section \<open>States\<close>

text \<open>A signal whose waiters are not closed yet, so that setting an allowed state cannot panic.\<close>

definition states_ok :: "Signal \<Rightarrow> bool" where
  "states_ok s \<longleftrightarrow> {PartitionStopped, PartitionInitializing, PartitionConnecting, PartitionRecovering,
     PartitionPreparing, PartitionRunning} \<subseteq> set (sig_allowedStates s) \<and>
     distinct (map w_done (sig_waiters s)) \<and> w_done ` set (sig_waiters s) \<inter> set (sig_closed s) = {}"

lemma close_waiters_ok:
  assumes "distinct (map w_done (acc @ ws))" and "w_done ` set (acc @ ws) \<inter> set cl = {}"
  shows "\<exists>nw cl'. close_waiters st ws acc cl = Ret (nw, cl') \<and> distinct (map w_done nw) \<and>
    w_done ` set nw \<inter> set cl' = {}"
  using assms
proof (induction ws arbitrary: acc cl)
  case (Cons w ws)
  show ?case
  proof (cases "waiter_satisfied st w")
    case True
    have "close_chan (w_done w) cl = Ret (cl @ [w_done w])"
      using Cons.prems(2) by (auto simp: close_chan_def)
    moreover have "distinct (map w_done (acc @ ws)) \<and> w_done ` set (acc @ ws) \<inter> set (cl @ [w_done w]) = {}"
      using Cons.prems by auto
    ultimately show ?thesis using Cons.IH [of acc "cl @ [w_done w]"] True by simp
  next
    case False
    then show ?thesis using Cons.IH [of "acc @ [w]" cl] Cons.prems by simp
  qed
qed simp

lemma pt_SetState_ok:
  assumes "states_ok (pt_state p)"
    and "st \<in> {PartitionStopped, PartitionInitializing, PartitionConnecting, PartitionRecovering,
     PartitionPreparing, PartitionRunning}"
  obtains s where "pt_SetState env st p = Ret (p\<lparr>pt_state := s\<rparr>)" and "states_ok s" and "sig_state s = st"
proof (cases "sig_state (pt_state p) = st")
  case True
  then show ?thesis
    using that [of "pt_state p"] assms
    by (auto simp: pt_SetState_def Signal_SetState_def states_ok_def)
next
  case False
  obtain nw cl where c: "close_waiters st (sig_waiters (pt_state p)) [] (sig_closed (pt_state p)) = Ret (nw, cl)"
    "distinct (map w_done nw)" "w_done ` set nw \<inter> set cl = {}"
    using close_waiters_ok [of "[]" "sig_waiters (pt_state p)" "sig_closed (pt_state p)" st] assms(1)
    unfolding states_ok_def by auto
  let ?s = "(pt_state p)\<lparr>sig_state := st, sig_waiters := nw, sig_closed := cl,
      sig_observers := map (Observer_notify (te_send env) cl st) (sig_observers (pt_state p))\<rparr>"
  have "Signal_SetState (te_send env) st (pt_state p) = Ret ?s"
    using False assms c(1) unfolding states_ok_def by (auto simp: Signal_SetState_def)
  then show ?thesis
    using that [of ?s] c assms(1) unfolding states_ok_def by (simp add: pt_SetState_def)
qed

section \<open>Recovery\<close>

text \<open>Replaying a log: every message sets its key, a message without a value deletes it.\<close>

definition replay :: "ConsumerMessage list \<Rightarrow> (string \<rightharpoonup> bytes) \<Rightarrow> (string \<rightharpoonup> bytes)" where
  "replay ms c = fold (\<lambda>m c. c(slice_bytes (msg_Key m) := msg_Value m)) ms c"

text \<open>The messages a script delivers, and the scripts without an error, an end of the context or a
  closed message channel.\<close>

fun messages :: "load_event list \<Rightarrow> ConsumerMessage list" where
  "messages [] = []"
| "messages (EvMessage now (Some m) # evs) = m # messages evs"
| "messages (e # evs) = messages evs"

fun quiet :: "load_event \<Rightarrow> bool" where
  "quiet (EvMessage now m) = True"
| "quiet (EvStall now) = True"
| "quiet (EvStats r) = True"
| "quiet e = False"

text \<open>The parts of a table that the statistics do not touch.\<close>

definition same_table :: "'s PartitionTable \<Rightarrow> 's PartitionTable \<Rightarrow> bool" where
  "same_table p q \<longleftrightarrow> pt_topic p = pt_topic q \<and> pt_partition p = pt_partition q \<and>
     pt_state p = pt_state q \<and> pt_st p = pt_st q"

lemma same_table_refl [simp]: "same_table p p"
  by (simp add: same_table_def)

lemma same_table_trans: "same_table p q \<Longrightarrow> same_table q r \<Longrightarrow> same_table p r"
  by (simp add: same_table_def)

lemma same_table_enqueue [simp]: "same_table (pt_enqueueStatsUpdate env u p) p"
  by (simp add: same_table_def pt_enqueueStatsUpdate_def)

lemma same_table_update: "same_table (run_stats_update u p) p"
  by (cases u) (simp_all add: same_table_def pt_trackIncomingMessageStats_def Let_def)

lemma same_table_round [simp]: "same_table (pt_RunStatsLoop_round env r p) p"
proof (cases r)
  case StatsRequested
  then show ?thesis
    by (simp add: pt_RunStatsLoop_round_def pt_handleStatsRequest_def same_table_def Let_def
        split: prod.splits)
next
  case StatsUpdated
  moreover have "same_table (run_stats_update u (p\<lparr>pt_updateStats := us\<rparr>)) p" for u us
    by (rule same_table_trans [OF same_table_update]) (simp add: same_table_def)
  ultimately show ?thesis by (simp add: pt_RunStatsLoop_round_def split: list.splits)
next
  case StatsHwmTick
  then show ?thesis
    by (simp add: pt_RunStatsLoop_round_def pt_updateHwmStats_def same_table_def Let_def)
qed

text \<open>The statistics a request takes. With no answer left over a fetch returns those of its own request.
  A fetch that gave up after its request was accepted leaves its answer in the channel; from then on
  every fetch returns the statistics of the request before it.\<close>

definition pt_snapshot :: "'s PartitionTable \<Rightarrow> TableStats" where
  "pt_snapshot p = (snd (TableStats_clone (pt_heap p) (pt_stats p)))\<lparr>ts_Status := pt_CurrentState p\<rparr>"

lemma handleStatsRequest_responds:
  "pt_responseStats (pt_handleStatsRequest p) = pt_responseStats p @ [pt_snapshot p]"
  by (simp add: pt_handleStatsRequest_def pt_snapshot_def split: prod.splits)

lemma run_stats_update_responses: "pt_responseStats (run_stats_update u p) = pt_responseStats p"
  by (cases u) (simp_all add: pt_trackIncomingMessageStats_def Let_def)

lemma round_responses:
  "r \<noteq> StatsRequested \<Longrightarrow> pt_responseStats (pt_RunStatsLoop_round env r p) = pt_responseStats p"
  by (cases r) (auto simp: pt_RunStatsLoop_round_def run_stats_update_responses pt_updateHwmStats_def Let_def
      split: list.splits)

lemma rounds_responses:
  "StatsRequested \<notin> set rs \<Longrightarrow> pt_responseStats (fold (pt_RunStatsLoop_round env) rs p) = pt_responseStats p"
  by (induction rs arbitrary: p) (auto simp: round_responses)

lemma rounds_blocked:
  "length (pt_responseStats p) > 1 \<Longrightarrow> fold (pt_RunStatsLoop_round env) rs p = p"
  by (induction rs) (simp_all add: pt_RunStatsLoop_round_def)

lemma fetch_stats_fresh:
  assumes "pt_responseStats p = []" and "StatsRequested \<notin> set rs"
  shows "\<exists>q. pt_fetchStats env FetchChannel rs FetchChannel p = Some (q, Some (pt_snapshot p)) \<and> pt_responseStats q = []"
  using assms rounds_responses [OF assms(2), of env "pt_handleStatsRequest p"]
  by (simp add: pt_fetchStats_def pt_receiveStats_def pt_RunStatsLoop_round_def handleStatsRequest_responds)

lemma fetch_stats_timeout:
  assumes "pt_responseStats p = []" and "StatsRequested \<notin> set rs"
  shows "\<exists>q. pt_fetchStats env FetchChannel rs FetchTimeout p = Some (q, None) \<and> pt_responseStats q = [pt_snapshot p]"
  using assms rounds_responses [OF assms(2), of env "pt_handleStatsRequest p"]
  by (simp add: pt_fetchStats_def pt_receiveStats_def pt_RunStatsLoop_round_def handleStatsRequest_responds)

lemma fetch_stats_behind:
  assumes "pt_responseStats p = [old]"
  shows "\<exists>q. pt_fetchStats env FetchChannel rs FetchChannel p = Some (q, Some old) \<and> pt_responseStats q = [pt_snapshot p]"
  using assms rounds_blocked [of "pt_handleStatsRequest p" env rs]
  by (simp add: pt_fetchStats_def pt_receiveStats_def pt_RunStatsLoop_round_def handleStatsRequest_responds)

lemma replay_append: "replay (a @ b) c = replay b (replay a c)"
  by (simp add: replay_def)

lemma split_by_offset:
  fixes f :: "'a \<Rightarrow> int"
  shows "sorted_wrt (<) (map f xs) \<Longrightarrow> filter (\<lambda>x. f x \<le> n) xs @ filter (\<lambda>x. n < f x) xs = xs"
proof (induction xs)
  case (Cons x xs)
  show ?case
  proof (cases "f x \<le> n")
    case False
    with Cons.prems have "\<forall>y \<in> set (x # xs). n < f y" by auto
    then have "filter (\<lambda>x. f x \<le> n) (x # xs) = []" "filter (\<lambda>x. n < f x) (x # xs) = x # xs"
      by (auto simp: filter_empty_conv intro!: filter_True)
    then show ?thesis by simp
  qed (use Cons in simp)
qed simp

text \<open>The messages of a log that a broker holds: in strictly increasing order of their offsets, all
  below the high watermark, the last one right below it.\<close>

definition log_upto :: "int \<Rightarrow> int \<Rightarrow> ConsumerMessage list \<Rightarrow> bool" where
  "log_upto oldest hwm log \<longleftrightarrow> 0 \<le> oldest \<and> oldest \<le> hwm \<and> hwm < 2 ^ 63 \<and>
     sorted_wrt (<) (map msg_Offset log) \<and> (\<forall>m \<in> set log. 0 \<le> msg_Offset m \<and> msg_Offset m < hwm) \<and>
     (oldest < hwm \<longrightarrow> log \<noteq> [] \<and> msg_Offset (last log) = hwm - 1)"

text \<open>The broker's answers about one partition: its offsets, and a consumer that delivers the messages
  from a given offset on.\<close>

definition serves ::
  "'s table_env \<Rightarrow> 's PartitionTable \<Rightarrow> int \<Rightarrow> int \<Rightarrow> ConsumerMessage list \<Rightarrow> bool" where
  "serves env p oldest hwm log \<longleftrightarrow>
     te_GetOffset env (pt_topic p) (pt_partition p) OffsetOldest = Inr oldest \<and>
     te_GetOffset env (pt_topic p) (pt_partition p) OffsetNewest = Inr hwm \<and>
     (\<forall>off. oldest \<le> off \<and> off < hwm \<longrightarrow>
        (\<exists>cons. te_ConsumePartition env (pt_topic p) (pt_partition p) off = Inr cons \<and>
           (\<forall>e \<in> set (cs_events cons). quiet e) \<and> cs_drained cons = [] \<and>
           messages (cs_events cons) = filter (\<lambda>m. off \<le> msg_Offset m) log))"

lemma log_suffix:
  assumes "log_upto oldest hwm log" and "n < hwm - 1" and "oldest < hwm"
  obtains pre where "filter (\<lambda>m. n < msg_Offset m) log = pre @ [last log]"
    and "\<forall>x \<in> set pre. msg_Offset x < hwm - 1" and "set pre \<subseteq> set log"
proof -
  have log: "log \<noteq> []" "msg_Offset (last log) = hwm - 1" "sorted_wrt (<) (map msg_Offset log)"
    using assms(1,3) unfolding log_upto_def by auto
  then have split: "log = butlast log @ [last log]" by simp
  have "sorted_wrt (<) (map msg_Offset (butlast log @ [last log]))" using log(3) split by simp
  then have "\<forall>x \<in> set (butlast log). msg_Offset x < hwm - 1"
    using log(2) by (auto simp: sorted_wrt_append)
  moreover have "filter (\<lambda>m. n < msg_Offset m) log = filter (\<lambda>m. n < msg_Offset m) (butlast log) @ [last log]"
    using assms(2) log(2) by (subst split) simp
  ultimately show ?thesis
    using that [of "filter (\<lambda>m. n < msg_Offset m) (butlast log)"] in_set_butlastD by fastforce
qed

context kv_storage
begin

text \<open>A table with a storage that satisfies the contract.\<close>

definition table_ok :: "'s PartitionTable \<Rightarrow> bool" where
  "table_ok p \<longleftrightarrow> states_ok (pt_state p) \<and> (\<exists>px. pt_st p = Some px \<and> invar (px_Storage px))"

definition table_contents :: "'s PartitionTable \<Rightarrow> (string \<rightharpoonup> bytes)" where
  "table_contents p = contents (px_Storage (the (pt_st p)))"

definition table_offset :: "'s PartitionTable \<Rightarrow> int option" where
  "table_offset p = offset (px_Storage (the (pt_st p)))"

definition table_fresh :: "'s PartitionTable \<Rightarrow> bool" where
  "table_fresh p = fresh (px_Storage (the (pt_st p)))"

definition table_offset_ok :: "'s PartitionTable \<Rightarrow> int \<Rightarrow> bool" where
  "table_offset_ok p = offset_ok (px_Storage (the (pt_st p)))"

lemma same_table_abs:
  assumes "same_table p q"
  shows "table_ok p = table_ok q" and "table_contents p = table_contents q"
    and "table_offset p = table_offset q" and "table_fresh p = table_fresh q"
    and "table_offset_ok p = table_offset_ok q" and "pt_state p = pt_state q"
  using assms by (simp_all add: same_table_def table_ok_def table_contents_def table_offset_def
      table_fresh_def table_offset_ok_def)

text \<open>Storing a message with the default callback.\<close>

lemma storeEvent_ok:
  assumes ok: "table_ok p" and key: "key \<notin> reserved" and off: "int64 off"
    and env: "te_ops env = ops" "te_update env = DefaultUpdate ops"
  obtains q where "pt_storeEvent env key val off hs p = Ret (q, None)" and "table_ok q"
    and "table_contents q = (table_contents p)(key := val)"
    and "table_offset_ok p off \<Longrightarrow> table_offset q = Some off"
    and "table_fresh q = table_fresh p" and "table_offset_ok q = table_offset_ok p"
    and "pt_state q = pt_state p" and "pt_topic q = pt_topic p" and "pt_partition q = pt_partition p"
proof -
  obtain px where px: "pt_st p = Some px" "invar (px_Storage px)"
    using ok unfolding table_ok_def by blast
  let ?ctx = "\<lparr>uc_topic = px_topic px, uc_key = key, uc_partition = px_partition px, uc_offset = off,
      uc_value = val, uc_headers = hs, uc_saramaHeaders = []\<rparr>"
  obtain s e where u: "DefaultUpdate ops ?ctx (px_Storage px) = (s, e)"
    by (cases "DefaultUpdate ops ?ctx (px_Storage px)")
  have s: "e = None \<and> invar s \<and> contents s = (contents (px_Storage px))(key := val) \<and>
      offset s = offset (px_Storage px) \<and> fresh s = fresh (px_Storage px) \<and>
      offset_ok s = offset_ok (px_Storage px)"
  proof (cases val)
    case None
    then show ?thesis using delete [OF px(2) key, of s e] u by (simp add: DefaultUpdate_def)
  next
    case (Some v)
    then show ?thesis using set [OF px(2) key, of v s e] u by (simp add: DefaultUpdate_def)
  qed
  obtain s' e' where o': "st_SetOffset ops s off = (s', e')" by (cases "st_SetOffset ops s off")
  have s': "e' = None \<and> invar s' \<and> contents s' = contents s \<and> (offset_ok s off \<longrightarrow> offset s' = Some off) \<and>
      fresh s' = fresh s \<and> offset_ok s' = offset_ok s"
    using set_offset [OF _ off o'] s by blast
  let ?q = "p\<lparr>pt_st := Some (px\<lparr>px_Storage := s'\<rparr>)\<rparr>"
  have "pt_storeEvent env key val off hs p = Ret (?q, None)"
    using px(1) u o' s s' env by (simp add: pt_storeEvent_def pt_with_def storageProxy_Update_def)
  moreover have "table_ok ?q" using ok s' by (simp add: table_ok_def)
  ultimately show ?thesis
    using that [of ?q] s s' px(1)
    by (simp add: table_contents_def table_offset_def table_fresh_def table_offset_ok_def)
qed

text \<open>The loop applies the messages up to the first one at or above the last offset, and stops there.\<close>

lemma loadMessages_recovers:
  assumes env: "te_ops env = ops" "te_update env = DefaultUpdate ops" and hwm: "0 \<le> hwm" "int64 hwm"
    and m: "hwm - 1 \<le> msg_Offset m" "slice_bytes (msg_Key m) \<notin> reserved" "int64 (msg_Offset m)"
    and "table_ok p" and "\<not> Signal_IsState (pt_state p) PartitionRunning" and "\<forall>e \<in> set evs. quiet e"
    and "messages evs = pre @ m # rest"
    and "\<forall>x \<in> set pre. msg_Offset x < hwm - 1 \<and> slice_bytes (msg_Key x) \<notin> reserved \<and> int64 (msg_Offset x)"
  shows "\<exists>q. pt_loadMessages env hwm True evs lastMessage cerrs p = Ret (Some (q, cerrs, None)) \<and>
    table_ok q \<and> table_contents q = replay (pre @ [m]) (table_contents p) \<and>
    (table_offset_ok p (msg_Offset m) \<longrightarrow> table_offset q = Some (msg_Offset m)) \<and>
    table_fresh q = table_fresh p \<and> table_offset_ok q = table_offset_ok p \<and> pt_state q = pt_state p"
  using assms(8-)
proof (induction evs arbitrary: p pre lastMessage)
  case (Cons e evs)
  have skip: ?case if step: "pt_loadMessages env hwm True (e # evs) lastMessage cerrs p =
      pt_loadMessages env hwm True evs l cerrs q" and same: "same_table q p" and "messages (e # evs) = messages evs"
    for l q
    using Cons.IH [of q pre l] Cons.prems that by (simp add: same_table_abs [OF same])
  show ?case
  proof (cases e)
    case (EvMessage now mo)
    show ?thesis
    proof (cases mo)
      case None
      with EvMessage skip [of lastMessage p] show ?thesis by simp
    next
      case (Some m0)
      have m0: "slice_bytes (msg_Key m0) \<notin> reserved" "int64 (msg_Offset m0)"
        using Cons.prems(4,5) m EvMessage Some by (cases pre; simp)+
      obtain q where q: "pt_storeEvent env (slice_bytes (msg_Key m0)) (msg_Value m0) (msg_Offset m0)
          (FromSarama (msg_Headers m0)) p = Ret (q, None)" "table_ok q"
        "table_contents q = (table_contents p)(slice_bytes (msg_Key m0) := msg_Value m0)"
        "table_offset_ok p (msg_Offset m0) \<Longrightarrow> table_offset q = Some (msg_Offset m0)"
        "table_fresh q = table_fresh p" "table_offset_ok q = table_offset_ok p" "pt_state q = pt_state p"
        using storeEvent_ok [OF Cons.prems(1) m0 env] by metis
      let ?q = "pt_enqueueStatsUpdate env (StatsTrackMessage now m0)
          (pt_enqueueStatsUpdate env (StatsRecoveryOffset (msg_Offset m0)) q)"
      have "same_table ?q q" by (rule same_table_trans [OF same_table_enqueue same_table_enqueue])
      note qq = same_table_abs [OF this]
      have w: "wrap64 (hwm - 1) = hwm - 1" using hwm by (intro wrap64_id) simp
      have step: "pt_loadMessages env hwm True (e # evs) lastMessage cerrs p =
          (if hwm - 1 \<le> msg_Offset m0 then Ret (Some (?q, cerrs, None))
           else pt_loadMessages env hwm True evs now cerrs ?q)"
        using EvMessage Some Cons.prems(2) q(1) by (simp add: w)
      show ?thesis
      proof (cases pre)
        case Nil
        then have "m0 = m" using Cons.prems(4) EvMessage Some by simp
        then have "pt_loadMessages env hwm True (e # evs) lastMessage cerrs p = Ret (Some (?q, cerrs, None))"
          using step m(1) by simp
        moreover have "replay (pre @ [m]) (table_contents p) = table_contents q"
          using Nil q(3) \<open>m0 = m\<close> by (simp add: replay_def)
        ultimately show ?thesis using q qq \<open>m0 = m\<close> by metis
      next
        case (Cons x pre')
        then have x: "x = m0" "messages evs = pre' @ m # rest"
          using Cons.prems(4) EvMessage Some by simp_all
        have "msg_Offset m0 < hwm - 1" using Cons.prems(5) Cons x by simp
        then have step': "pt_loadMessages env hwm True (e # evs) lastMessage cerrs p =
            pt_loadMessages env hwm True evs now cerrs ?q" using step by simp
        obtain r where r: " pt_loadMessages env hwm True evs now cerrs ?q = Ret (Some (r, cerrs, None))" "table_ok r"
            "table_contents r = replay (pre' @ [m]) (table_contents ?q)"
            "table_offset_ok ?q (msg_Offset m) \<Longrightarrow> table_offset r = Some (msg_Offset m)"
            "table_fresh r = table_fresh ?q" "table_offset_ok r = table_offset_ok ?q" "pt_state r = pt_state ?q"
          using Cons.IH [of ?q pre' now] Cons.prems(2,3,5) q(2,7) qq(1,6) Cons x by auto
        have "replay (pre @ [m]) (table_contents p) = table_contents r"
          using r(3) qq(2) q(3) Cons x by (simp add: replay_def)
        with step' r q(5,6,7) qq(4,5,6) show ?thesis by metis
      qed
    qed
  next
    case (EvStall now)
    with skip [of lastMessage "if now - lastMessage > pt_stalledTimeout p
        then pt_enqueueStatsUpdate env StatsStalled p else p"] show ?thesis by simp
  next
    case (EvStats r)
    with skip [of lastMessage "pt_RunStatsLoop_round env r p"] show ?thesis by simp
  qed (use Cons.prems(3) in simp_all)
qed simp

lemma markRecovered_ok:
  assumes "table_ok p" and "table_fresh p" and "te_ops env = ops" and "te_mark env = MarkDone"
  obtains q where "pt_markRecovered env p = Ret (q, None)" and "table_ok q" and "pt_IsRecovered q"
    and "table_contents q = table_contents p" and "table_offset q = table_offset p"
proof -
  let ?enq = "pt_enqueueStatsUpdate env (StatsRecoveryTime (te_now env))"
  have st: "states_ok (pt_state p)" using assms(1) unfolding table_ok_def by blast
  obtain s1 where s1: "pt_SetState env PartitionPreparing p = Ret (p\<lparr>pt_state := s1\<rparr>)" "states_ok s1"
    using pt_SetState_ok [OF st, of PartitionPreparing env] by blast
  let ?p1 = "?enq (p\<lparr>pt_state := s1\<rparr>)"
  obtain px where px: "pt_st p = Some px" "invar (px_Storage px)" using assms(1) unfolding table_ok_def by blast
  have p1: "pt_st ?p1 = Some px" "pt_state ?p1 = s1"
    using px(1) by (simp_all add: pt_enqueueStatsUpdate_def)
  obtain s' where s': "st_MarkRecovered ops (px_Storage px) = Ret (s', None)" "invar s'"
    "contents s' = contents (px_Storage px)" "offset s' = offset (px_Storage px)"
    using mark_recovered [OF px(2)] assms(2) px(1) by (auto simp: table_fresh_def)
  let ?p2 = "?p1\<lparr>pt_st := Some (px\<lparr>px_Storage := s'\<rparr>)\<rparr>"
  have "states_ok (pt_state ?p2)" using s1(2) p1(2) by simp
  then obtain s2 where s2: "pt_SetState env PartitionRunning ?p2 = Ret (?p2\<lparr>pt_state := s2\<rparr>)" "states_ok s2"
    "sig_state s2 = PartitionRunning"
    using pt_SetState_ok [of ?p2 PartitionRunning env] by blast
  let ?q = "?p2\<lparr>pt_state := s2\<rparr>"
  have "pt_markRecovered env p = Ret (?q, None)"
    using s1(1) p1(1) s'(1) s2(1) assms(3,4)
    by (simp add: pt_markRecovered_def pt_with_def storageProxy_MarkRecovered_def Let_def)
  then show ?thesis
    using that [of ?q] s' s2 px(1)
    by (simp add: table_ok_def pt_IsRecovered_def Signal_IsState_def table_contents_def table_offset_def)
qed

definition stored :: "'s PartitionTable \<Rightarrow> int" where
  "stored p = (case table_offset p of None \<Rightarrow> offsetNotStored | Some n \<Rightarrow> n)"

text \<open>Where loading starts.\<close>

lemma findOffset_start:
  assumes "serves env p oldest hwm log" and "log_upto oldest hwm log"
    and "\<forall>n. table_offset p = Some n \<longrightarrow> 0 \<le> n \<and> n < hwm"
    and "\<forall>m \<in> set log. stored p < msg_Offset m \<longrightarrow> oldest \<le> msg_Offset m"
  obtains start where "pt_findOffsetToLoad env p (stored p) = Inr (start, hwm)"
    and "oldest \<le> start" and "start \<le> hwm"
    and "\<forall>m \<in> set log. start \<le> msg_Offset m \<longleftrightarrow> stored p < msg_Offset m"
    and "start < hwm \<Longrightarrow> stored p < hwm - 1"
proof (cases "table_offset p")
  case None
  then have st: "stored p = offsetNotStored" by (simp add: stored_def)
  have b: "\<forall>m \<in> set log. 0 \<le> msg_Offset m" "oldest \<le> hwm" "0 \<le> oldest"
    using assms(2) unfolding log_upto_def by auto
  then have "\<forall>m \<in> set log. offsetNotStored < msg_Offset m" by (auto simp: offsetNotStored_def)
  then have "\<forall>m \<in> set log. oldest \<le> msg_Offset m \<longleftrightarrow> stored p < msg_Offset m"
    using assms(4) st by simp
  moreover have "pt_findOffsetToLoad env p (stored p) = Inr (oldest, hwm)"
    using assms(1) st by (simp add: pt_findOffsetToLoad_def serves_def Let_def)
  ultimately show ?thesis
    using that [of oldest] b st by (simp add: offsetNotStored_def)
next
  case (Some n)
  then have n: "stored p = n" "0 \<le> n" "n < hwm" using assms(3) by (auto simp: stored_def)
  have h: "hwm < 2 ^ 63" "0 \<le> oldest" "oldest \<le> hwm" using assms(2) unfolding log_upto_def by auto
  then have w: "wrap64 (n + 1) = n + 1" using n by (intro wrap64_id) simp
  let ?start = "max oldest (n + 1)"
  have "pt_findOffsetToLoad env p (stored p) = Inr (?start, hwm)"
    using assms(1) n w by (simp add: pt_findOffsetToLoad_def serves_def offsetNotStored_def Let_def max_def)
  moreover have "\<forall>m \<in> set log. ?start \<le> msg_Offset m \<longleftrightarrow> stored p < msg_Offset m"
    using assms(4) n by auto
  ultimately show ?thesis using that [of ?start] n h by auto
qed

lemma load_recovers:
  assumes env: "te_ops env = ops" "te_update env = DefaultUpdate ops" "te_mark env = MarkDone"
    and p: "table_ok p" "table_fresh p"
    and srv: "serves env p oldest hwm log" and log: "log_upto oldest hwm log"
    and keys: "\<forall>m \<in> set log. slice_bytes (msg_Key m) \<notin> reserved"
    and off: "\<forall>n. table_offset p = Some n \<longrightarrow> 0 \<le> n \<and> n < hwm"
    and kept: "\<forall>m \<in> set log. stored p < msg_Offset m \<longrightarrow> oldest \<le> msg_Offset m"
    and local: "table_contents p = replay (filter (\<lambda>m. msg_Offset m \<le> stored p) log) c0"
  shows "\<exists>q. pt_load env True p = Ret (Some (q, None)) \<and> table_ok q \<and> pt_IsRecovered q \<and>
    table_contents q = replay log c0"
proof -
  have st: "states_ok (pt_state p)" using p(1) unfolding table_ok_def by blast
  obtain s1 where s1: "pt_SetState env PartitionConnecting p = Ret (p\<lparr>pt_state := s1\<rparr>)" "states_ok s1"
    using pt_SetState_ok [OF st, of PartitionConnecting env] by blast
  let ?p1 = "p\<lparr>pt_state := s1\<rparr>"
  obtain px where px: "pt_st p = Some px" "invar (px_Storage px)" using p(1) unfolding table_ok_def by blast
  have go: "st_GetOffset ops (px_Storage px) offsetNotStored = Inr (stored p)"
    using get_offset [OF px(2)] px(1) by (simp add: stored_def table_offset_def)
  obtain start where start: "pt_findOffsetToLoad env p (stored p) = Inr (start, hwm)" "oldest \<le> start"
    "start \<le> hwm" "\<forall>m \<in> set log. start \<le> msg_Offset m \<longleftrightarrow> stored p < msg_Offset m"
    "start < hwm \<Longrightarrow> stored p < hwm - 1"
    using findOffset_start [OF srv log off kept] by blast
  have "pt_findOffsetToLoad env ?p1 n = pt_findOffsetToLoad env p n" for n
    unfolding pt_findOffsetToLoad_def by (simp cong: sum.case_cong)
  then have find1: "pt_findOffsetToLoad env ?p1 (stored p) = Inr (start, hwm)" using start(1) by simp
  have lt: "\<not> hwm \<le> stored p \<or> start = hwm" "\<not> (0 < stored p \<and> hwm = 0)"
    using off log start(2,3) unfolding log_upto_def stored_def offsetNotStored_def by (auto split: option.splits)
  let ?p2 = "pt_enqueueStatsUpdate env (StatsRecoveryInit (te_now env) hwm start) ?p1"
  have p2: "table_ok ?p2" "table_fresh ?p2" "table_contents ?p2 = table_contents p"
    "pt_topic ?p2 = pt_topic p" "pt_partition ?p2 = pt_partition p"
    using same_table_abs [OF same_table_enqueue, of env _ ?p1] p s1(2)
    by (simp_all add: table_ok_def table_fresh_def table_contents_def) (simp_all add: pt_enqueueStatsUpdate_def)
  show ?thesis
  proof (cases "start = hwm")
    case True
    obtain q where q: "pt_markRecovered env ?p2 = Ret (q, None)" "table_ok q" "pt_IsRecovered q"
      "table_contents q = table_contents ?p2"
      using markRecovered_ok [OF p2(1,2) env(1,3)] by metis
    have "pt_load env True p = Ret (Some (q, None))"
      using s1(1) px(1) go find1 lt True q(1) env(1)
      by (simp add: pt_load_def pt_with_def Let_def Errors_Collect_def newErrors_def Errors_NilOrError_def Errors_HasErrors_def)
    moreover have "filter (\<lambda>m. msg_Offset m \<le> stored p) log = log"
      using start(4) True log unfolding log_upto_def by (intro filter_True) force
    ultimately show ?thesis using q local p2(3) by auto
  next
    case False
    then have lt_hwm: "start < hwm" using start(3) by simp
    then have n: "stored p < hwm - 1" "oldest < hwm" using start(2,5) by auto
    obtain cons where cons: "te_ConsumePartition env (pt_topic p) (pt_partition p) start = Inr cons"
      "\<forall>e \<in> set (cs_events cons). quiet e" "cs_drained cons = []"
      "messages (cs_events cons) = filter (\<lambda>m. start \<le> msg_Offset m) log"
      using srv start(2) lt_hwm unfolding serves_def by blast
    have flt: "filter (\<lambda>m. start \<le> msg_Offset m) log = filter (\<lambda>m. stored p < msg_Offset m) log"
      using start(4) by (intro filter_cong) auto
    obtain pre where pre: "filter (\<lambda>m. stored p < msg_Offset m) log = pre @ [last log]"
      "\<forall>x \<in> set pre. msg_Offset x < hwm - 1" "set pre \<subseteq> set log"
      using log_suffix [OF log n] by blast
    have st2: "states_ok (pt_state ?p2)" using p2(1) unfolding table_ok_def by blast
    obtain s3 where s3: "pt_SetState env PartitionRecovering ?p2 = Ret (?p2\<lparr>pt_state := s3\<rparr>)" "states_ok s3"
      "sig_state s3 = PartitionRecovering"
      using pt_SetState_ok [OF st2, of PartitionRecovering env] by blast
    let ?p3 = "?p2\<lparr>pt_state := s3\<rparr>"
    have p3: "table_ok ?p3" "table_fresh ?p3" "table_contents ?p3 = table_contents p"
      using p2 s3(2) by (simp_all add: table_ok_def table_fresh_def table_contents_def)
    have nr: "\<not> Signal_IsState (pt_state ?p3) PartitionRunning"
      using s3(3) by (simp add: Signal_IsState_def partition_states)
    have ll: "log \<noteq> []" "msg_Offset (last log) = hwm - 1" "0 \<le> hwm" "hwm < 2 ^ 63"
      using log n unfolding log_upto_def by auto
    then have last: "hwm - 1 \<le> msg_Offset (last log)" "slice_bytes (msg_Key (last log)) \<notin> reserved"
      "int64 (msg_Offset (last log))" using keys by simp_all
    have pk: "\<forall>x \<in> set pre. msg_Offset x < hwm - 1 \<and> slice_bytes (msg_Key x) \<notin> reserved \<and> int64 (msg_Offset x)"
      using pre(2,3) keys log unfolding log_upto_def by fastforce
    have ms: "messages (cs_events cons) = pre @ last log # []" using cons(4) flt pre(1) by simp
    have hb: "int64 hwm" using ll by simp
    obtain r where r: "pt_loadMessages env hwm True (cs_events cons) (te_now env) newErrors ?p3 =
        Ret (Some (r, newErrors, None))" "table_ok r" "table_contents r = replay (pre @ [last log]) (table_contents ?p3)"
      "table_fresh r = table_fresh ?p3"
      using loadMessages_recovers [OF env(1,2) ll(3) hb last p3(1) nr cons(2) ms pk] by blast
    obtain q where q: "pt_markRecovered env r = Ret (q, None)" "table_ok q" "pt_IsRecovered q"
      "table_contents q = table_contents r"
      using markRecovered_ok [OF r(2) _ env(1,3)] r(4) p3(2) by metis
    let ?q = "pt_enqueueStatsUpdate env (StatsRecoveryTime (te_now env)) q"
    have "pt_load env True p = Ret (Some (?q, None))"
      using s1(1) px(1) go find1 lt False lt_hwm cons(1,3) s3(1) r(1) q(1) env(1) p2(4,5)
      by (simp add: pt_load_def pt_with_def Let_def Errors_Collect_def newErrors_def Errors_NilOrError_def
          Errors_HasErrors_def pt_drainConsumer_def)
    moreover have "replay (pre @ [last log]) (table_contents p) = replay log c0"
      using local pre(1) split_by_offset [of msg_Offset log "stored p"] log
      unfolding log_upto_def by (metis replay_append)
    ultimately show ?thesis
      using q r(3) p3(3) same_table_abs [OF same_table_enqueue, of env _ q]
      by (simp add: pt_IsRecovered_def)
  qed
qed

end

section \<open>Properties of recovery\<close>

text \<open>C5: recovery is complete. Let a table's storage satisfy the storage contract and hold what the
  messages up to its stored offset amount to, and let the broker still have every later message.
  Then loading the table to the high watermark ends without an error, the table counts as
  recovered, and reading any key returns what a replay of the whole log gives: the value of the last
  message for the key, or nothing if that message deletes it. It does not matter how far the local
  storage had got, nor which ticks and statistics rounds the messages are interleaved with.\<close>

theorem table_recovers_log:
  assumes kv: "kv_storage ops invar contents offset reserved fresh offset_ok"
    and env: "te_ops env = ops" "te_update env = DefaultUpdate ops" "te_mark env = MarkDone"
    and p: "states_ok (pt_state p)" "pt_st p = Some px" "invar (px_Storage px)" "fresh (px_Storage px)"
    and broker: "serves env p oldest hwm log" "log_upto oldest hwm log"
    and keys: "\<forall>m \<in> set log. slice_bytes (msg_Key m) \<notin> reserved"
    and n: "n = (case offset (px_Storage px) of None \<Rightarrow> offsetNotStored | Some n \<Rightarrow> n)"
    and off: "\<forall>n. offset (px_Storage px) = Some n \<longrightarrow> 0 \<le> n \<and> n < hwm"
    and kept: "\<forall>m \<in> set log. n < msg_Offset m \<longrightarrow> oldest \<le> msg_Offset m"
    and local: "contents (px_Storage px) = replay (filter (\<lambda>m. msg_Offset m \<le> n) log) Map.empty"
  shows "\<exists>q. pt_load env True p = Ret (Some (q, None)) \<and> pt_IsRecovered q \<and>
    (\<forall>k. k \<notin> reserved \<longrightarrow> pt_Get ops k q = Ret (Inr (replay log Map.empty k)))"
proof -
  note abs = kv_storage.table_ok_def [OF kv] kv_storage.table_fresh_def [OF kv]
    kv_storage.table_offset_def [OF kv] kv_storage.stored_def [OF kv] kv_storage.table_contents_def [OF kv]
  obtain q where q: "pt_load env True p = Ret (Some (q, None))" "kv_storage.table_ok invar q"
    "pt_IsRecovered q" "kv_storage.table_contents contents q = replay log Map.empty"
    using kv_storage.load_recovers [OF kv env, of p oldest hwm log Map.empty] p broker keys n off kept local
    by (auto simp: abs)
  obtain qx where qx: "pt_st q = Some qx" "invar (px_Storage qx)" using q(2) by (auto simp: abs)
  have "contents (px_Storage qx) = replay log Map.empty" using q(4) qx(1) by (simp add: abs)
  then have "pt_Get ops k q = Ret (Inr (replay log Map.empty k))" if "k \<notin> reserved" for k
    using kv_storage.get [OF kv qx(2) that] qx(1) q(3)
    by (simp add: pt_Get_def pt_readyToRead_def pt_IsRecovered_def pt_CurrentState_def
        Signal_IsState_def Signal_State_def pt_with_def)
  with q(1,3) show ?thesis by blast
qed

text \<open>A log of three messages, the last of which deletes a key, and a table over an empty in-memory
  storage.\<close>

definition sample_message :: "int \<Rightarrow> string \<Rightarrow> slice \<Rightarrow> ConsumerMessage" where
  "sample_message off key val = \<lparr>msg_Key = Some key, msg_Value = val, msg_Topic = ''t'', msg_Partition = 0,
     msg_Offset = off, msg_Headers = [], msg_Timestamp = None\<rparr>"

definition sample_log :: "ConsumerMessage list" where
  "sample_log = [sample_message 0 ''a'' (Some ''x''), sample_message 1 ''b'' (Some ''y''),
     sample_message 2 ''a'' None]"

definition sample_env :: "'s storage_ops \<Rightarrow> (int \<Rightarrow> load_event list) \<Rightarrow> 's table_env" where
  "sample_env ops script = \<lparr>te_ops = ops, te_builder = (\<lambda>t p. Inl (Err ''unused'')),
     te_update = DefaultUpdate ops,
     te_GetOffset = (\<lambda>t p w. Inr (if w = OffsetOldest then 0 else 3)),
     te_ConsumePartition = (\<lambda>t p off. Inr \<lparr>cs_events = script off, cs_drained = []\<rparr>),
     te_hwm = (\<lambda>t p. 0), te_send = (\<lambda>_. True), te_skip = (\<lambda>_. False), te_mark = MarkDone, te_now = 0\<rparr>"

definition sample_table :: "'s \<Rightarrow> 's PartitionTable" where
  "sample_table st = \<lparr>pt_topic = ''t'', pt_partition = 0,
     pt_state = NewSignal [PartitionStopped, PartitionInitializing, PartitionConnecting,
       PartitionRecovering, PartitionPreparing, PartitionRunning],
     pt_st = Some \<lparr>px_Storage = st, px_topic = ''t'', px_partition = 0, px_stateless = False,
       px_openedOnce = newOnce, px_closedOnce = newOnce\<rparr>,
     pt_stats = snd (newTableStats \<lparr>h_input = [], h_output = [], h_recovery = []\<rparr>),
     pt_heap = fst (newTableStats \<lparr>h_input = [], h_output = [], h_recovery = []\<rparr>),
     pt_updateStats = [], pt_responseStats = [], pt_stalledTimeout = 120000000000\<rparr>"

definition sample_script :: "int \<Rightarrow> load_event list" where
  "sample_script off =
     EvStall 5 # map (\<lambda>m. EvMessage 0 (Some m)) (filter (\<lambda>m. off \<le> msg_Offset m) sample_log)"

lemma sample_states: "states_ok (pt_state (sample_table st))"
  by (simp add: sample_table_def states_ok_def NewSignal_def)

lemma messages_map [simp]: "messages (map (\<lambda>m. EvMessage 0 (Some m)) ms) = ms"
  by (induction ms) simp_all

lemma sample_serves: "serves (sample_env ops sample_script) (sample_table st) 0 3 sample_log"
  by (auto simp: serves_def sample_env_def sample_script_def OffsetOldest_def OffsetNewest_def)

lemma sample_log_upto: "log_upto 0 3 sample_log"
  by (simp add: log_upto_def sample_log_def sample_message_def)

theorem table_recovers_log_witness:
  "\<exists>q. pt_load (sample_env memory_ops sample_script) True (sample_table NewMemory) = Ret (Some (q, None)) \<and>
     pt_IsRecovered q \<and> pt_Get memory_ops ''a'' q = Ret (Inr None) \<and>
     pt_Get memory_ops ''b'' q = Ret (Inr (Some ''y''))"
proof -
  have "replay sample_log Map.empty ''a'' = None \<and> replay sample_log Map.empty ''b'' = Some ''y''"
    by (simp add: replay_def sample_log_def sample_message_def)
  moreover obtain px where px: "pt_st (sample_table NewMemory) = Some px" "px_Storage px = NewMemory"
    by (simp add: sample_table_def)
  have "\<exists>q. pt_load (sample_env memory_ops sample_script) True (sample_table NewMemory) = Ret (Some (q, None)) \<and>
     pt_IsRecovered q \<and> (\<forall>k. k \<notin> {} \<longrightarrow> pt_Get memory_ops k q = Ret (Inr (replay sample_log Map.empty k)))"
    by (rule table_recovers_log [OF mem.kv_storage_axioms _ _ _ sample_states px(1) _ _ sample_serves
          sample_log_upto _ refl])
      (auto simp: px(2) sample_env_def NewMemory_def memory_invar_def replay_def offsetNotStored_def
        sample_log_def sample_message_def)
  ultimately show ?thesis by auto
qed

section \<open>A consumer error during recovery\<close>

text \<open>When the consumer fails and closes its message channel before the high watermark is reached, the
  loop returns without an error, so the storage is marked recovered nevertheless.\<close>

lemma load_consumer_error:
  assumes st: "states_ok (pt_state p)" "pt_st p = Some px"
    and off: "st_GetOffset (te_ops env) (px_Storage px) offsetNotStored = Inr offsetNotStored"
    and broker: "te_GetOffset env (pt_topic p) (pt_partition p) OffsetOldest = Inr oldest"
      "te_GetOffset env (pt_topic p) (pt_partition p) OffsetNewest = Inr hwm" "0 \<le> oldest" "oldest < hwm"
    and cons: "te_ConsumePartition env (pt_topic p) (pt_partition p) oldest = Inr cons"
      "cs_events cons = EvConsError err # EvClosed # evs"
  obtains q where "pt_load env True p = go_bind (pt_markRecovered env q) (\<lambda>(q, e).
      Ret (Some (pt_enqueueStatsUpdate env (StatsRecoveryTime (te_now env)) q,
        Errors_NilOrError (pt_drainConsumer (cs_drained cons)
          (Errors_Collect (pt_handleConsumerError err newErrors) e)))))"
    and "states_ok (pt_state q)" and "pt_st q = Some px" and "pt_topic q = pt_topic p"
    and "pt_partition q = pt_partition p"
proof -
  obtain s1 where s1: "pt_SetState env PartitionConnecting p = Ret (p\<lparr>pt_state := s1\<rparr>)" "states_ok s1"
    using pt_SetState_ok [OF st(1), of PartitionConnecting env] by blast
  let ?p2 = "pt_enqueueStatsUpdate env (StatsRecoveryInit (te_now env) hwm oldest) (p\<lparr>pt_state := s1\<rparr>)"
  have p2: "pt_state ?p2 = s1" "pt_st ?p2 = Some px" "pt_topic ?p2 = pt_topic p" "pt_partition ?p2 = pt_partition p"
    using st(2) by (simp_all add: pt_enqueueStatsUpdate_def)
  obtain s3 where s3: "pt_SetState env PartitionRecovering ?p2 = Ret (?p2\<lparr>pt_state := s3\<rparr>)" "states_ok s3"
    using pt_SetState_ok [of ?p2 PartitionRecovering env] s1(2) p2(1) by auto
  have "pt_findOffsetToLoad env (p\<lparr>pt_state := s1\<rparr>) offsetNotStored = Inr (oldest, hwm)"
    using broker by (simp add: pt_findOffsetToLoad_def Let_def)
  then have "pt_load env True p = go_bind (pt_markRecovered env (?p2\<lparr>pt_state := s3\<rparr>)) (\<lambda>(q, e).
      Ret (Some (pt_enqueueStatsUpdate env (StatsRecoveryTime (te_now env)) q,
        Errors_NilOrError (pt_drainConsumer (cs_drained cons)
          (Errors_Collect (pt_handleConsumerError err newErrors) e)))))"
    using s1(1) st(2) off broker cons s3(1) p2
    by (simp add: pt_load_def pt_with_def Let_def offsetNotStored_def)
  then show ?thesis using that [of "?p2\<lparr>pt_state := s3\<rparr>"] s3(2) p2 by simp
qed

lemma drain_keeps_error: "errs es \<noteq> [] \<Longrightarrow> \<exists>err. Errors_NilOrError (pt_drainConsumer ds es) = Some err"
  unfolding pt_drainConsumer_def
  by (induction ds arbitrary: es)
    (auto simp: Errors_NilOrError_def Errors_HasErrors_def Errors_Collect_def)

lemma markRecovered_storage:
  assumes "leveldb_contract db opened content" and "te_ops env = storage_ops db" and "te_mark env = MarkDone"
    and "states_ok (pt_state p)" and "pt_st p = Some px" and "storage_invar opened content (px_Storage px)"
  shows "ls_recovered (px_Storage px) \<Longrightarrow> pt_markRecovered env p = Panic ''close of closed channel''"
    and "\<not> ls_recovered (px_Storage px) \<Longrightarrow> \<exists>q qx. pt_markRecovered env p = Ret (q, None) \<and>
      states_ok (pt_state q) \<and> pt_IsRecovered q \<and> pt_st q = Some qx \<and> ls_recovered (px_Storage qx) \<and>
      storage_invar opened content (px_Storage qx) \<and>
      storage_contents content (px_Storage qx) = storage_contents content (px_Storage px) \<and>
      storage_offset content (px_Storage qx) = storage_offset content (px_Storage px) \<and>
      pt_topic q = pt_topic p \<and> pt_partition q = pt_partition p"
proof -
  let ?enq = "pt_enqueueStatsUpdate env (StatsRecoveryTime (te_now env))"
  obtain s1 where s1: "pt_SetState env PartitionPreparing p = Ret (p\<lparr>pt_state := s1\<rparr>)" "states_ok s1"
    using pt_SetState_ok [OF assms(4), of PartitionPreparing env] by blast
  let ?p1 = "?enq (p\<lparr>pt_state := s1\<rparr>)"
  have p1: "pt_st ?p1 = Some px" "pt_state ?p1 = s1" "pt_topic ?p1 = pt_topic p" "pt_partition ?p1 = pt_partition p"
    using assms(5) by (simp_all add: pt_enqueueStatsUpdate_def)
  have inv: "opened (ls_db (px_Storage px))" "int64 (ls_offset (px_Storage px))"
    using assms(6) unfolding storage_invar_def by blast+
  show "pt_markRecovered env p = Panic ''close of closed channel''" if rec: "ls_recovered (px_Storage px)"
  proof -
    obtain d where "storage_putOffset db (px_Storage px) (ls_offset (px_Storage px)) =
        ((px_Storage px)\<lparr>ls_db := d\<rparr>, None)"
      using storage_putOffset_ok [OF assms(1) inv] by blast
    then have "storage_MarkRecovered db (px_Storage px) = close_of_closed"
      using rec by (simp add: storage_MarkRecovered_def)
    then show ?thesis
      using s1(1) p1(1) assms(2)
      by (simp add: pt_markRecovered_def pt_with_def storageProxy_MarkRecovered_def storage_ops_def
          close_of_closed_def Let_def)
  qed
  show "\<exists>q qx. pt_markRecovered env p = Ret (q, None) \<and>
      states_ok (pt_state q) \<and> pt_IsRecovered q \<and> pt_st q = Some qx \<and> ls_recovered (px_Storage qx) \<and>
      storage_invar opened content (px_Storage qx) \<and>
      storage_contents content (px_Storage qx) = storage_contents content (px_Storage px) \<and>
      storage_offset content (px_Storage qx) = storage_offset content (px_Storage px) \<and>
      pt_topic q = pt_topic p \<and> pt_partition q = pt_partition p"
    if fresh: "\<not> ls_recovered (px_Storage px)"
  proof -
    obtain d where d: "storage_MarkRecovered db (px_Storage px) =
        Ret ((px_Storage px)\<lparr>ls_db := d, ls_recovered := True\<rparr>, None)"
      using storage_MarkRecovered_ok [OF assms(1) inv fresh] by blast
    let ?st = "(px_Storage px)\<lparr>ls_db := d, ls_recovered := True\<rparr>"
    have kv: "storage_invar opened content ?st \<and>
        storage_contents content ?st = storage_contents content (px_Storage px) \<and>
        storage_offset content ?st = storage_offset content (px_Storage px)"
      using kv_storage.mark_recovered [OF storage_kv_storage [OF assms(1)] assms(6) fresh] d
      by (simp add: storage_ops_def)
    let ?p2 = "?p1\<lparr>pt_st := Some (px\<lparr>px_Storage := ?st\<rparr>)\<rparr>"
    obtain s2 where s2: "pt_SetState env PartitionRunning ?p2 = Ret (?p2\<lparr>pt_state := s2\<rparr>)" "states_ok s2"
      "sig_state s2 = PartitionRunning"
      using pt_SetState_ok [of ?p2 PartitionRunning env] s1(2) p1(2) by auto
    have "pt_markRecovered env p = Ret (?p2\<lparr>pt_state := s2\<rparr>, None)"
      using s1(1) p1(1) d s2(1) assms(2,3)
      by (simp add: pt_markRecovered_def pt_with_def storageProxy_MarkRecovered_def storage_ops_def Let_def)
    then show ?thesis using kv s2 p1 by (simp add: pt_IsRecovered_def Signal_IsState_def)
  qed
qed

text \<open>C27: a consumer error during recovery. With the LevelDB storage and nothing stored locally, an
  error of the consumer that closes its channel before any message has arrived makes \<open>load\<close> return an
  error, yet the table counts as recovered, with nothing loaded; and when \<open>loadRestarting\<close> then tries
  again and the consumer fails again, marking the storage recovered a second time closes a closed
  channel, which panics.\<close>

theorem consumer_error_during_recovery:
  assumes db: "leveldb_contract db opened content"
    and env: "te_ops env = storage_ops db" "te_mark env = MarkDone"
    and p: "states_ok (pt_state p)" "pt_st p = Some px" "storage_invar opened content (px_Storage px)"
      "\<not> ls_recovered (px_Storage px)" "storage_offset content (px_Storage px) = None"
    and broker: "te_GetOffset env (pt_topic p) (pt_partition p) OffsetOldest = Inr oldest"
      "te_GetOffset env (pt_topic p) (pt_partition p) OffsetNewest = Inr hwm" "0 \<le> oldest" "oldest < hwm"
    and cons: "te_ConsumePartition env (pt_topic p) (pt_partition p) oldest = Inr cons"
      "cs_events cons = EvConsError err # EvClosed # evs"
    and a: "at_env a = env" "\<not> at_ctxDone a"
  shows "(\<exists>q e qx. pt_load env True p = Ret (Some (q, Some e)) \<and> pt_IsRecovered q \<and> pt_st q = Some qx \<and>
            storage_contents content (px_Storage qx) = storage_contents content (px_Storage px)) \<and>
         pt_loadRestarting bo (a # a # as) True b p = Panic ''close of closed channel''"
proof -
  have go: "st_GetOffset (te_ops env) (px_Storage x) offsetNotStored = Inr offsetNotStored"
    if "storage_invar opened content (px_Storage x)" "storage_offset content (px_Storage x) = None" for x
    using storage_GetOffset_ok [OF db that(1)] that(2) env(1) by (simp add: storage_ops_def)
  obtain q1 where q1: "pt_load env True p = go_bind (pt_markRecovered env q1) (\<lambda>(q, e).
      Ret (Some (pt_enqueueStatsUpdate env (StatsRecoveryTime (te_now env)) q,
        Errors_NilOrError (pt_drainConsumer (cs_drained cons)
          (Errors_Collect (pt_handleConsumerError err newErrors) e)))))"
    "states_ok (pt_state q1)" "pt_st q1 = Some px" "pt_topic q1 = pt_topic p" "pt_partition q1 = pt_partition p"
    using load_consumer_error [OF p(1,2) go [OF p(3,5)] broker cons] by blast
  obtain q2 qx where q2: "pt_markRecovered env q1 = Ret (q2, None)" "states_ok (pt_state q2)"
    "pt_IsRecovered q2" "pt_st q2 = Some qx" "ls_recovered (px_Storage qx)"
    "storage_invar opened content (px_Storage qx)"
    "storage_contents content (px_Storage qx) = storage_contents content (px_Storage px)"
    "storage_offset content (px_Storage qx) = storage_offset content (px_Storage px)"
    "pt_topic q2 = pt_topic q1" "pt_partition q2 = pt_partition q1"
    using markRecovered_storage(2) [OF db env q1(2,3) p(3,4)] by blast
  let ?q = "pt_enqueueStatsUpdate env (StatsRecoveryTime (te_now env)) q2"
  have "errs (Errors_Collect (pt_handleConsumerError err newErrors) None) \<noteq> []"
    by (simp add: Errors_Collect_def pt_handleConsumerError_def)
  then obtain e where e: "Errors_NilOrError (pt_drainConsumer (cs_drained cons)
      (Errors_Collect (pt_handleConsumerError err newErrors) None)) = Some e"
    using drain_keeps_error by blast
  have load1: "pt_load env True p = Ret (Some (?q, Some e))" using q1(1) q2(1) e by simp
  have q: "pt_state ?q = pt_state q2" "pt_st ?q = Some qx" "pt_topic ?q = pt_topic p" "pt_partition ?q = pt_partition p"
    using q2(4,9,10) q1(4,5) by (simp_all add: pt_enqueueStatsUpdate_def)
  have qn: "storage_offset content (px_Storage qx) = None" using q2(8) p(5) by simp
  have stq: "states_ok (pt_state ?q)" using q(1) q2(2) by simp
  obtain q3 where q3: "pt_load env True ?q = go_bind (pt_markRecovered env q3) (\<lambda>(q, e).
      Ret (Some (pt_enqueueStatsUpdate env (StatsRecoveryTime (te_now env)) q,
        Errors_NilOrError (pt_drainConsumer (cs_drained cons)
          (Errors_Collect (pt_handleConsumerError err newErrors) e)))))"
    "states_ok (pt_state q3)" "pt_st q3 = Some qx"
    using load_consumer_error [OF stq q(2) go [OF q2(6) qn], of oldest hwm cons err evs] broker cons q(3,4)
    by metis
  have "pt_load env True ?q = Panic ''close of closed channel''"
    using q3(1) markRecovered_storage(1) [OF db env q3(2,3) q2(6,5)] by simp
  then have "pt_loadRestarting bo (a # a # as) True b p = Panic ''close of closed channel''"
    using load1 a by (simp split: prod.splits)
  moreover have "pt_IsRecovered ?q" using q2(3) q(1) by (simp add: pt_IsRecovered_def)
  ultimately show ?thesis using load1 q(2) q2(7) by blast
qed

theorem consumer_error_during_recovery_witness:
  "pt_loadRestarting simpleBackoff_ops
     (replicate 2 \<lparr>at_env = sample_env (storage_ops map_leveldb) (\<lambda>_. [EvConsError (Err ''broken''), EvClosed]),
        at_reset = False, at_ctxDone = False\<rparr>) True (NewSimpleBackoff 10)
     (sample_table (storage_New (True, Map.empty))) = Panic ''close of closed channel''"
proof -
  let ?env = "sample_env (storage_ops map_leveldb) (\<lambda>_. [EvConsError (Err ''broken''), EvClosed])"
  let ?s = "storage_New (True, Map.empty :: bytes \<rightharpoonup> bytes)"
  let ?p = "sample_table ?s"
  obtain px where px: "pt_st ?p = Some px" "px_Storage px = ?s"
    by (simp add: sample_table_def)
  have "pt_loadRestarting simpleBackoff_ops
     (\<lparr>at_env = ?env, at_reset = False, at_ctxDone = False\<rparr> #
      \<lparr>at_env = ?env, at_reset = False, at_ctxDone = False\<rparr> # []) True (NewSimpleBackoff 10) ?p =
      Panic ''close of closed channel''"
    by (rule consumer_error_during_recovery [OF map_leveldb_contract _ _ sample_states px(1),
          of ?env 0 3, THEN conjunct2])
      (auto simp: px(2) sample_env_def sample_table_def storage_invar_def storage_New_def
        storage_offset_def stored_offset_def OffsetOldest_def OffsetNewest_def)
  then show ?thesis by (simp add: numeral_2_eq_2)
qed

section \<open>Storing the newest offset\<close>

primrec store_offsets :: "'s storage_ops \<Rightarrow> int list \<Rightarrow> 's PartitionTable \<Rightarrow> 's PartitionTable go" where
  "store_offsets ops [] p = Ret p"
| "store_offsets ops (n # ns) p =
     go_bind (pt_storeNewestOffset ops n p) (\<lambda>(p, e). store_offsets ops ns p)"

context kv_storage
begin

lemma storeNewestOffset_max:
  assumes "table_ok p" and "table_offset p = Some n" and "0 \<le> n" and "int64 k" and "table_offset_ok p k"
  obtains q where "pt_storeNewestOffset ops k p = Ret (q, None)" and "table_ok q"
    and "table_offset q = Some (max n k)" and "table_contents q = table_contents p"
    and "table_offset_ok q = table_offset_ok p"
proof -
  obtain px where px: "pt_st p = Some px" "invar (px_Storage px)" using assms(1) unfolding table_ok_def by blast
  have go: "pt_GetOffset ops offsetNotStored p = Ret (Inr n)"
    using get_offset [OF px(2)] px(1) assms(2) by (simp add: pt_GetOffset_def pt_with_def table_offset_def)
  show ?thesis
  proof (cases "n \<le> k")
    case True
    obtain s e where s: "st_SetOffset ops (px_Storage px) k = (s, e)" by (cases "st_SetOffset ops (px_Storage px) k")
    have k: "e = None \<and> invar s \<and> contents s = contents (px_Storage px) \<and> offset s = Some k \<and>
        offset_ok s = offset_ok (px_Storage px)"
      using set_offset [OF px(2) assms(4) s] assms(5) px(1) by (simp add: table_offset_ok_def)
    let ?q = "p\<lparr>pt_st := Some (px\<lparr>px_Storage := s\<rparr>)\<rparr>"
    have "pt_storeNewestOffset ops k p = Ret (?q, None)"
      using go True assms(3) s k px(1)
      by (simp add: pt_storeNewestOffset_def pt_SetOffset_def pt_with_def offsetNotStored_def)
    then show ?thesis
      using that [of ?q] k assms(1) True px(1)
      by (simp add: table_ok_def table_offset_def table_contents_def table_offset_ok_def)
  next
    case False
    then have "pt_storeNewestOffset ops k p = Ret (p, None)"
      using go by (simp add: pt_storeNewestOffset_def)
    then show ?thesis using that [of p] assms False by simp
  qed
qed

lemma store_offsets_max:
  assumes "table_ok p" and "table_offset p = Some n" and "0 \<le> n"
    and "\<forall>k \<in> set ks. int64 k \<and> table_offset_ok p k"
  shows "\<exists>q. store_offsets ops ks p = Ret q \<and> table_ok q \<and> table_contents q = table_contents p \<and>
    table_offset q = Some (Max (insert n (set ks)))"
  using assms
proof (induction ks arbitrary: p n)
  case (Cons k ks)
  obtain q where q: "pt_storeNewestOffset ops k p = Ret (q, None)" "table_ok q"
    "table_offset q = Some (max n k)" "table_contents q = table_contents p"
    "table_offset_ok q = table_offset_ok p"
    using storeNewestOffset_max [OF Cons.prems(1,2,3), of k] Cons.prems(4) by auto
  have "Max (insert (max n k) (set ks)) = Max (insert n (insert k (set ks)))"
    by (cases "set ks = {}") (simp_all add: max.assoc)
  moreover have "0 \<le> max n k" using Cons.prems(3) by simp
  ultimately show ?case using Cons.IH [OF q(2,3)] q Cons.prems(4) by simp
qed simp

end

text \<open>C28: the offset of a table never goes back: when the callbacks of a table with a stored offset
  finish in any order and each stores its offset, the table ends up with the largest of them, and its
  contents are untouched.\<close>

theorem newest_offset_wins:
  assumes kv: "kv_storage ops invar contents offset reserved fresh offset_ok"
    and p: "states_ok (pt_state p)" "pt_st p = Some px" "invar (px_Storage px)"
    and off: "offset (px_Storage px) = Some n" "0 \<le> n"
    and ks: "\<forall>k \<in> set ks. int64 k \<and> offset_ok (px_Storage px) k"
  shows "\<exists>q qx. store_offsets ops ks p = Ret q \<and> pt_st q = Some qx \<and>
    offset (px_Storage qx) = Some (Max (insert n (set ks))) \<and>
    contents (px_Storage qx) = contents (px_Storage px)"
proof -
  note abs = kv_storage.table_ok_def [OF kv] kv_storage.table_offset_def [OF kv]
    kv_storage.table_contents_def [OF kv] kv_storage.table_offset_ok_def [OF kv]
  have "kv_storage.table_ok invar p" "kv_storage.table_offset offset p = Some n"
    "\<forall>k \<in> set ks. int64 k \<and> kv_storage.table_offset_ok offset_ok p k"
    using p off ks by (simp_all add: abs)
  from kv_storage.store_offsets_max [OF kv this(1,2) off(2) this(3)] obtain q where
    "store_offsets ops ks p = Ret q" "kv_storage.table_ok invar q"
    "kv_storage.table_contents contents q = kv_storage.table_contents contents p"
    "kv_storage.table_offset offset q = Some (Max (insert n (set ks)))" by blast
  then show ?thesis using p(2) by (auto simp: abs)
qed

theorem newest_offset_wins_witness:
  "\<exists>q qx. store_offsets memory_ops [5, 3, 9, 7] (sample_table (fst (memory_SetOffset NewMemory 4))) = Ret q \<and>
     pt_st q = Some qx \<and> mem_offset (px_Storage qx) = Some 9"
proof -
  let ?s = "fst (memory_SetOffset NewMemory 4)"
  obtain px where px: "pt_st (sample_table ?s) = Some px" "px_Storage px = ?s"
    by (simp add: sample_table_def)
  have "\<exists>q qx. store_offsets memory_ops [5, 3, 9, 7] (sample_table ?s) = Ret q \<and> pt_st q = Some qx \<and>
      mem_offset (px_Storage qx) = Some (Max (insert 4 (set [5, 3, 9, 7]))) \<and>
      mem_storage (px_Storage qx) = mem_storage (px_Storage px)"
    by (rule newest_offset_wins [OF mem.kv_storage_axioms sample_states px(1)])
      (auto simp: px(2) memory_SetOffset_def NewMemory_def memory_invar_def)
  then show ?thesis by auto
qed

section \<open>The simple backoff\<close>

lemma backoff_steps:
  assumes "int n * sb_step b + sb_current b < 2 ^ 63" and "0 \<le> sb_step b" and "0 \<le> sb_current b"
  shows "((\<lambda>b. fst (simpleBackoff_Duration b)) ^^ n) b = b\<lparr>sb_current := int n * sb_step b + sb_current b\<rparr>"
  using assms
proof (induction n)
  case (Suc n)
  define t where "t = int n * sb_step b"
  have e: "int (Suc n) * sb_step b = t + sb_step b" by (simp add: t_def algebra_simps)
  have m: "0 \<le> t" using Suc.prems(2) by (simp add: t_def)
  have "wrap64 (t + sb_current b + sb_step b) = t + sb_current b + sb_step b"
    using Suc.prems m unfolding e by (intro wrap64_id) simp
  moreover have "((\<lambda>b. fst (simpleBackoff_Duration b)) ^^ n) b = b\<lparr>sb_current := t + sb_current b\<rparr>"
    using Suc e m by (simp add: t_def)
  ultimately show ?case unfolding e by (simp add: simpleBackoff_Duration_def Let_def)
qed simp

text \<open>The simple backoff ignores its step: after a reset the \<open>n\<close>-th wait lasts \<open>n\<close> seconds whatever
  step it was created with.\<close>

lemma simple_backoff_waits_seconds:
  assumes "int n < 9000000000"
  shows "snd (simpleBackoff_Duration (((\<lambda>b. fst (simpleBackoff_Duration b)) ^^ n)
           (simpleBackoff_Reset (NewSimpleBackoff step)))) = int (Suc n) * 1000000000"
proof -
  have "((\<lambda>b. fst (simpleBackoff_Duration b)) ^^ n) (simpleBackoff_Reset (NewSimpleBackoff step)) =
      \<lparr>sb_current = int n * 1000000000, sb_step = 1000000000\<rparr>"
    using assms by (subst backoff_steps) (simp_all add: simpleBackoff_Reset_def NewSimpleBackoff_def)
  moreover have "wrap64 (int n * 1000000000 + 1000000000) = int n * 1000000000 + 1000000000"
    using assms by (intro wrap64_id) simp
  ultimately show ?thesis by (simp add: simpleBackoff_Duration_def Let_def)
qed

end
