(* ===== verification/Goka_Graph.thy ===== *)
theory Goka_Graph
  imports Goka_Codec
begin

text \<open>
  The specification of a processor group (\<open>graph.go\<close>): its edges, the maps \<open>DefineGroup\<close> builds from
  them, and their validation.

  A process callback is only passed around, its type is the parameter \<open>'cb\<close>. A codec or a callback
  that may be nil is an option. \<open>DefineGroup\<close> writes the names of the loop stream and of the group
  table into their edges; an edge is used in one group.
\<close>

section \<open>Edges\<close>

definition tableSuffix :: string where "tableSuffix = ''-table''"
definition loopSuffix :: string where "loopSuffix = ''-loop''"

definition tableName :: "string \<Rightarrow> string" where
  "tableName grp = grp @ tableSuffix"

definition loopName :: "string \<Rightarrow> string" where
  "loopName grp = grp @ loopSuffix"

definition GroupTable_name :: "string \<Rightarrow> string" where
  "GroupTable_name grp = tableName grp"

record topicDef =
  td_name :: string
  td_codec :: "Codec option"

datatype 'cb edge =
    InputStream topicDef "'cb option"
  | InputStreams "(topicDef \<times> 'cb option) list"
  | LoopStream topicDef "'cb option"
  | InputTable topicDef
  | CrossTable topicDef
  | GroupTable topicDef
  | OutputStream topicDef

definition Input :: "string \<Rightarrow> Codec option \<Rightarrow> 'cb option \<Rightarrow> 'cb edge" where
  "Input topic c cb = InputStream \<lparr>td_name = topic, td_codec = c\<rparr> cb"

definition Inputs :: "string list \<Rightarrow> Codec option \<Rightarrow> 'cb option \<Rightarrow> 'cb edge option" where
  "Inputs topics c cb =
     (if length topics = 0 then None
      else Some (InputStreams (map (\<lambda>topic. (\<lparr>td_name = topic, td_codec = c\<rparr>, cb)) topics)))"

definition Loop :: "Codec option \<Rightarrow> 'cb option \<Rightarrow> 'cb edge" where
  "Loop c cb = LoopStream \<lparr>td_name = '''', td_codec = c\<rparr> cb"

definition Join :: "string \<Rightarrow> Codec option \<Rightarrow> 'cb edge" where
  "Join topic c = InputTable \<lparr>td_name = topic, td_codec = c\<rparr>"

definition Lookup :: "string \<Rightarrow> Codec option \<Rightarrow> 'cb edge" where
  "Lookup topic c = CrossTable \<lparr>td_name = topic, td_codec = c\<rparr>"

definition Persist :: "Codec option \<Rightarrow> 'cb edge" where
  "Persist c = GroupTable \<lparr>td_name = '''', td_codec = c\<rparr>"

definition Output :: "string \<Rightarrow> Codec option \<Rightarrow> 'cb edge" where
  "Output topic c = OutputStream \<lparr>td_name = topic, td_codec = c\<rparr>"

text \<open>The method \<open>Topic\<close> of the edges, and the one of \<open>Edges\<close>.\<close>

fun edge_Topic :: "'cb edge \<Rightarrow> string" where
  "edge_Topic (InputStream t cb) = td_name t"
| "edge_Topic (InputStreams is) = join_strings '','' (map (\<lambda>i. td_name (fst i)) is)"
| "edge_Topic (LoopStream t cb) = td_name t"
| "edge_Topic (InputTable t) = td_name t"
| "edge_Topic (CrossTable t) = td_name t"
| "edge_Topic (GroupTable t) = td_name t"
| "edge_Topic (OutputStream t) = td_name t"

text \<open>The codec of several input streams is the one of the first, which must exist.\<close>

fun edge_Codec :: "'cb edge \<Rightarrow> Codec option go" where
  "edge_Codec (InputStream t cb) = Ret (td_codec t)"
| "edge_Codec (InputStreams []) = Panic ''index out of range''"
| "edge_Codec (InputStreams ((t, cb) # is)) = Ret (td_codec t)"
| "edge_Codec (LoopStream t cb) = Ret (td_codec t)"
| "edge_Codec (InputTable t) = Ret (td_codec t)"
| "edge_Codec (CrossTable t) = Ret (td_codec t)"
| "edge_Codec (GroupTable t) = Ret (td_codec t)"
| "edge_Codec (OutputStream t) = Ret (td_codec t)"

definition Edges_Topics :: "topicDef list \<Rightarrow> string list" where
  "Edges_Topics e = map td_name e"

definition chainEdges :: "topicDef list list \<Rightarrow> topicDef list" where
  "chainEdges edgeList = concat edgeList"

section \<open>The group graph\<close>

record 'cb GroupGraph =
  gg_group :: string
  gg_inputTables :: "topicDef list"
  gg_crossTables :: "topicDef list"
  gg_inputStreams :: "topicDef list"
  gg_outputStreams :: "topicDef list"
  gg_loopStream :: "topicDef list"
  gg_groupTable :: "topicDef list"
  gg_codecs :: "string \<rightharpoonup> Codec option"
  gg_callbacks :: "string \<rightharpoonup> 'cb option"
  gg_outputStreamTopics :: "string \<Rightarrow> bool"
  gg_joinCheck :: "string \<Rightarrow> bool"

definition GroupGraph_LoopStream :: "'cb GroupGraph \<Rightarrow> topicDef option" where
  "GroupGraph_LoopStream gg =
     (if length (gg_loopStream gg) > 0 then Some (gg_loopStream gg ! 0) else None)"

definition GroupGraph_GroupTable :: "'cb GroupGraph \<Rightarrow> topicDef option" where
  "GroupGraph_GroupTable gg =
     (if length (gg_groupTable gg) > 0 then Some (gg_groupTable gg ! 0) else None)"

definition GroupGraph_isOutputTopic :: "'cb GroupGraph \<Rightarrow> string \<Rightarrow> bool" where
  "GroupGraph_isOutputTopic gg topic = gg_outputStreamTopics gg topic"

definition GroupGraph_inputs :: "'cb GroupGraph \<Rightarrow> topicDef list" where
  "GroupGraph_inputs gg = chainEdges [gg_inputStreams gg, gg_inputTables gg, gg_crossTables gg]"

definition GroupGraph_copartitioned :: "'cb GroupGraph \<Rightarrow> topicDef list" where
  "GroupGraph_copartitioned gg = chainEdges [gg_inputStreams gg, gg_inputTables gg]"

definition GroupGraph_codec :: "'cb GroupGraph \<Rightarrow> string \<Rightarrow> Codec option" where
  "GroupGraph_codec gg topic = (case gg_codecs gg topic of None \<Rightarrow> None | Some c \<Rightarrow> c)"

definition GroupGraph_callback :: "'cb GroupGraph \<Rightarrow> string \<Rightarrow> 'cb option" where
  "GroupGraph_callback gg topic = (case gg_callbacks gg topic of None \<Rightarrow> None | Some cb \<Rightarrow> cb)"

definition GroupGraph_joint :: "'cb GroupGraph \<Rightarrow> string \<Rightarrow> bool" where
  "GroupGraph_joint gg topic = gg_joinCheck gg topic"

definition validateInputTopic :: "'cb GroupGraph \<Rightarrow> string \<Rightarrow> unit go" where
  "validateInputTopic gg topic =
     (if topic = '''' then Panic ''Input topic cannot be empty. This will not work.''
      else if gg_callbacks gg topic \<noteq> None
      then Panic ''Callback for topic %s already exists. It is illegal to consume a topic twice''
      else Ret ())"

definition define_input :: "topicDef \<Rightarrow> 'cb option \<Rightarrow> 'cb GroupGraph \<Rightarrow> 'cb GroupGraph go" where
  "define_input t cb gg =
     go_bind (validateInputTopic gg (td_name t)) (\<lambda>_.
       Ret (gg\<lparr>gg_codecs := (gg_codecs gg)(td_name t \<mapsto> td_codec t),
               gg_callbacks := (gg_callbacks gg)(td_name t \<mapsto> cb),
               gg_inputStreams := gg_inputStreams gg @ [t]\<rparr>))"

fun define_inputs :: "(topicDef \<times> 'cb option) list \<Rightarrow> 'cb GroupGraph \<Rightarrow> 'cb GroupGraph go" where
  "define_inputs [] gg = Ret gg"
| "define_inputs ((t, cb) # is) gg = go_bind (define_input t cb gg) (define_inputs is)"

fun define_edge :: "string \<Rightarrow> 'cb edge option \<Rightarrow> 'cb GroupGraph \<Rightarrow> 'cb GroupGraph go" where
  "define_edge grp None gg = Ret gg"
| "define_edge grp (Some (InputStreams is)) gg = define_inputs is gg"
| "define_edge grp (Some (InputStream t cb)) gg = define_input t cb gg"
| "define_edge grp (Some (LoopStream t cb)) gg =
     (let t = t\<lparr>td_name := loopName grp\<rparr>
      in Ret (gg\<lparr>gg_codecs := (gg_codecs gg)(td_name t \<mapsto> td_codec t),
                 gg_callbacks := (gg_callbacks gg)(td_name t \<mapsto> cb),
                 gg_loopStream := gg_loopStream gg @ [t]\<rparr>))"
| "define_edge grp (Some (OutputStream t)) gg =
     Ret (gg\<lparr>gg_codecs := (gg_codecs gg)(td_name t \<mapsto> td_codec t),
             gg_outputStreams := gg_outputStreams gg @ [t],
             gg_outputStreamTopics := (gg_outputStreamTopics gg)(td_name t := True)\<rparr>)"
| "define_edge grp (Some (InputTable t)) gg =
     Ret (gg\<lparr>gg_codecs := (gg_codecs gg)(td_name t \<mapsto> td_codec t),
             gg_inputTables := gg_inputTables gg @ [t],
             gg_joinCheck := (gg_joinCheck gg)(td_name t := True)\<rparr>)"
| "define_edge grp (Some (CrossTable t)) gg =
     Ret (gg\<lparr>gg_codecs := (gg_codecs gg)(td_name t \<mapsto> td_codec t),
             gg_crossTables := gg_crossTables gg @ [t]\<rparr>)"
| "define_edge grp (Some (GroupTable t)) gg =
     (let t = t\<lparr>td_name := GroupTable_name grp\<rparr>
      in Ret (gg\<lparr>gg_codecs := (gg_codecs gg)(td_name t \<mapsto> td_codec t),
                 gg_groupTable := gg_groupTable gg @ [t]\<rparr>))"

fun define_edges :: "string \<Rightarrow> 'cb edge option list \<Rightarrow> 'cb GroupGraph \<Rightarrow> 'cb GroupGraph go" where
  "define_edges grp [] gg = Ret gg"
| "define_edges grp (e # es) gg = go_bind (define_edge grp e gg) (define_edges grp es)"

definition DefineGroup :: "string \<Rightarrow> 'cb edge option list \<Rightarrow> 'cb GroupGraph go" where
  "DefineGroup grp edges =
     define_edges grp edges
       \<lparr>gg_group = grp, gg_inputTables = [], gg_crossTables = [], gg_inputStreams = [],
        gg_outputStreams = [], gg_loopStream = [], gg_groupTable = [], gg_codecs = Map.empty,
        gg_callbacks = Map.empty, gg_outputStreamTopics = (\<lambda>_. False), gg_joinCheck = (\<lambda>_. False)\<rparr>"

fun validate_topics :: "string \<Rightarrow> topicDef list \<Rightarrow> gerr option" where
  "validate_topics grp [] = None"
| "validate_topics grp (t # ts) =
     (if td_name t = loopName grp then Some (Err ''should not directly use loop stream'')
      else if td_name t = tableName grp then Some (Err ''should not directly use group table'')
      else validate_topics grp ts)"

definition GroupGraph_Validate :: "'cb GroupGraph \<Rightarrow> gerr option" where
  "GroupGraph_Validate gg =
     (if length (gg_loopStream gg) > 1 then Some (Err ''more than one loop stream in group graph'')
      else if length (gg_groupTable gg) > 1 then Some (Err ''more than one group table in group graph'')
      else if length (gg_inputStreams gg) = 0 then Some (Err ''no input stream in group graph'')
      else validate_topics (gg_group gg)
             (chainEdges [gg_outputStreams gg, gg_inputStreams gg, gg_inputTables gg, gg_crossTables gg]))"

section \<open>Well-formed graphs\<close>

text \<open>What \<open>DefineGroup\<close> establishes: the maps agree with the lists of edges.\<close>

definition graph_ok :: "'cb GroupGraph \<Rightarrow> bool" where
  "graph_ok gg \<longleftrightarrow>
     distinct (Edges_Topics (gg_inputStreams gg)) \<and> '''' \<notin> set (Edges_Topics (gg_inputStreams gg)) \<and>
     (\<forall>t. gg_outputStreamTopics gg t \<longleftrightarrow> t \<in> set (Edges_Topics (gg_outputStreams gg))) \<and>
     (\<forall>t. gg_joinCheck gg t \<longleftrightarrow> t \<in> set (Edges_Topics (gg_inputTables gg))) \<and>
     dom (gg_callbacks gg) = set (Edges_Topics (gg_inputStreams gg)) \<union> set (Edges_Topics (gg_loopStream gg)) \<and>
     dom (gg_codecs gg) = set (Edges_Topics (concat [gg_inputStreams gg, gg_inputTables gg,
       gg_crossTables gg, gg_outputStreams gg, gg_loopStream gg, gg_groupTable gg])) \<and>
     set (Edges_Topics (gg_loopStream gg)) \<subseteq> {loopName (gg_group gg)} \<and>
     set (Edges_Topics (gg_groupTable gg)) \<subseteq> {tableName (gg_group gg)}"

lemma define_input_ok:
  assumes "graph_ok gg" and "define_input t cb gg = Ret gg'"
  shows "graph_ok gg' \<and> gg_group gg' = gg_group gg"
proof -
  have n: "td_name t \<noteq> '''' \<and> gg_callbacks gg (td_name t) = None"
    and gg': "gg' = gg\<lparr>gg_codecs := (gg_codecs gg)(td_name t \<mapsto> td_codec t),
               gg_callbacks := (gg_callbacks gg)(td_name t \<mapsto> cb),
               gg_inputStreams := gg_inputStreams gg @ [t]\<rparr>"
    using assms(2) by (auto simp: define_input_def validateInputTopic_def split: if_splits)
  have "td_name t \<notin> td_name ` set (gg_inputStreams gg)"
    using assms(1) n unfolding graph_ok_def Edges_Topics_def by (metis UnI1 domIff set_map)
  with n gg' show ?thesis
    using assms(1) unfolding graph_ok_def Edges_Topics_def by auto
qed

lemma define_inputs_ok:
  "graph_ok gg \<Longrightarrow> define_inputs is gg = Ret gg' \<Longrightarrow> graph_ok gg' \<and> gg_group gg' = gg_group gg"
proof (induction "is" arbitrary: gg)
  case (Cons i "is")
  then show ?case
    using define_input_ok [of gg] by (cases i) (fastforce simp: go_bind_eq_Ret)
qed simp

lemma define_edge_ok:
  assumes "graph_ok gg" and "gg_group gg = grp" and "define_edge grp e gg = Ret gg'"
  shows "graph_ok gg' \<and> gg_group gg' = grp"
proof (cases e)
  case (Some x)
  note ok = assms(1,2)
  show ?thesis
  proof (cases x)
    case (InputStream t cb)
    then show ?thesis using define_input_ok assms Some by auto
  next
    case (InputStreams "is")
    then show ?thesis using define_inputs_ok assms Some by auto
  next
    case (LoopStream t cb)
    then have "gg' = gg\<lparr>gg_codecs := (gg_codecs gg)(loopName grp \<mapsto> td_codec t), gg_callbacks := (gg_callbacks gg)(loopName grp \<mapsto> cb),
          gg_loopStream := gg_loopStream gg @ [t\<lparr>td_name := loopName grp\<rparr>]\<rparr>"
      using assms(3) Some by (simp add: Let_def GroupTable_name_def)
    with ok show ?thesis unfolding graph_ok_def Edges_Topics_def by auto
  next
    case (InputTable t)
    then have "gg' = gg\<lparr>gg_codecs := (gg_codecs gg)(td_name t \<mapsto> td_codec t), gg_inputTables := gg_inputTables gg @ [t],
          gg_joinCheck := (gg_joinCheck gg)(td_name t := True)\<rparr>"
      using assms(3) Some by (simp add: Let_def GroupTable_name_def)
    with ok show ?thesis unfolding graph_ok_def Edges_Topics_def by auto
  next
    case (CrossTable t)
    then have "gg' = gg\<lparr>gg_codecs := (gg_codecs gg)(td_name t \<mapsto> td_codec t), gg_crossTables := gg_crossTables gg @ [t]\<rparr>"
      using assms(3) Some by (simp add: Let_def GroupTable_name_def)
    with ok show ?thesis unfolding graph_ok_def Edges_Topics_def by auto
  next
    case (GroupTable t)
    then have "gg' = gg\<lparr>gg_codecs := (gg_codecs gg)(tableName grp \<mapsto> td_codec t), 
          gg_groupTable := gg_groupTable gg @ [t\<lparr>td_name := tableName grp\<rparr>]\<rparr>"
      using assms(3) Some by (simp add: Let_def GroupTable_name_def)
    with ok show ?thesis unfolding graph_ok_def Edges_Topics_def by auto
  next
    case (OutputStream t)
    then have "gg' = gg\<lparr>gg_codecs := (gg_codecs gg)(td_name t \<mapsto> td_codec t), gg_outputStreams := gg_outputStreams gg @ [t],
          gg_outputStreamTopics := (gg_outputStreamTopics gg)(td_name t := True)\<rparr>"
      using assms(3) Some by (simp add: Let_def GroupTable_name_def)
    with ok show ?thesis unfolding graph_ok_def Edges_Topics_def by auto
  qed
qed (use assms in simp)

lemma define_edges_ok:
  "graph_ok gg \<Longrightarrow> gg_group gg = grp \<Longrightarrow> define_edges grp es gg = Ret gg' \<Longrightarrow>
   graph_ok gg' \<and> gg_group gg' = grp"
proof (induction es arbitrary: gg)
  case (Cons e es)
  then obtain g1 where "define_edge grp e gg = Ret g1" "define_edges grp es g1 = Ret gg'"
    by (auto simp: go_bind_eq_Ret)
  then show ?case using define_edge_ok [OF Cons.prems(1,2)] Cons.IH by blast
qed simp

lemma DefineGroup_ok: "DefineGroup grp es = Ret gg \<Longrightarrow> graph_ok gg \<and> gg_group gg = grp"
  unfolding DefineGroup_def
  by (rule define_edges_ok) (simp_all add: graph_ok_def Edges_Topics_def)

lemma validate_topics_None:
  "validate_topics grp ts = None \<longleftrightarrow> loopName grp \<notin> td_name ` set ts \<and> tableName grp \<notin> td_name ` set ts"
  by (induction ts) auto


definition sample_graph :: "unit GroupGraph" where
  "sample_graph = (case DefineGroup ''g'' [Some (Input ''in'' (Some StringCodec) (Some ())),
     Some (Output ''out'' (Some StringCodec)), Some (Loop (Some StringCodec) (Some ())),
     Some (Persist (Some Int64Codec))] of Ret g \<Rightarrow> g | Panic m \<Rightarrow> undefined)"

lemma sample_graph_defined:
  "DefineGroup ''g'' [Some (Input ''in'' (Some StringCodec) (Some ())),
     Some (Output ''out'' (Some StringCodec)), Some (Loop (Some StringCodec) (Some ())),
     Some (Persist (Some Int64Codec))] = Ret sample_graph"
  by (simp add: sample_graph_def DefineGroup_def Input_def Output_def Loop_def Persist_def
      define_input_def validateInputTopic_def Let_def)


end
