(* ===== verification/Goka_Producer.thy ===== *)
theory Goka_Producer
  imports Goka_Codec Goka_Headers
begin

text \<open>
  Promises (\<open>promise.go\<close>), the Kafka producer (\<open>producer.go\<close>) and the emitter (\<open>emitter.go\<close>).

  \<^item> A callback is a value of the type \<open>'c\<close>; the operations of a promise return the callbacks they
    call, each with the message and the error it is called with, in the order of the calls. The
    methods run under the promise's mutex.
  \<^item> The sarama producer is outside: what goes to its input channel is the list of messages sent,
    and a step of the two goroutines of \<open>run\<close> takes the outcome of one of them.
\<close>

section \<open>Promises\<close>

record ProducerMessage =
  pm_Topic :: string
  pm_Key :: string
  pm_Value :: slice
  pm_Headers :: "RecordHeader list"
  pm_Offset :: int
  pm_Metadata :: nat

record 'c Promise =
  pr_err :: "gerr option"
  pr_msg :: "ProducerMessage option"
  pr_finished :: bool
  pr_callbacks :: "'c list"

type_synonym 'c call = "'c \<times> ProducerMessage option \<times> gerr option"

definition NewPromise :: "'c Promise" where
  "NewPromise = \<lparr>pr_err = None, pr_msg = None, pr_finished = False, pr_callbacks = []\<rparr>"

definition Promise_executeCallbacks :: "'c Promise \<Rightarrow> 'c Promise \<times> 'c call list" where
  "Promise_executeCallbacks p =
     (if pr_finished p then (p, [])
      else (p\<lparr>pr_finished := True\<rparr>, map (\<lambda>s. (s, pr_msg p, pr_err p)) (pr_callbacks p)))"

definition Promise_ThenWithMessage :: "'c \<Rightarrow> 'c Promise \<Rightarrow> 'c Promise \<times> 'c call list" where
  "Promise_ThenWithMessage callback p =
     (if pr_finished p then (p, [(callback, pr_msg p, pr_err p)])
      else (p\<lparr>pr_callbacks := pr_callbacks p @ [callback]\<rparr>, []))"

text \<open>\<open>Then\<close> chains a callback that ignores the message.\<close>

definition Promise_Then :: "'c \<Rightarrow> 'c Promise \<Rightarrow> 'c Promise \<times> 'c call list" where
  "Promise_Then callback p =
     (case Promise_ThenWithMessage callback p of (p, cs) \<Rightarrow> (p, map (\<lambda>(c, m, e). (c, None, e)) cs))"

definition Promise_finish ::
  "ProducerMessage option \<Rightarrow> gerr option \<Rightarrow> 'c Promise \<Rightarrow> 'c Promise \<times> 'c call list" where
  "Promise_finish msg err p = Promise_executeCallbacks (p\<lparr>pr_err := err, pr_msg := msg\<rparr>)"

datatype 'c promise_op = Chain 'c | ChainWithMessage 'c | Finish "ProducerMessage option" "gerr option"

fun promise_do :: "'c promise_op \<Rightarrow> 'c Promise \<Rightarrow> 'c Promise \<times> 'c call list" where
  "promise_do (Chain c) p = Promise_Then c p"
| "promise_do (ChainWithMessage c) p = Promise_ThenWithMessage c p"
| "promise_do (Finish msg err) p = Promise_finish msg err p"

fun promise_run :: "'c promise_op list \<Rightarrow> 'c Promise \<Rightarrow> 'c Promise \<times> 'c call list" where
  "promise_run [] p = (p, [])"
| "promise_run (x # xs) p =
     (case promise_do x p of (p, cs) \<Rightarrow> case promise_run xs p of (p, ds) \<Rightarrow> (p, cs @ ds))"

fun chained :: "'c promise_op list \<Rightarrow> 'c list" where
  "chained [] = []"
| "chained (Chain c # xs) = c # chained xs"
| "chained (ChainWithMessage c # xs) = c # chained xs"
| "chained (Finish msg err # xs) = chained xs"

fun is_finish :: "'c promise_op \<Rightarrow> bool" where
  "is_finish (Finish msg err) = True"
| "is_finish _ = False"

lemma promise_run_finished:
  "pr_finished p \<Longrightarrow> promise_run xs p = (q, cs) \<Longrightarrow> pr_finished q \<and> map fst cs = chained xs"
proof (induction xs arbitrary: p cs)
  case (Cons x xs)
  obtain p1 c1 where d: "promise_do x p = (p1, c1)" by (cases "promise_do x p")
  obtain cs' where r: "promise_run xs p1 = (q, cs')" "cs = c1 @ cs'"
    using Cons.prems(2) d by (auto split: prod.splits)
  have "pr_finished p1 \<and> map fst c1 @ chained xs = chained (x # xs)"
    using d Cons.prems(1)
    by (cases x) (auto simp: Promise_Then_def Promise_ThenWithMessage_def Promise_finish_def
        Promise_executeCallbacks_def)
  then show ?case using Cons.IH [OF _ r(1)] r(2) by auto
qed simp

lemma promise_run_open:
  assumes "\<not> pr_finished p" and "promise_run xs p = (q, cs)"
  shows "if \<exists>x \<in> set xs. is_finish x then map fst cs = pr_callbacks p @ chained xs
         else cs = [] \<and> \<not> pr_finished q"
  using assms
proof (induction xs arbitrary: p cs)
  case (Cons x xs)
  obtain p1 c1 where d: "promise_do x p = (p1, c1)" by (cases "promise_do x p")
  obtain cs' where r: "promise_run xs p1 = (q, cs')" "cs = c1 @ cs'"
    using Cons.prems(2) d by (auto split: prod.splits)
  show ?case
  proof (cases "is_finish x")
    case True
    then have "pr_finished p1 \<and> map fst c1 = pr_callbacks p \<and> chained (x # xs) = chained xs"
      using d Cons.prems(1)
      by (cases x) (auto simp: Promise_finish_def Promise_executeCallbacks_def comp_def)
    then show ?thesis using promise_run_finished [OF _ r(1)] r(2) True by auto
  next
    case False
    then obtain c where "chained (x # xs) = c # chained xs" "c1 = []" "\<not> pr_finished p1"
      "pr_callbacks p1 = pr_callbacks p @ [c]"
      using d Cons.prems(1)
      by (cases x) (auto simp: Promise_Then_def Promise_ThenWithMessage_def)
    then show ?thesis using Cons.IH [OF _ r(1)] r(2) False by auto
  qed
qed simp

text \<open>C20: however the callbacks are chained to a promise and however often it is finished, every
  callback is called exactly once, in the order of chaining, as soon as the promise has been finished,
  and none is called before.\<close>

theorem promise_calls_each_once:
  assumes "promise_run xs NewPromise = (p, cs)"
  shows "if \<exists>x \<in> set xs. is_finish x then map fst cs = chained xs else cs = []"
  using promise_run_open [OF _ assms] by (auto simp: NewPromise_def split: if_splits)

theorem promise_calls_each_once_witness:
  "map fst (snd (promise_run [Chain (CHR ''a''), Finish None None, ChainWithMessage (CHR ''b''), Finish None (Some ErrContext)]
     NewPromise)) = [CHR ''a'', CHR ''b'']"
proof -
  let ?xs = "[Chain (CHR ''a''), Finish None None, ChainWithMessage (CHR ''b''), Finish None (Some ErrContext)]"
  obtain p cs where r: "promise_run ?xs NewPromise = (p, cs)" by (cases "promise_run ?xs NewPromise")
  from promise_calls_each_once [OF r] r show ?thesis by simp
qed

section \<open>The producer\<close>

text \<open>The promises are numbered; a message carries the number of its promise. Writing to the input
  channel after \<open>AsyncClose\<close> panics.\<close>

record 'c producer =
  pd_sent :: "ProducerMessage list"
  pd_promises :: "'c Promise list"
  pd_closed :: bool

definition producer_EmitWithHeaders ::
  "string \<Rightarrow> string \<Rightarrow> slice \<Rightarrow> Headers \<Rightarrow> 'c producer \<Rightarrow> ('c producer \<times> nat) go" where
  "producer_EmitWithHeaders topic key val hdr p =
     (let promise = length (pd_promises p); p = p\<lparr>pd_promises := pd_promises p @ [NewPromise]\<rparr>
      in if pd_closed p then Panic ''send on closed channel''
         else Ret (p\<lparr>pd_sent := pd_sent p @ [\<lparr>pm_Topic = topic, pm_Key = key, pm_Value = val,
                     pm_Headers = Headers_ToSarama hdr, pm_Offset = 0, pm_Metadata = promise\<rparr>]\<rparr>, promise))"

definition producer_Emit ::
  "string \<Rightarrow> string \<Rightarrow> slice \<Rightarrow> 'c producer \<Rightarrow> ('c producer \<times> nat) go" where
  "producer_Emit topic key val p =
     (let promise = length (pd_promises p); p = p\<lparr>pd_promises := pd_promises p @ [NewPromise]\<rparr>
      in if pd_closed p then Panic ''send on closed channel''
         else Ret (p\<lparr>pd_sent := pd_sent p @ [\<lparr>pm_Topic = topic, pm_Key = key, pm_Value = val,
                     pm_Headers = [], pm_Offset = 0, pm_Metadata = promise\<rparr>]\<rparr>, promise))"

text \<open>The two goroutines of \<open>run\<close>: sarama reports an error or a success for a message.\<close>

definition producer_run_error :: "ProducerMessage \<Rightarrow> gerr \<Rightarrow> 'c producer \<Rightarrow> 'c producer \<times> 'c call list" where
  "producer_run_error msg err p =
     (case Promise_finish None (Some err) (pd_promises p ! pm_Metadata msg) of (pr, cs) \<Rightarrow>
        (p\<lparr>pd_promises := (pd_promises p)[pm_Metadata msg := pr]\<rparr>, cs))"

definition producer_run_success :: "ProducerMessage \<Rightarrow> 'c producer \<Rightarrow> 'c producer \<times> 'c call list" where
  "producer_run_success msg p =
     (case Promise_finish (Some msg) None (pd_promises p ! pm_Metadata msg) of (pr, cs) \<Rightarrow>
        (p\<lparr>pd_promises := (pd_promises p)[pm_Metadata msg := pr]\<rparr>, cs))"

definition producer_Close :: "'c producer \<Rightarrow> 'c producer \<times> gerr option" where
  "producer_Close p = (p\<lparr>pd_closed := True\<rparr>, None)"

section \<open>The emitter\<close>

text \<open>Callbacks on the emitter's promises: its own, which counts the message as done, and those of
  its users.\<close>

datatype emitter_cb = EmitDone | UserCallback nat

record Emitter =
  em_codec :: Codec
  em_producer :: "emitter_cb producer"
  em_topic :: string
  em_defaultHeaders :: Headers
  em_wg :: int
  em_done :: bool

definition NewEmitter ::
  "emitter_cb producer result \<Rightarrow> string \<Rightarrow> Codec \<Rightarrow> Headers \<Rightarrow> Emitter result" where
  "NewEmitter built topic codec defaultHeaders =
     (case built of
        Inl err \<Rightarrow> Inl (Wrap ''error creating Kafka producer: %v'' err)
      | Inr pd \<Rightarrow> Inr \<lparr>em_codec = codec, em_producer = pd, em_topic = topic,
          em_defaultHeaders = defaultHeaders, em_wg = 0, em_done = False\<rparr>)"

definition Emitter_emitDone :: "Emitter \<Rightarrow> Emitter go" where
  "Emitter_emitDone e =
     (if em_wg e - 1 < 0 then Panic ''sync: negative WaitGroup counter''
      else Ret (e\<lparr>em_wg := em_wg e - 1\<rparr>))"

fun Emitter_calls :: "emitter_cb call list \<Rightarrow> Emitter \<Rightarrow> Emitter go" where
  "Emitter_calls [] e = Ret e"
| "Emitter_calls ((EmitDone, msg, err) # cs) e = go_bind (Emitter_emitDone e) (Emitter_calls cs)"
| "Emitter_calls ((UserCallback n, msg, err) # cs) e = Emitter_calls cs e"

definition Emitter_then :: "emitter_cb \<Rightarrow> nat \<Rightarrow> Emitter \<Rightarrow> Emitter go" where
  "Emitter_then c i e =
     (case Promise_Then c (pd_promises (em_producer e) ! i) of (pr, cs) \<Rightarrow>
        Emitter_calls cs (e\<lparr>em_producer := (em_producer e)\<lparr>pd_promises :=
          (pd_promises (em_producer e))[i := pr]\<rparr>\<rparr>))"

definition Emitter_EmitWithHeaders ::
  "string \<Rightarrow> gval \<Rightarrow> Headers \<Rightarrow> Emitter \<Rightarrow> (Emitter \<times> nat result) go" where
  "Emitter_EmitWithHeaders key msg hdr e =
     (case (if msg \<noteq> VNil then codec_Encode (em_codec e) msg else Inr None) of
        Inl err \<Rightarrow> Ret (e, Inl (Wrap ''Error encoding value for key %s in topic %s: %v'' err))
      | Inr data \<Rightarrow>
          if em_done e then
            let i = length (pd_promises (em_producer e));
                pr = fst (Promise_finish None (Some ErrEmitterAlreadyClosed) NewPromise)
            in Ret (e\<lparr>em_producer := (em_producer e)\<lparr>pd_promises := pd_promises (em_producer e) @ [pr]\<rparr>\<rparr>, Inr i)
          else
            let e = e\<lparr>em_wg := em_wg e + 1\<rparr>
            in go_bind (if hdr = None \<and> em_defaultHeaders e = None
                        then producer_Emit (em_topic e) key data (em_producer e)
                        else producer_EmitWithHeaders (em_topic e) key data
                               (Headers_Merged (em_defaultHeaders e) [hdr]) (em_producer e)) (\<lambda>(pd, i).
               go_bind (Emitter_then EmitDone i (e\<lparr>em_producer := pd\<rparr>)) (\<lambda>e. Ret (e, Inr i))))"

definition Emitter_Emit :: "string \<Rightarrow> gval \<Rightarrow> Emitter \<Rightarrow> (Emitter \<times> nat result) go" where
  "Emitter_Emit key msg e = Emitter_EmitWithHeaders key msg None e"

text \<open>\<open>Finish\<close> in two steps: closing \<open>done\<close>, and what follows the wait for the pending messages.\<close>

definition Emitter_Finish_begin :: "Emitter \<Rightarrow> Emitter go" where
  "Emitter_Finish_begin e =
     (if em_done e then Panic ''close of closed channel'' else Ret (e\<lparr>em_done := True\<rparr>))"

definition Emitter_Finish_ready :: "Emitter \<Rightarrow> bool" where
  "Emitter_Finish_ready e \<longleftrightarrow> em_done e \<and> em_wg e = 0"

definition Emitter_Finish_end :: "Emitter \<Rightarrow> Emitter \<times> gerr option" where
  "Emitter_Finish_end e =
     (case producer_Close (em_producer e) of (p, err) \<Rightarrow> (e\<lparr>em_producer := p\<rparr>, err))"

datatype emitter_op =
    EmEmit string gval Headers
  | EmThen nat nat
  | EmSuccess ProducerMessage
  | EmError ProducerMessage gerr
  | EmFinish
  | EmFinishEnd

text \<open>A step of an emitter's life; sarama reports on messages that have been sent, and \<open>Finish\<close>
  ends only when it is ready.\<close>

fun emitter_do :: "emitter_op \<Rightarrow> Emitter \<Rightarrow> Emitter go" where
  "emitter_do (EmEmit key msg hdr) e = go_bind (Emitter_EmitWithHeaders key msg hdr e) (\<lambda>(e, r). Ret e)"
| "emitter_do (EmThen i n) e =
     (if i < length (pd_promises (em_producer e)) then Emitter_then (UserCallback n) i e else Ret e)"
| "emitter_do (EmSuccess msg) e =
     (if msg \<in> set (pd_sent (em_producer e)) then
        case producer_run_success msg (em_producer e) of (p, cs) \<Rightarrow> Emitter_calls cs (e\<lparr>em_producer := p\<rparr>)
      else Ret e)"
| "emitter_do (EmError msg err) e =
     (if msg \<in> set (pd_sent (em_producer e)) then
        case producer_run_error msg err (em_producer e) of (p, cs) \<Rightarrow> Emitter_calls cs (e\<lparr>em_producer := p\<rparr>)
      else Ret e)"
| "emitter_do EmFinish e = (if em_done e then Ret e else Emitter_Finish_begin e)"
| "emitter_do EmFinishEnd e = (if Emitter_Finish_ready e then Ret (fst (Emitter_Finish_end e)) else Ret e)"

fun emitter_run :: "emitter_op list \<Rightarrow> Emitter \<Rightarrow> Emitter go" where
  "emitter_run [] e = Ret e"
| "emitter_run (x # xs) e = go_bind (emitter_do x e) (emitter_run xs)"

text \<open>The invariant: every message has its promise, every promise that is not finished has the
  emitter's callback once, and the wait group counts them. The producer is closed only at the end.\<close>

definition done_count :: "emitter_cb Promise \<Rightarrow> nat" where
  "done_count p = (if pr_finished p then 0 else count_list (pr_callbacks p) EmitDone)"

definition emitter_inv :: "Emitter \<Rightarrow> bool" where
  "emitter_inv e \<longleftrightarrow>
     (\<forall>m \<in> set (pd_sent (em_producer e)). pm_Metadata m < length (pd_promises (em_producer e))) \<and>
     (\<forall>p \<in> set (pd_promises (em_producer e)). \<not> pr_finished p \<longrightarrow> count_list (pr_callbacks p) EmitDone = 1) \<and>
     em_wg e = int (sum_list (map done_count (pd_promises (em_producer e)))) \<and>
     (pd_closed (em_producer e) \<longrightarrow> em_done e)"

definition done_calls :: "emitter_cb call list \<Rightarrow> nat" where
  "done_calls cs = length (filter (\<lambda>c. fst c = EmitDone) cs)"

lemma Emitter_calls_ok:
  "int (done_calls cs) \<le> em_wg e \<Longrightarrow> Emitter_calls cs e = Ret (e\<lparr>em_wg := em_wg e - int (done_calls cs)\<rparr>)"
proof (induction cs arbitrary: e)
  case (Cons c cs)
  obtain cb m er where c: "c = (cb, m, er)" by (cases c)
  show ?case
  proof (cases cb)
    case EmitDone
    with Cons.prems c Cons.IH [of "e\<lparr>em_wg := em_wg e - 1\<rparr>"] show ?thesis
      by (simp add: done_calls_def Emitter_emitDone_def)
  next
    case (UserCallback n)
    with Cons c show ?thesis by (simp add: done_calls_def)
  qed
qed (simp add: done_calls_def)

lemma sum_list_update_done:
  fixes f :: "'a \<Rightarrow> nat"
  assumes "i < length xs"
  shows "sum_list (map f (xs[i := x])) + f (xs ! i) = sum_list (map f xs) + f x"
  using assms
proof (induction xs arbitrary: i)
  case (Cons y ys)
  then show ?case by (cases i) simp_all
qed simp

text \<open>Replacing a promise by one of which \<open>n\<close> emitter callbacks have just been called.\<close>

lemma emitter_inv_update:
  assumes inv: "emitter_inv e" and i: "i < length (pd_promises (em_producer e))"
    and pr: "\<not> pr_finished pr \<longrightarrow> count_list (pr_callbacks pr) EmitDone = 1"
    and n: "done_count pr + done_calls cs = done_count (pd_promises (em_producer e) ! i)"
  defines "e' \<equiv> e\<lparr>em_producer := (em_producer e)\<lparr>pd_promises := (pd_promises (em_producer e))[i := pr]\<rparr>\<rparr>"
  shows "\<exists>f. Emitter_calls cs e' = Ret f \<and> emitter_inv f \<and> em_done f = em_done e \<and>
    pd_sent (em_producer f) = pd_sent (em_producer e)"
proof -
  let ?ps = "pd_promises (em_producer e)"
  have sum: "sum_list (map done_count (?ps[i := pr])) + done_calls cs = sum_list (map done_count ?ps)"
    using sum_list_update_done [OF i, of done_count pr] n by simp
  then have wg: "em_wg e' = int (sum_list (map done_count (?ps[i := pr]))) + int (done_calls cs)"
    using inv by (simp add: emitter_inv_def e'_def)
  then have "Emitter_calls cs e' = Ret (e'\<lparr>em_wg := em_wg e' - int (done_calls cs)\<rparr>)"
    by (intro Emitter_calls_ok) simp
  moreover have "\<forall>p \<in> set (?ps[i := pr]). \<not> pr_finished p \<longrightarrow> count_list (pr_callbacks p) EmitDone = 1"
    using inv pr set_update_subset_insert [of ?ps i pr] unfolding emitter_inv_def by blast
  ultimately show ?thesis
    using inv wg unfolding emitter_inv_def e'_def by simp
qed

lemma done_calls_Nil [simp]: "done_calls [] = 0"
  by (simp add: done_calls_def)

lemma done_calls_map: "done_calls (map (\<lambda>s. (s, m, e)) cbs) = count_list cbs EmitDone"
  by (induction cbs) (auto simp: done_calls_def)

lemma finish_counts:
  assumes "Promise_finish msg err p = (pr, cs)"
  shows "pr_finished pr" and "done_count pr + done_calls cs = done_count p"
  using assms
  by (auto simp: Promise_finish_def Promise_executeCallbacks_def done_count_def done_calls_map
      split: if_splits)

lemma emitter_finish_step:
  assumes "emitter_inv e" and "m \<in> set (pd_sent (em_producer e))"
    and "Promise_finish msg err (pd_promises (em_producer e) ! pm_Metadata m) = (pr, cs)"
  shows "\<exists>f. Emitter_calls cs (e\<lparr>em_producer := (em_producer e)\<lparr>pd_promises :=
      (pd_promises (em_producer e))[pm_Metadata m := pr]\<rparr>\<rparr>) = Ret f \<and> emitter_inv f \<and>
    em_done f = em_done e \<and> pd_sent (em_producer f) = pd_sent (em_producer e)"
  using emitter_inv_update [OF assms(1), of "pm_Metadata m" pr cs] finish_counts [OF assms(3)] assms(1,2)
  unfolding emitter_inv_def by blast

lemma emitter_then_user:
  assumes "emitter_inv e" and "i < length (pd_promises (em_producer e))"
  shows "\<exists>f. Emitter_then (UserCallback n) i e = Ret f \<and> emitter_inv f \<and>
    em_done f = em_done e \<and> pd_sent (em_producer f) = pd_sent (em_producer e)"
proof -
  let ?p = "pd_promises (em_producer e) ! i"
  obtain pr cs where t: "Promise_Then (UserCallback n) ?p = (pr, cs)"
    by (cases "Promise_Then (UserCallback n) ?p")
  then have "pr_finished pr = pr_finished ?p \<and> count_list (pr_callbacks pr) EmitDone = count_list (pr_callbacks ?p) EmitDone \<and>
      done_calls cs = 0"
    by (auto simp: Promise_Then_def Promise_ThenWithMessage_def done_calls_def split: if_splits)
  then have c: "done_count pr + done_calls cs = done_count ?p"
    and pr: "\<not> pr_finished pr \<longrightarrow> count_list (pr_callbacks pr) EmitDone = 1"
    using assms unfolding emitter_inv_def by (auto simp: done_count_def)
  from emitter_inv_update [OF assms pr c] t show ?thesis by (simp add: Emitter_then_def)
qed

text \<open>Sending a message: a new promise with the emitter's callback.\<close>

lemma emitter_send_step:
  assumes inv: "emitter_inv e" and md: "pm_Metadata m = length (pd_promises (em_producer e))"
  defines "p \<equiv> em_producer e"
  defines "e1 \<equiv> e\<lparr>em_wg := em_wg e + 1, em_producer := p\<lparr>pd_promises := pd_promises p @ [NewPromise],
      pd_sent := pd_sent p @ [m]\<rparr>\<rparr>"
  shows "\<exists>f. Emitter_then EmitDone (length (pd_promises p)) e1 = Ret f \<and> emitter_inv f \<and> em_done f = em_done e"
proof -
  have "Promise_Then EmitDone NewPromise = (NewPromise\<lparr>pr_callbacks := [EmitDone]\<rparr>, [])"
    by (simp add: Promise_Then_def Promise_ThenWithMessage_def NewPromise_def)
  then have "Emitter_then EmitDone (length (pd_promises p)) e1 = Ret (e1\<lparr>em_producer := (em_producer e1)\<lparr>pd_promises :=
      pd_promises p @ [NewPromise\<lparr>pr_callbacks := [EmitDone]\<rparr>]\<rparr>\<rparr>)"
    by (simp add: Emitter_then_def e1_def)
  then show ?thesis
    using inv md by (auto simp: emitter_inv_def e1_def p_def NewPromise_def done_count_def)
qed

lemma emitter_emit_step:
  assumes "emitter_inv e"
  shows "\<exists>f r. Emitter_EmitWithHeaders key msg hdr e = Ret (f, r) \<and> emitter_inv f \<and> em_done f = em_done e \<and>
    (em_done e \<longrightarrow> pd_sent (em_producer f) = pd_sent (em_producer e))"
proof (cases "if msg \<noteq> VNil then codec_Encode (em_codec e) msg else Inr None")
  case (Inl err)
  then show ?thesis using assms by (simp add: Emitter_EmitWithHeaders_def)
next
  case (Inr data)
  show ?thesis
  proof (cases "em_done e")
    case True
    have "pr_finished (fst (Promise_finish None (Some ErrEmitterAlreadyClosed) NewPromise))"
      by (simp add: Promise_finish_def Promise_executeCallbacks_def NewPromise_def)
    with Inr True assms show ?thesis
      by (auto simp: Emitter_EmitWithHeaders_def emitter_inv_def done_count_def Let_def less_SucI)
  next
    case False
    then have "\<not> pd_closed (em_producer e)" using assms unfolding emitter_inv_def by blast
    define m where "m = \<lparr>pm_Topic = em_topic e, pm_Key = key, pm_Value = data,
      pm_Headers = (if hdr = None \<and> em_defaultHeaders e = None then []
        else Headers_ToSarama (Headers_Merged (em_defaultHeaders e) [hdr])),
      pm_Offset = 0, pm_Metadata = length (pd_promises (em_producer e))\<rparr>"
    have m: "pm_Metadata m = length (pd_promises (em_producer e))" by (simp add: m_def)
    have s: "(if hdr = None \<and> em_defaultHeaders e = None then producer_Emit (em_topic e) key data (em_producer e)
         else producer_EmitWithHeaders (em_topic e) key data (Headers_Merged (em_defaultHeaders e) [hdr]) (em_producer e)) =
       Ret ((em_producer e)\<lparr>pd_promises := pd_promises (em_producer e) @ [NewPromise],
          pd_sent := pd_sent (em_producer e) @ [m]\<rparr>, length (pd_promises (em_producer e)))"
      using \<open>\<not> pd_closed (em_producer e)\<close>
      by (simp add: producer_Emit_def producer_EmitWithHeaders_def Let_def m_def)
    from emitter_send_step [OF assms m] obtain f where
      "Emitter_then EmitDone (length (pd_promises (em_producer e))) (e\<lparr>em_wg := em_wg e + 1, em_producer :=
        (em_producer e)\<lparr>pd_promises := pd_promises (em_producer e) @ [NewPromise],
          pd_sent := pd_sent (em_producer e) @ [m]\<rparr>\<rparr>) = Ret f" "emitter_inv f" "em_done f = em_done e" by blast
    with Inr False s show ?thesis by (simp add: Emitter_EmitWithHeaders_def Let_def split del: if_split cong: if_cong)
  qed
qed

lemma emitter_do_ok:
  assumes "emitter_inv e"
  shows "\<exists>f. emitter_do x e = Ret f \<and> emitter_inv f \<and> (em_done e \<longrightarrow> em_done f) \<and>
    (em_done e \<longrightarrow> pd_sent (em_producer f) = pd_sent (em_producer e))"
proof (cases x)
  case (EmEmit key msg hdr)
  then show ?thesis using emitter_emit_step [OF assms, of key msg hdr] by auto
next
  case (EmThen i n)
  then show ?thesis using emitter_then_user [OF assms, of i n] assms by auto
next
  case (EmSuccess m)
  obtain pr cs where "Promise_finish (Some m) None (pd_promises (em_producer e) ! pm_Metadata m) = (pr, cs)"
    by (cases "Promise_finish (Some m) None (pd_promises (em_producer e) ! pm_Metadata m)")
  with EmSuccess emitter_finish_step [OF assms _ this] assms show ?thesis
    by (auto simp: producer_run_success_def)
next
  case (EmError m err)
  obtain pr cs where "Promise_finish None (Some err) (pd_promises (em_producer e) ! pm_Metadata m) = (pr, cs)"
    by (cases "Promise_finish None (Some err) (pd_promises (em_producer e) ! pm_Metadata m)")
  with EmError emitter_finish_step [OF assms _ this] assms show ?thesis
    by (auto simp: producer_run_error_def)
next
  case EmFinish
  then show ?thesis using assms by (auto simp: Emitter_Finish_begin_def emitter_inv_def)
next
  case EmFinishEnd
  then show ?thesis
    using assms by (auto simp: Emitter_Finish_end_def producer_Close_def Emitter_Finish_ready_def emitter_inv_def)
qed

lemma emitter_run_ok:
  "emitter_inv e \<Longrightarrow> \<exists>f. emitter_run xs e = Ret f \<and> emitter_inv f \<and> (em_done e \<longrightarrow> em_done f) \<and>
    (em_done e \<longrightarrow> pd_sent (em_producer f) = pd_sent (em_producer e))"
proof (induction xs arbitrary: e)
  case (Cons x xs)
  obtain g where g: "emitter_do x e = Ret g" "emitter_inv g" "em_done e \<longrightarrow> em_done g"
    "em_done e \<longrightarrow> pd_sent (em_producer g) = pd_sent (em_producer e)"
    using emitter_do_ok [OF Cons.prems] by blast
  with Cons.IH [OF g(2)] show ?case by auto
qed simp

lemma inv_all_finished:
  assumes "emitter_inv e"
  shows "em_wg e = 0 \<longleftrightarrow> (\<forall>p \<in> set (pd_promises (em_producer e)). pr_finished p)"
  using assms unfolding emitter_inv_def done_count_def by auto




section \<open>Emitting synchronously\<close>

text \<open>\<open>EmitSyncWithHeaders\<close> emits, chains a callback that stores the error and closes a channel (the
  callback number \<open>n\<close>), and waits for that channel: \<open>xs\<close> is what happens to the emitter meanwhile. The
  callback runs with the error of the promise in the step that finishes it. The result \<open>None\<close>: the
  call is still waiting.\<close>

definition promise_outcome :: "nat \<Rightarrow> Emitter \<Rightarrow> gerr option option" where
  "promise_outcome i e =
     (let pr = pd_promises (em_producer e) ! i in if pr_finished pr then Some (pr_err pr) else None)"

fun EmitSync_wait :: "nat \<Rightarrow> emitter_op list \<Rightarrow> Emitter \<Rightarrow> (Emitter \<times> gerr option option) go" where
  "EmitSync_wait i [] e = Ret (e, promise_outcome i e)"
| "EmitSync_wait i (x # xs) e =
     (case promise_outcome i e of
        Some err \<Rightarrow> Ret (e, Some err)
      | None \<Rightarrow> go_bind (emitter_do x e) (EmitSync_wait i xs))"

definition Emitter_EmitSyncWithHeaders ::
  "string \<Rightarrow> gval \<Rightarrow> Headers \<Rightarrow> nat \<Rightarrow> emitter_op list \<Rightarrow> Emitter \<Rightarrow> (Emitter \<times> gerr option option) go" where
  "Emitter_EmitSyncWithHeaders key msg hdr n xs e =
     go_bind (Emitter_EmitWithHeaders key msg hdr e) (\<lambda>(e, r).
       case r of
         Inl err \<Rightarrow> Ret (e, Some (Some err))
       | Inr i \<Rightarrow> go_bind (Emitter_then (UserCallback n) i e) (EmitSync_wait i xs))"

definition Emitter_EmitSync ::
  "string \<Rightarrow> gval \<Rightarrow> nat \<Rightarrow> emitter_op list \<Rightarrow> Emitter \<Rightarrow> (Emitter \<times> gerr option option) go" where
  "Emitter_EmitSync key msg n xs e = Emitter_EmitSyncWithHeaders key msg None n xs e"

text \<open>What a step reports about the promise number \<open>i\<close>.\<close>

fun op_outcome :: "nat \<Rightarrow> Emitter \<Rightarrow> emitter_op \<Rightarrow> gerr option option" where
  "op_outcome i e (EmSuccess m) =
     (if m \<in> set (pd_sent (em_producer e)) \<and> pm_Metadata m = i then Some None else None)"
| "op_outcome i e (EmError m err) =
     (if m \<in> set (pd_sent (em_producer e)) \<and> pm_Metadata m = i then Some (Some err) else None)"
| "op_outcome i e _ = None"

lemma Emitter_calls_producer: "Emitter_calls cs e = Ret f \<Longrightarrow> em_producer f = em_producer e"
proof (induction cs e rule: Emitter_calls.induct)
  case (2 msg err cs e)
  then show ?case by (auto simp: Emitter_emitDone_def split: if_splits)
qed auto

lemma Emitter_then_promises:
  assumes "Emitter_then c j e = Ret f"
  shows "pd_promises (em_producer f) = (pd_promises (em_producer e))[j := fst (Promise_Then c (pd_promises (em_producer e) ! j))]"
    and "pd_sent (em_producer f) = pd_sent (em_producer e)"
  using assms Emitter_calls_producer by (auto simp: Emitter_then_def split: prod.splits)

lemma Promise_Then_keeps:
  "pr_finished (fst (Promise_Then c p)) = pr_finished p" "pr_err (fst (Promise_Then c p)) = pr_err p"
  by (auto simp: Promise_Then_def Promise_ThenWithMessage_def)

lemma Promise_finish_fst:
  "pr_finished (fst (Promise_finish msg err p))" "pr_err (fst (Promise_finish msg err p)) = err"
  by (auto simp: Promise_finish_def Promise_executeCallbacks_def)

lemma Emitter_then_outcome:
  assumes "Emitter_then c j e = Ret f" and "i < length (pd_promises (em_producer e))"
  shows "promise_outcome i f = promise_outcome i e" and "i < length (pd_promises (em_producer f))"
  using Emitter_then_promises [OF assms(1)] assms(2)
  by (cases "i = j"; simp add: promise_outcome_def Promise_Then_keeps)+

lemma Emitter_EmitWithHeaders_promises:
  assumes "Emitter_EmitWithHeaders key msg hdr e = Ret (f, r)"
  shows "\<exists>ps. pd_promises (em_producer f) = pd_promises (em_producer e) @ ps \<and>
    (\<forall>i. r = Inr i \<longrightarrow> i = length (pd_promises (em_producer e)) \<and> length ps = 1)"
proof (cases "if msg \<noteq> VNil then codec_Encode (em_codec e) msg else Inr None")
  case (Inl err)
  then show ?thesis using assms by (auto simp: Emitter_EmitWithHeaders_def)
next
  case (Inr data)
  show ?thesis
  proof (cases "em_done e")
    case True
    then show ?thesis using assms Inr by (auto simp: Emitter_EmitWithHeaders_def Let_def)
  next
    case False
    then show ?thesis
      using assms Inr
      by (auto simp: Emitter_EmitWithHeaders_def Let_def producer_Emit_def producer_EmitWithHeaders_def
          go_bind_eq_Ret split: if_splits dest!: Emitter_then_promises(1))
  qed
qed

lemma Emitter_finish_outcome:
  assumes "Promise_finish msg err (pd_promises (em_producer e) ! j) = (pr, cs)"
    and "Emitter_calls cs (e\<lparr>em_producer := (em_producer e)\<lparr>pd_promises := (pd_promises (em_producer e))[j := pr]\<rparr>\<rparr>) = Ret f"
    and "i < length (pd_promises (em_producer e))"
  shows "promise_outcome i f = (if j = i then Some err else promise_outcome i e)"
    and "i < length (pd_promises (em_producer f))"
proof -
  have "pr_finished pr" "pr_err pr = err"
    using Promise_finish_fst [of msg err "pd_promises (em_producer e) ! j"] assms(1) by simp_all
  then show "promise_outcome i f = (if j = i then Some err else promise_outcome i e)"
    using Emitter_calls_producer [OF assms(2)] assms(3) by (simp add: promise_outcome_def)
  show "i < length (pd_promises (em_producer f))" using Emitter_calls_producer [OF assms(2)] assms(3) by simp
qed

lemma emitter_do_outcome:
  assumes "emitter_do x e = Ret f" and "i < length (pd_promises (em_producer e))" and "promise_outcome i e = None"
  shows "promise_outcome i f = op_outcome i e x \<and> i < length (pd_promises (em_producer f))"
proof (cases x)
  case (EmEmit key msg hdr)
  then obtain r where "Emitter_EmitWithHeaders key msg hdr e = Ret (f, r)"
    using assms(1) by (auto simp: go_bind_eq_Ret)
  from Emitter_EmitWithHeaders_promises [OF this] assms(2,3) EmEmit show ?thesis
    by (auto simp: promise_outcome_def nth_append)
next
  case (EmThen j n)
  then show ?thesis using assms Emitter_then_outcome [of "UserCallback n" j e f i] by (auto split: if_splits)
next
  case (EmSuccess m)
  then show ?thesis
    using assms Emitter_finish_outcome by (auto simp: producer_run_success_def split: if_splits prod.splits)
next
  case (EmError m err)
  then show ?thesis
    using assms Emitter_finish_outcome by (auto simp: producer_run_error_def split: if_splits prod.splits)
next
  case EmFinish
  then show ?thesis using assms by (auto simp: Emitter_Finish_begin_def promise_outcome_def split: if_splits)
next
  case EmFinishEnd
  then show ?thesis
    using assms by (auto simp: Emitter_Finish_end_def producer_Close_def promise_outcome_def split: if_splits)
qed

text \<open>The first outcome that a run reports about the promise.\<close>

fun run_outcome :: "nat \<Rightarrow> emitter_op list \<Rightarrow> Emitter \<Rightarrow> gerr option option" where
  "run_outcome i [] e = None"
| "run_outcome i (x # xs) e =
     (case op_outcome i e x of
        Some err \<Rightarrow> Some err
      | None \<Rightarrow> (case emitter_do x e of Ret e \<Rightarrow> run_outcome i xs e | Panic _ \<Rightarrow> None))"

lemma EmitSync_wait_outcome:
  assumes "emitter_inv e" and "i < length (pd_promises (em_producer e))" and "promise_outcome i e = None"
  shows "\<exists>f. EmitSync_wait i xs e = Ret (f, run_outcome i xs e)"
  using assms
proof (induction xs arbitrary: e)
  case (Cons x xs)
  obtain g where g: "emitter_do x e = Ret g" "emitter_inv g" using emitter_do_ok [OF Cons.prems(1)] by blast
  have o: "promise_outcome i g = op_outcome i e x" "i < length (pd_promises (em_producer g))"
    using emitter_do_outcome [OF g(1) Cons.prems(2,3)] by auto
  show ?case
  proof (cases "op_outcome i e x")
    case None
    with o Cons.IH [OF g(2)] g(1) Cons.prems(3) show ?thesis by simp
  next
    case (Some err)
    then have "EmitSync_wait i xs g = Ret (g, Some err)" using o(1) by (cases xs) auto
    with Some g(1) Cons.prems(3) show ?thesis by simp
  qed
qed simp

text \<open>A synchronous emit to an open emitter returns what the producer reports about its message, and
  returns as soon as there is a report; after \<open>Finish\<close> it returns the error of a closed emitter at once,
  and a value that cannot be encoded is refused without a message.\<close>

lemma emitter_emit_open:
  assumes "emitter_inv e" and "\<not> em_done e"
    and "(if msg \<noteq> VNil then codec_Encode (em_codec e) msg else Inr None) = Inr data"
    and "Emitter_EmitWithHeaders key msg hdr e = Ret (f, r)"
  shows "r = Inr (length (pd_promises (em_producer e)))"
    and "promise_outcome (length (pd_promises (em_producer e))) f = None"
proof -
  show r: "r = Inr (length (pd_promises (em_producer e)))"
    using assms by (auto simp: Emitter_EmitWithHeaders_def Let_def producer_Emit_def producer_EmitWithHeaders_def
        go_bind_eq_Ret split: if_splits)
  have new: "promise_outcome (length (pd_promises (em_producer e))) (e\<lparr>em_wg := w, em_producer := pd\<rparr>) = None"
    if "pd_promises pd = pd_promises (em_producer e) @ [NewPromise]" for w pd
    using that by (simp add: promise_outcome_def NewPromise_def)
  show "promise_outcome (length (pd_promises (em_producer e))) f = None"
    using assms new
    by (auto simp: Emitter_EmitWithHeaders_def Let_def producer_Emit_def producer_EmitWithHeaders_def
        go_bind_eq_Ret Emitter_then_outcome split: if_splits)
qed

lemma emit_sync_returns_report:
  assumes "emitter_inv e" and "\<not> em_done e"
    and "(if msg \<noteq> VNil then codec_Encode (em_codec e) msg else Inr None) = Inr data"
  shows "\<exists>g f. emitter_do (EmEmit key msg hdr) e = Ret g \<and>
    Emitter_EmitSyncWithHeaders key msg hdr n xs e =
      Ret (f, run_outcome (length (pd_promises (em_producer e))) (EmThen (length (pd_promises (em_producer e))) n # xs) g)"
proof -
  let ?i = "length (pd_promises (em_producer e))"
  obtain g r where g: "Emitter_EmitWithHeaders key msg hdr e = Ret (g, r)" "emitter_inv g"
    using emitter_emit_step [OF assms(1)] by blast
  have r: "r = Inr ?i" "promise_outcome ?i g = None" using emitter_emit_open [OF assms g(1)] by auto
  then have i: "?i < length (pd_promises (em_producer g))"
    using Emitter_EmitWithHeaders_promises [OF g(1)] by auto
  obtain h where h: "Emitter_then (UserCallback n) ?i g = Ret h" "emitter_inv h"
    using emitter_then_user [OF g(2) i] by blast
  with i r EmitSync_wait_outcome [OF h(2), of ?i xs] Emitter_then_outcome [OF h(1) i] g(1) show ?thesis
    by (auto simp: Emitter_EmitSyncWithHeaders_def)
qed

lemma emit_sync_errors:
  shows "(if msg \<noteq> VNil then codec_Encode (em_codec e) msg else Inr None) = Inl err \<Longrightarrow>
      Emitter_EmitSyncWithHeaders key msg hdr n xs e =
        Ret (e, Some (Some (Wrap ''Error encoding value for key %s in topic %s: %v'' err)))"
    and "(if msg \<noteq> VNil then codec_Encode (em_codec e) msg else Inr None) = Inr data \<Longrightarrow> em_done e \<Longrightarrow>
      \<exists>f. Emitter_EmitSyncWithHeaders key msg hdr n xs e = Ret (f, Some (Some ErrEmitterAlreadyClosed)) \<and>
        pd_sent (em_producer f) = pd_sent (em_producer e)"
  by (cases xs; simp add: Emitter_EmitSyncWithHeaders_def Emitter_EmitWithHeaders_def Emitter_then_def Let_def
      promise_outcome_def Promise_finish_def Promise_executeCallbacks_def NewPromise_def Promise_Then_def
      Promise_ThenWithMessage_def split: if_splits)+

end
