(* ===== verification/Goka_Context.thy ===== *)
theory Goka_Context
  imports Goka_Partition_Table Goka_Graph Goka_Producer
begin

text \<open>
  The context a process callback gets (\<open>context.go\<close>), with its options (\<open>options.go\<close>).

  \<^item> An operation of the context is a function from the context to the context after it and its
    outcome: a value, or the panic that ends the callback. What an operation has done before it
    panics stays done.
  \<^item> The calls the context makes to the outside are recorded in it: the messages handed to the
    producer (\<open>cx_emitted\<close>), the calls of \<open>commit\<close>, the errors given to the asynchronous failer, the
    output statistics, the error that the synchronous failer stores when the processor's context is
    already cancelled (\<open>cx_rerr\<close>), and the counter of the wait group.
  \<^item> A message handed to the producer, and a call of \<open>DeferCommit\<close>, leaves a pending callback with a
    number. Resolving it runs the callback that the source attaches to the promise. The producer
    resolves each promise once (\<open>promise_calls_each_once\<close>), the function \<open>DeferCommit\<close> returns is
    guarded by a \<open>sync.Once\<close>; so resolving removes the callback.
  \<^item> Join tables are partition tables, lookup tables are given by the type \<open>'v\<close> and the function that
    reads them.
\<close>

section \<open>Operations with a state that survives a panic\<close>

type_synonym ('c, 'a) act = "'c \<Rightarrow> 'c \<times> 'a go"

definition act_bind :: "('c, 'a) act \<Rightarrow> ('a \<Rightarrow> ('c, 'b) act) \<Rightarrow> ('c, 'b) act" where
  "act_bind f g c = (case f c of (c, Ret x) \<Rightarrow> g x c | (c, Panic m) \<Rightarrow> (c, Panic m))"

definition act_return :: "'a \<Rightarrow> ('c, 'a) act" where
  "act_return x c = (c, Ret x)"

definition act_modify :: "('c \<Rightarrow> 'c) \<Rightarrow> ('c, unit) act" where
  "act_modify f c = (f c, Ret ())"

definition act_when :: "bool \<Rightarrow> ('c, unit) act \<Rightarrow> ('c, unit) act" where
  "act_when b f = (if b then f else act_return ())"

section \<open>The context\<close>

datatype pending_kind = PendingEmit string | PendingDelete | PendingStore | PendingDefer

record ('s, 'v, 'cb) cbContext =
  cx_graph :: "'cb GroupGraph"
  cx_emitterDefaultHeaders :: Headers
  cx_headers :: Headers
  cx_table :: "'s PartitionTable option"
  cx_pviews :: "(string \<rightharpoonup> 's PartitionTable) option"
  cx_views :: "(string \<rightharpoonup> 'v) option"
  cx_msg :: ConsumerMessage
  cx_done :: bool
  cx_emits :: nat
  cx_dones :: nat
  cx_stores :: nat
  cx_errors :: Errors
  cx_wg :: int
  cx_ctxDone :: bool
  cx_rerr :: "gerr option"
  cx_asyncErrs :: "gerr list"
  cx_commits :: nat
  cx_emitted :: "(string \<times> string \<times> slice \<times> Headers) list"
  cx_tracked :: "(string \<times> int) list"
  cx_pending :: "(nat \<times> pending_kind) list"
  cx_next :: nat

text \<open>The context options: each one copies its headers over those set before.\<close>

definition WithCtxEmitHeaders :: "Headers \<Rightarrow> Headers \<Rightarrow> Headers" where
  "WithCtxEmitHeaders hdr emitHeaders =
     Some (map_copy (hdr_entries hdr) (hdr_entries emitHeaders))"

definition applyCtxOptions :: "Headers list \<Rightarrow> Headers" where
  "applyCtxOptions options = fold WithCtxEmitHeaders options None"

definition cx_Key :: "('s, 'v, 'cb) cbContext \<Rightarrow> string" where
  "cx_Key ctx = slice_bytes (msg_Key (cx_msg ctx))"

definition cx_Headers :: "(('s, 'v, 'cb) cbContext, Headers) act" where
  "cx_Headers ctx =
     (let ctx = (if cx_headers ctx = None then ctx\<lparr>cx_headers := FromSarama (msg_Headers (cx_msg ctx))\<rparr> else ctx)
      in (ctx, Ret (cx_headers ctx)))"

text \<open>The failer of the partition processor: it panics, unless the processor's context is done; then
  it stores the error and returns.\<close>

definition cx_Fail :: "gerr \<Rightarrow> (('s, 'v, 'cb) cbContext, unit) act" where
  "cx_Fail err ctx =
     (if cx_ctxDone ctx then (ctx\<lparr>cx_rerr := Some err\<rparr>, Ret ()) else (ctx, Panic ''context failed''))"

definition cx_add_pending :: "pending_kind \<Rightarrow> ('s, 'v, 'cb) cbContext \<Rightarrow> ('s, 'v, 'cb) cbContext" where
  "cx_add_pending kind ctx =
     ctx\<lparr>cx_pending := cx_pending ctx @ [(cx_next ctx, kind)], cx_next := Suc (cx_next ctx)\<rparr>"

definition cx_send ::
  "string \<Rightarrow> string \<Rightarrow> slice \<Rightarrow> Headers \<Rightarrow> pending_kind \<Rightarrow> ('s, 'v, 'cb) cbContext \<Rightarrow> ('s, 'v, 'cb) cbContext" where
  "cx_send topic key val hdr kind ctx =
     cx_add_pending kind (ctx\<lparr>cx_emits := Suc (cx_emits ctx),
       cx_emitted := cx_emitted ctx @ [(topic, key, val, hdr)]\<rparr>)"

definition cx_trackOutputStats :: "string \<Rightarrow> slice \<Rightarrow> ('s, 'v, 'cb) cbContext \<Rightarrow> ('s, 'v, 'cb) cbContext" where
  "cx_trackOutputStats topic val ctx =
     ctx\<lparr>cx_tracked := cx_tracked ctx @ [(topic, int (length (slice_bytes val)))]\<rparr>"

definition cx_emit :: "string \<Rightarrow> string \<Rightarrow> slice \<Rightarrow> Headers \<Rightarrow> (('s, 'v, 'cb) cbContext, unit) act" where
  "cx_emit topic key val hdr =
     act_modify (\<lambda>ctx. cx_trackOutputStats topic val
       (cx_send topic key val (Headers_Merged (cx_emitterDefaultHeaders ctx) [hdr]) (PendingEmit topic) ctx))"

text \<open>Encoding with a codec that may be nil.\<close>

definition encode_with :: "Codec option \<Rightarrow> gval \<Rightarrow> slice result go" where
  "encode_with c v = (case c of None \<Rightarrow> nil_deref | Some c \<Rightarrow> Ret (codec_Encode c v))"

definition decode_with :: "Codec option \<Rightarrow> slice \<Rightarrow> gval result go" where
  "decode_with c d = (case c of None \<Rightarrow> nil_deref | Some c \<Rightarrow> Ret (codec_Decode c d))"

definition act_go :: "'a go \<Rightarrow> ('c, 'a) act" where
  "act_go g c = (c, g)"

text \<open>An error of the encoder is reported with \<open>Fail\<close>; if that returns, the data is nil.\<close>

definition fail_on_error :: "string \<Rightarrow> slice result \<Rightarrow> (('s, 'v, 'cb) cbContext, slice) act" where
  "fail_on_error text r =
     (case r of
        Inl err \<Rightarrow> act_bind (cx_Fail (Wrap text err)) (\<lambda>_. act_return None)
      | Inr data \<Rightarrow> act_return data)"

definition cx_Emit ::
  "string \<Rightarrow> string \<Rightarrow> gval \<Rightarrow> Headers list \<Rightarrow> (('s, 'v, 'cb) cbContext, unit) act" where
  "cx_Emit topic key val options ctx =
     (let opts = applyCtxOptions options; graph = cx_graph ctx; c = GroupGraph_codec graph topic in
      (act_bind (act_when (topic = '''') (cx_Fail (Err ''cannot emit to empty topic''))) (\<lambda>_.
       act_bind (act_when (loopName (gg_group graph) = topic)
         (cx_Fail (Err ''cannot emit to loop topic (use Loopback instead)''))) (\<lambda>_.
       act_bind (act_when (tableName (gg_group graph) = topic)
         (cx_Fail (Err ''cannot emit to table topic (use SetValue instead)''))) (\<lambda>_.
       act_bind (act_when (\<not> GroupGraph_isOutputTopic graph topic)
         (cx_Fail (Err ''topic %s is not configured for output''))) (\<lambda>_.
       act_bind (act_when (c = None) (cx_Fail (Err ''no codec for topic %s''))) (\<lambda>_.
       act_bind (if val \<noteq> VNil
                 then act_bind (act_go (encode_with c val))
                        (fail_on_error ''error encoding message for topic %s: %v'')
                 else act_return None) (\<lambda>data.
       cx_emit topic key data opts))))))) ctx)"

definition cx_Loopback :: "string \<Rightarrow> gval \<Rightarrow> Headers list \<Rightarrow> (('s, 'v, 'cb) cbContext, unit) act" where
  "cx_Loopback key val options ctx =
     (let opts = applyCtxOptions options; l = GroupGraph_LoopStream (cx_graph ctx) in
      (act_bind (act_when (l = None) (cx_Fail (Err ''no loop topic configured''))) (\<lambda>_.
       case l of
         None \<Rightarrow> act_go nil_deref
       | Some t \<Rightarrow>
           act_bind (act_bind (act_go (encode_with (td_codec t) val))
             (fail_on_error ''error encoding message for key %s: %v'')) (\<lambda>data.
           cx_emit (td_name t) key data opts))) ctx)"

section \<open>The group table\<close>

text \<open>Calling a method of the table the context holds; \<open>None\<close> is the nil table.\<close>

definition cx_on_table ::
  "('s PartitionTable \<Rightarrow> ('s PartitionTable \<times> 'a) go) \<Rightarrow> (('s, 'v, 'cb) cbContext, 'a) act" where
  "cx_on_table f ctx =
     (case cx_table ctx of
        None \<Rightarrow> (ctx, nil_deref)
      | Some t \<Rightarrow>
          (case f t of
             Panic m \<Rightarrow> (ctx, Panic m)
           | Ret (t, x) \<Rightarrow> (ctx\<lparr>cx_table := Some t\<rparr>, Ret x)))"

definition cx_valueForKey ::
  "'s storage_ops \<Rightarrow> string \<Rightarrow> (('s, 'v, 'cb) cbContext, gval result) act" where
  "cx_valueForKey ops key ctx =
     (if cx_table ctx = None
      then (ctx, Ret (Inl (Err ''Cannot access state in stateless processor'')))
      else act_bind (cx_on_table (\<lambda>t. go_bind (pt_Get ops key t) (\<lambda>r. Ret (t, r)))) (\<lambda>r.
        case r of
          Inl err \<Rightarrow> act_return (Inl (Wrap ''error reading value: %v'' err))
        | Inr None \<Rightarrow> act_return (Inr VNil)
        | Inr (Some data) \<Rightarrow>
            (case GroupGraph_GroupTable (cx_graph ctx) of
               None \<Rightarrow> act_go nil_deref
             | Some g \<Rightarrow>
                 act_bind (act_go (decode_with (td_codec g) (Some data))) (\<lambda>d.
                   case d of
                     Inl err \<Rightarrow> act_return (Inl (Wrap ''error decoding value: %v'' err))
                   | Inr v \<Rightarrow> act_return (Inr v)))) ctx)"

definition cx_Value :: "'s storage_ops \<Rightarrow> (('s, 'v, 'cb) cbContext, gval) act" where
  "cx_Value ops ctx =
     act_bind (cx_valueForKey ops (cx_Key ctx)) (\<lambda>r.
       case r of
         Inl err \<Rightarrow> act_bind (cx_Fail err) (\<lambda>_. act_return VNil)
       | Inr v \<Rightarrow> act_return v) ctx"

definition cx_deleteKey ::
  "'s storage_ops \<Rightarrow> string \<Rightarrow> Headers \<Rightarrow> (('s, 'v, 'cb) cbContext, gerr option) act" where
  "cx_deleteKey ops key hdr ctx =
     (case GroupGraph_GroupTable (cx_graph ctx) of
        None \<Rightarrow> (ctx, Ret (Some (Err ''Cannot access state in stateless processor'')))
      | Some g \<Rightarrow>
          (act_bind (act_modify (\<lambda>ctx. ctx\<lparr>cx_stores := Suc (cx_stores ctx)\<rparr>)) (\<lambda>_.
           act_bind (cx_on_table (pt_Delete ops key)) (\<lambda>e.
             case e of
               Some err \<Rightarrow> act_return (Some (Wrap ''error deleting key (%s) from storage: %v'' err))
             | None \<Rightarrow>
                 act_bind (act_modify (cx_send (td_name g) key None hdr PendingDelete)) (\<lambda>_.
                 act_return None)))) ctx)"

definition cx_Delete :: "'s storage_ops \<Rightarrow> Headers list \<Rightarrow> (('s, 'v, 'cb) cbContext, unit) act" where
  "cx_Delete ops options ctx =
     act_bind (cx_deleteKey ops (cx_Key ctx) (applyCtxOptions options)) (\<lambda>e.
       case e of Some err \<Rightarrow> cx_Fail err | None \<Rightarrow> act_return ()) ctx"

definition cx_setValueForKey ::
  "'s table_env \<Rightarrow> string \<Rightarrow> gval \<Rightarrow> Headers \<Rightarrow> (('s, 'v, 'cb) cbContext, gerr option) act" where
  "cx_setValueForKey env key val hdr ctx =
     (case GroupGraph_GroupTable (cx_graph ctx) of
        None \<Rightarrow> (ctx, Ret (Some (Err ''Cannot access state in stateless processor'')))
      | Some g \<Rightarrow>
          if val = VNil then (ctx, Ret (Some (Err ''cannot set nil as value'')))
          else
            act_bind (act_go (encode_with (td_codec g) val)) (\<lambda>r.
              case r of
                Inl err \<Rightarrow> act_return (Some (Wrap ''error encoding value: %v'' err))
              | Inr encodedValue \<Rightarrow>
                  act_bind (act_modify (\<lambda>ctx. ctx\<lparr>cx_stores := Suc (cx_stores ctx)\<rparr>)) (\<lambda>_.
                  act_bind (cx_on_table (pt_Set (te_ops env) key encodedValue)) (\<lambda>e.
                    case e of
                      Some err \<Rightarrow> act_return (Some (Wrap ''error storing value: %v'' err))
                    | None \<Rightarrow>
                        act_bind (act_modify (\<lambda>ctx. cx_trackOutputStats (td_name g) encodedValue
                          (cx_send (td_name g) key encodedValue hdr PendingStore ctx))) (\<lambda>_.
                        act_bind (cx_on_table (\<lambda>t. Ret (pt_TrackMessageWrite env
                          (int (length (slice_bytes encodedValue))) t, ()))) (\<lambda>_.
                        act_return None))))) ctx)"

definition cx_SetValue :: "'s table_env \<Rightarrow> gval \<Rightarrow> Headers list \<Rightarrow> (('s, 'v, 'cb) cbContext, unit) act" where
  "cx_SetValue env val options ctx =
     act_bind (cx_setValueForKey env (cx_Key ctx) val (applyCtxOptions options)) (\<lambda>e.
       case e of Some err \<Rightarrow> cx_Fail err | None \<Rightarrow> act_return ()) ctx"

section \<open>Joins and lookups\<close>

text \<open>A table that is not subscribed is reported with \<open>Fail\<close>; if that returns, the nil table is used.\<close>

definition cx_Join :: "'s storage_ops \<Rightarrow> string \<Rightarrow> (('s, 'v, 'cb) cbContext, gval) act" where
  "cx_Join ops topic ctx =
     (act_bind (act_when (cx_pviews ctx = None) (cx_Fail (Err ''table %s not subscribed''))) (\<lambda>_.
      let v = (case cx_pviews ctx of None \<Rightarrow> None | Some m \<Rightarrow> m topic) in
      act_bind (act_when (v = None) (cx_Fail (Err ''table %s not subscribed''))) (\<lambda>_.
      case v of
        None \<Rightarrow> act_go nil_deref
      | Some t \<Rightarrow>
          act_bind (act_go (pt_with t (\<lambda>px. Ret (st_Get ops (px_Storage px) (cx_Key ctx))))) (\<lambda>r.
          let decode = (\<lambda>data. act_bind (act_go (decode_with (GroupGraph_codec (cx_graph ctx) topic) data)) (\<lambda>d.
            case d of
              Inl err \<Rightarrow> act_bind (cx_Fail (Wrap ''error decoding value key %s of table %s: %v'' err)) (\<lambda>_. act_return VNil)
            | Inr v \<Rightarrow> act_return v)) in
          case r of
            Inl err \<Rightarrow> act_bind (cx_Fail (Wrap ''error getting key %s of table %s: %v'' err)) (\<lambda>_. decode None)
          | Inr None \<Rightarrow> act_return VNil
          | Inr (Some data) \<Rightarrow> decode (Some data))))) ctx"

definition cx_Lookup ::
  "('v \<Rightarrow> string \<Rightarrow> gval result go) \<Rightarrow> string \<Rightarrow> string \<Rightarrow> (('s, 'v, 'cb) cbContext, gval) act" where
  "cx_Lookup viewGet topic key ctx =
     (act_bind (act_when (cx_views ctx = None) (cx_Fail (Err ''topic %s not subscribed''))) (\<lambda>_.
      let v = (case cx_views ctx of None \<Rightarrow> None | Some m \<Rightarrow> m topic) in
      act_bind (act_when (v = None) (cx_Fail (Err ''topic %s not subscribed''))) (\<lambda>_.
      case v of
        None \<Rightarrow> act_go nil_deref
      | Some view \<Rightarrow>
          act_bind (act_go (viewGet view key)) (\<lambda>r.
          case r of
            Inl err \<Rightarrow> act_bind (cx_Fail (Wrap ''error getting key %s of table %s: %v'' err)) (\<lambda>_. act_return VNil)
          | Inr val \<Rightarrow> act_return val)))) ctx"

section \<open>Completion\<close>

definition cx_markDone :: "(('s, 'v, 'cb) cbContext, unit) act" where
  "cx_markDone ctx =
     (if cx_wg ctx - 1 < 0 then (ctx, Panic ''sync: negative WaitGroup counter'')
      else (ctx\<lparr>cx_wg := cx_wg ctx - 1\<rparr>, Ret ()))"

definition cx_tryCommit :: "gerr option \<Rightarrow> (('s, 'v, 'cb) cbContext, unit) act" where
  "cx_tryCommit err ctx =
     (let ctx = ctx\<lparr>cx_errors := Errors_Collect (cx_errors ctx) err\<rparr>
      in if \<not> cx_done ctx \<or> cx_emits ctx > cx_dones ctx then (ctx, Ret ())
         else cx_markDone
           (if Errors_HasErrors (cx_errors ctx)
            then ctx\<lparr>cx_asyncErrs := cx_asyncErrs ctx @ [the (Errors_NilOrError (cx_errors ctx))]\<rparr>
            else ctx\<lparr>cx_commits := Suc (cx_commits ctx)\<rparr>))"

definition cx_emitDone :: "gerr option \<Rightarrow> (('s, 'v, 'cb) cbContext, unit) act" where
  "cx_emitDone err ctx = cx_tryCommit err (ctx\<lparr>cx_dones := Suc (cx_dones ctx)\<rparr>)"

definition cx_finish :: "gerr option \<Rightarrow> (('s, 'v, 'cb) cbContext, unit) act" where
  "cx_finish err ctx = cx_tryCommit err (ctx\<lparr>cx_done := True\<rparr>)"

definition cx_start :: "('s, 'v, 'cb) cbContext \<Rightarrow> ('s, 'v, 'cb) cbContext" where
  "cx_start ctx = ctx\<lparr>cx_wg := cx_wg ctx + 1\<rparr>"

text \<open>\<open>DeferCommit\<close> returns a function that runs its callback at most once: the pending callback.\<close>

definition cx_DeferCommit :: "(('s, 'v, 'cb) cbContext, nat) act" where
  "cx_DeferCommit ctx =
     (cx_add_pending PendingDefer (ctx\<lparr>cx_emits := Suc (cx_emits ctx)\<rparr>), Ret (cx_next ctx))"

text \<open>Resolving a pending callback with the message and the error of its promise.\<close>

definition cx_resolve ::
  "'s storage_ops \<Rightarrow> nat \<Rightarrow> ProducerMessage option \<Rightarrow> gerr option \<Rightarrow> (('s, 'v, 'cb) cbContext, unit) act" where
  "cx_resolve ops i msg err ctx =
     (case map_of (cx_pending ctx) i of
        None \<Rightarrow> (ctx, Ret ())
      | Some kind \<Rightarrow>
          let ctx = ctx\<lparr>cx_pending := map_del i (cx_pending ctx)\<rparr>
          in case kind of
               PendingEmit topic \<Rightarrow> cx_emitDone (map_option (Wrap ''error emitting to %s: %v'') err) ctx
             | PendingDelete \<Rightarrow> cx_emitDone err ctx
             | PendingDefer \<Rightarrow> cx_emitDone err ctx
             | PendingStore \<Rightarrow>
                 (case msg of
                    Some m \<Rightarrow>
                      if err = None
                      then act_bind (cx_on_table (pt_storeNewestOffset ops (pm_Offset m))) cx_emitDone ctx
                      else cx_emitDone err ctx
                  | None \<Rightarrow> cx_emitDone err ctx))"

section \<open>The life of a context\<close>

datatype cb_op =
    OpEmit string string gval "Headers list"
  | OpLoopback string gval "Headers list"
  | OpSetValue gval "Headers list"
  | OpDelete "Headers list"
  | OpValue
  | OpJoin string
  | OpLookup string string
  | OpHeaders
  | OpDeferCommit
  | OpFail gerr

definition act_ignore :: "('c, 'a) act \<Rightarrow> ('c, unit) act" where
  "act_ignore f = act_bind f (\<lambda>_. act_return ())"

fun cx_op ::
  "'s table_env \<Rightarrow> ('v \<Rightarrow> string \<Rightarrow> gval result go) \<Rightarrow> cb_op \<Rightarrow> (('s, 'v, 'cb) cbContext, unit) act" where
  "cx_op env viewGet (OpEmit topic key val options) = cx_Emit topic key val options"
| "cx_op env viewGet (OpLoopback key val options) = cx_Loopback key val options"
| "cx_op env viewGet (OpSetValue val options) = cx_SetValue env val options"
| "cx_op env viewGet (OpDelete options) = cx_Delete (te_ops env) options"
| "cx_op env viewGet OpValue = act_ignore (cx_Value (te_ops env))"
| "cx_op env viewGet (OpJoin topic) = act_ignore (cx_Join (te_ops env) topic)"
| "cx_op env viewGet (OpLookup topic key) = act_ignore (cx_Lookup viewGet topic key)"
| "cx_op env viewGet OpHeaders = act_ignore cx_Headers"
| "cx_op env viewGet OpDeferCommit = act_ignore cx_DeferCommit"
| "cx_op env viewGet (OpFail err) = cx_Fail err"

text \<open>The callback runs its operations, in any number and order, until it returns and the processor
  calls \<open>finish\<close>, or until an operation panics; meanwhile and afterwards the pending callbacks are
  resolved in any order, with a message whose offset is an \<open>int64\<close>; and at any moment the processor's
  context may be cancelled.\<close>

datatype phase = Running | Finished | Panicked

inductive cx_step ::
  "'s table_env \<Rightarrow> ('v \<Rightarrow> string \<Rightarrow> gval result go) \<Rightarrow> phase \<times> ('s, 'v, 'cb) cbContext \<Rightarrow>
   phase \<times> ('s, 'v, 'cb) cbContext \<Rightarrow> bool"
  for env :: "'s table_env" and viewGet :: "'v \<Rightarrow> string \<Rightarrow> gval result go" where
  op: "cx_op env viewGet x ctx = (ctx', Ret ()) \<Longrightarrow> cx_step env viewGet (Running, ctx) (Running, ctx')"
| op_panic: "cx_op env viewGet x ctx = (ctx', Panic m) \<Longrightarrow> cx_step env viewGet (Running, ctx) (Panicked, ctx')"
| finish: "cx_finish None ctx = (ctx', r) \<Longrightarrow> cx_step env viewGet (Running, ctx) (Finished, ctx')"
| resolve: "cx_resolve (te_ops env) i msg err ctx = (ctx', Ret ()) \<Longrightarrow> pred_option (\<lambda>m. int64 (pm_Offset m)) msg \<Longrightarrow>
    cx_step env viewGet (ph, ctx) (ph, ctx')"
| cancel: "cx_step env viewGet (ph, ctx) (ph, ctx\<lparr>cx_ctxDone := True\<rparr>)"

inductive_cases cx_stepE: "cx_step env viewGet (ph, ctx) (ph', ctx')"

subsection \<open>What an operation leaves alone\<close>

definition cx_frame :: "('s, 'v, 'cb) cbContext \<Rightarrow> ('s, 'v, 'cb) cbContext \<Rightarrow> bool" where
  "cx_frame c c' \<longleftrightarrow> cx_done c' = cx_done c \<and> cx_dones c' = cx_dones c \<and> cx_commits c' = cx_commits c \<and>
     cx_asyncErrs c' = cx_asyncErrs c \<and> cx_errors c' = cx_errors c \<and> cx_wg c' = cx_wg c \<and>
     cx_ctxDone c' = cx_ctxDone c \<and> cx_graph c' = cx_graph c \<and> cx_msg c' = cx_msg c \<and>
     cx_emits c' + length (cx_pending c) = cx_emits c + length (cx_pending c') \<and>
     (gomap (cx_pending c) \<and> (\<forall>i \<in> fst ` set (cx_pending c). i < cx_next c) \<longrightarrow>
      gomap (cx_pending c') \<and> (\<forall>i \<in> fst ` set (cx_pending c'). i < cx_next c'))"

definition framed :: "(('s, 'v, 'cb) cbContext, 'a) act \<Rightarrow> bool" where
  "framed f \<longleftrightarrow> (\<forall>c. cx_frame c (fst (f c)))"

named_theorems framed_intros \<open>operations that leave the completion of the context alone\<close>

lemma cx_frame_refl [simp]: "cx_frame c c"
  by (simp add: cx_frame_def)

lemma cx_frame_trans: "cx_frame a b \<Longrightarrow> cx_frame b c \<Longrightarrow> cx_frame a c"
  unfolding cx_frame_def by simp

lemma framedD: "framed f \<Longrightarrow> f c = (c', r) \<Longrightarrow> cx_frame c c'"
  unfolding framed_def by (metis fst_conv)

lemma framed_bind [framed_intros]:
  assumes "framed f" and "\<And>x. framed (g x)"
  shows "framed (act_bind f g)"
  unfolding framed_def
proof
  fix c
  obtain c1 r where f: "f c = (c1, r)" by (cases "f c")
  then have "cx_frame c c1" using assms(1) framedD by blast
  moreover have "cx_frame c1 (fst (g x c1))" for x using assms(2) unfolding framed_def by blast
  ultimately show "cx_frame c (fst (act_bind f g c))"
    using f cx_frame_trans [of c c1] by (cases r) (simp_all add: act_bind_def)
qed

lemma framed_return [framed_intros]: "framed (act_return x)"
  by (simp add: framed_def act_return_def)

lemma framed_go [framed_intros]: "framed (act_go g)"
  by (simp add: framed_def act_go_def)

lemma framed_Fail [framed_intros]: "framed (cx_Fail err)"
  by (simp add: framed_def cx_Fail_def cx_frame_def)

lemma framed_when [framed_intros]: "framed f \<Longrightarrow> framed (act_when b f)"
  by (simp add: act_when_def framed_return)

lemma framed_if [framed_intros]: "framed f \<Longrightarrow> framed g \<Longrightarrow> framed (if b then f else g)"
  by simp

lemma framed_modify [framed_intros]: "(\<And>c. cx_frame c (h c)) \<Longrightarrow> framed (act_modify h)"
  by (simp add: framed_def act_modify_def)

lemma framed_on_table [framed_intros]: "framed (cx_on_table f)"
  by (simp add: framed_def cx_on_table_def cx_frame_def split: option.splits go.splits prod.splits)

lemma framed_ignore [framed_intros]: "framed f \<Longrightarrow> framed (act_ignore f)"
  by (simp add: act_ignore_def framed_bind framed_return)

lemma framed_result_case [framed_intros]:
  "(\<And>e. framed (f e)) \<Longrightarrow> (\<And>x. framed (g x)) \<Longrightarrow> framed (case r of Inl e \<Rightarrow> f e | Inr x \<Rightarrow> g x)"
  by (cases r) simp_all

lemma framed_option_case [framed_intros]:
  "framed f \<Longrightarrow> (\<And>x. framed (g x)) \<Longrightarrow> framed (case r of None \<Rightarrow> f | Some x \<Rightarrow> g x)"
  by (cases r) simp_all

lemma framed_fail_on_error [framed_intros]: "framed (fail_on_error t r)"
  unfolding fail_on_error_def by (intro framed_intros)

lemma frame_send: "cx_frame c (cx_send topic key val hdr kind c)"
  by (auto simp: cx_frame_def cx_send_def cx_add_pending_def)

lemma frame_track: "cx_frame c (cx_trackOutputStats topic val c)"
  by (simp add: cx_frame_def cx_trackOutputStats_def)

lemma framed_emit [framed_intros]: "framed (cx_emit topic key val hdr)"
  unfolding cx_emit_def by (intro framed_intros cx_frame_trans [OF frame_send frame_track])

lemma framed_at: "framed f \<Longrightarrow> cx_frame c (fst (f c))"
  by (simp add: framed_def)

lemma framed_Emit [framed_intros]: "framed (cx_Emit topic key val options)"
  unfolding framed_def cx_Emit_def Let_def by (intro allI framed_at framed_intros)

lemma framed_Loopback [framed_intros]: "framed (cx_Loopback key val options)"
  unfolding framed_def cx_Loopback_def Let_def by (intro allI framed_at framed_intros)

lemma frame_stores: "cx_frame c (c\<lparr>cx_stores := n\<rparr>)"
  by (simp add: cx_frame_def)

lemma framed_deleteKey [framed_intros]: "framed (cx_deleteKey ops key hdr)"
  unfolding framed_def
proof
  fix c show "cx_frame c (fst (cx_deleteKey ops key hdr c))"
    unfolding cx_deleteKey_def
    by (cases "GroupGraph_GroupTable (cx_graph c)")
      (simp_all, intro framed_at framed_intros frame_stores frame_send)
qed

lemma framed_Delete [framed_intros]: "framed (cx_Delete ops options)"
  unfolding framed_def cx_Delete_def by (intro allI framed_at framed_intros)

lemma framed_setValueForKey [framed_intros]: "framed (cx_setValueForKey env key val hdr)"
  unfolding framed_def
proof
  fix c show "cx_frame c (fst (cx_setValueForKey env key val hdr c))"
    unfolding cx_setValueForKey_def
    by (cases "GroupGraph_GroupTable (cx_graph c)"; cases "val = VNil")
      (simp_all, intro framed_at framed_intros frame_stores cx_frame_trans [OF frame_send frame_track])
qed

lemma framed_SetValue [framed_intros]: "framed (cx_SetValue env val options)"
  unfolding framed_def cx_SetValue_def by (intro allI framed_at framed_intros)

lemma framed_valueForKey [framed_intros]: "framed (cx_valueForKey ops key)"
  unfolding framed_def
proof
  fix c show "cx_frame c (fst (cx_valueForKey ops key c))"
    unfolding cx_valueForKey_def by (cases "cx_table c = None") (simp_all, intro framed_at framed_intros)
qed

lemma framed_Value [framed_intros]: "framed (cx_Value ops)"
  unfolding framed_def cx_Value_def by (intro allI framed_at framed_intros)

lemma framed_Join [framed_intros]: "framed (cx_Join ops topic)"
  unfolding framed_def cx_Join_def Let_def by (intro allI framed_at framed_intros)

lemma framed_Lookup [framed_intros]: "framed (cx_Lookup viewGet topic key)"
  unfolding framed_def cx_Lookup_def Let_def by (intro allI framed_at framed_intros)

lemma framed_Headers [framed_intros]: "framed cx_Headers"
  by (simp add: framed_def cx_Headers_def cx_frame_def Let_def)

lemma framed_DeferCommit [framed_intros]: "framed cx_DeferCommit"
  by (auto simp: framed_def cx_DeferCommit_def cx_frame_def cx_add_pending_def)

lemma framed_op: "framed (cx_op env viewGet x)"
  by (cases x) (simp_all, (intro framed_intros)+)

subsection \<open>The message is committed exactly once\<close>

definition settled :: "phase \<Rightarrow> ('s, 'v, 'cb) cbContext \<Rightarrow> bool" where
  "settled ph c \<longleftrightarrow> ph = Finished \<and> cx_pending c = []"

definition cx_inv :: "int \<Rightarrow> phase \<Rightarrow> ('s, 'v, 'cb) cbContext \<Rightarrow> bool" where
  "cx_inv wg0 ph c \<longleftrightarrow> gomap (cx_pending c) \<and> (\<forall>i \<in> fst ` set (cx_pending c). i < cx_next c) \<and>
     cx_emits c = cx_dones c + length (cx_pending c) \<and> (cx_done c \<longleftrightarrow> ph = Finished) \<and>
     (if settled ph c
      then cx_wg c = wg0 \<and>
        (if errs (cx_errors c) = [] then cx_commits c = 1 \<and> cx_asyncErrs c = []
         else cx_commits c = 0 \<and> length (cx_asyncErrs c) = 1)
      else cx_wg c = wg0 + 1 \<and> cx_commits c = 0 \<and> cx_asyncErrs c = [])"

lemma cx_inv_frame:
  assumes "cx_inv wg0 Running c" and "cx_frame c c'" and "ph \<noteq> Finished"
  shows "cx_inv wg0 ph c'"
  using assms unfolding cx_inv_def cx_frame_def settled_def by auto

text \<open>The step that settles a context, or leaves it unsettled.\<close>

lemma tryCommit_inv:
  assumes "0 \<le> wg0" and "gomap (cx_pending c)" and "\<forall>i \<in> fst ` set (cx_pending c). i < cx_next c"
    and "cx_emits c = cx_dones c + length (cx_pending c)" and "cx_done c \<longleftrightarrow> ph = Finished"
    and "cx_wg c = wg0 + 1" and "cx_commits c = 0" and "cx_asyncErrs c = []"
  shows "\<exists>c'. cx_tryCommit err c = (c', Ret ()) \<and> cx_inv wg0 ph c'"
  using assms
  by (auto simp: cx_tryCommit_def cx_markDone_def cx_inv_def settled_def Errors_HasErrors_def
      Errors_NilOrError_def Let_def)

lemma finish_inv:
  assumes "0 \<le> wg0" and "cx_inv wg0 Running c"
  shows "\<exists>c'. cx_finish err c = (c', Ret ()) \<and> cx_inv wg0 Finished c'"
  unfolding cx_finish_def using assms
  by (intro tryCommit_inv) (auto simp: cx_inv_def settled_def)

lemma length_map_del: "gomap m \<Longrightarrow> map_of m i = Some x \<Longrightarrow> length m = Suc (length (map_del i m))"
proof (induction m)
  case (Cons e m)
  show ?case
  proof (cases "fst e = i")
    case True
    then have "map_del i (e # m) = map_del i m" "i \<notin> fst ` set m" using Cons.prems by (auto simp: map_del_def)
    moreover from this(2) have "map_del i m = m" unfolding map_del_def by (auto simp: filter_id_conv)
    ultimately show ?thesis by simp
  next
    case False
    then show ?thesis using Cons by (cases e) (auto simp: map_del_def)
  qed
qed simp

lemma emitDone_inv:
  assumes "0 \<le> wg0" and "cx_inv wg0 ph c" and "map_of (cx_pending c) i = Some kind"
    and c1: "cx_pending c1 = map_del i (cx_pending c)" "cx_next c1 = cx_next c" "cx_emits c1 = cx_emits c"
      "cx_dones c1 = cx_dones c" "cx_done c1 = cx_done c" "cx_wg c1 = cx_wg c"
      "cx_commits c1 = cx_commits c" "cx_asyncErrs c1 = cx_asyncErrs c"
  shows "\<exists>c'. cx_emitDone err c1 = (c', Ret ()) \<and> cx_inv wg0 ph c'"
proof -
  have g: "gomap (cx_pending c)" using assms(2) by (simp add: cx_inv_def)
  have "length (cx_pending c) = Suc (length (cx_pending c1))"
    using length_map_del [OF g assms(3)] c1(1) by simp
  moreover have "\<not> settled ph c" using assms(3) by (auto simp: settled_def)
  moreover have "\<forall>e \<in> set (map_del i (cx_pending c)). fst e < cx_next c"
    using assms(2) by (auto simp: map_del_def cx_inv_def)
  ultimately show ?thesis
    unfolding cx_emitDone_def using assms(1,2) c1 g
    by (intro tryCommit_inv) (auto simp: cx_inv_def)
qed

lemma on_table_fields:
  assumes "cx_on_table f c = (c', Ret x)"
  obtains t where "c' = c\<lparr>cx_table := Some t\<rparr>"
  using assms by (auto simp: cx_on_table_def nil_deref_def split: option.splits go.splits prod.splits)

lemma resolve_inv:
  assumes "0 \<le> wg0" and "cx_inv wg0 ph c" and "cx_resolve ops i msg err c = (c', Ret ())"
  shows "cx_inv wg0 ph c'"
proof (cases "map_of (cx_pending c) i")
  case None
  then show ?thesis using assms by (simp add: cx_resolve_def)
next
  case (Some kind)
  let ?c1 = "c\<lparr>cx_pending := map_del i (cx_pending c)\<rparr>"
  note settle = emitDone_inv [OF assms(1,2) Some]
  have "(\<exists>e. cx_emitDone e ?c1 = (c', Ret ())) \<or>
      (\<exists>off. act_bind (cx_on_table (pt_storeNewestOffset ops off)) cx_emitDone ?c1 = (c', Ret ()))"
    using assms(3) Some by (auto simp: cx_resolve_def Let_def split: pending_kind.splits option.splits if_splits)
  then show ?thesis
  proof (elim disjE exE)
    fix e assume "cx_emitDone e ?c1 = (c', Ret ())"
    with settle [of ?c1 e] show ?thesis by simp
  next
    fix off assume b: "act_bind (cx_on_table (pt_storeNewestOffset ops off)) cx_emitDone ?c1 = (c', Ret ())"
    obtain c2 e where o: "cx_on_table (pt_storeNewestOffset ops off) ?c1 = (c2, Ret e)"
      and d: "cx_emitDone e c2 = (c', Ret ())"
      using b by (auto simp: act_bind_def split: prod.splits go.splits)
    from on_table_fields [OF o] obtain t where "c2 = ?c1\<lparr>cx_table := Some t\<rparr>" .
    with settle [of c2 e] d show ?thesis by simp
  qed
qed

lemma step_inv:
  assumes "0 \<le> wg0" and "cx_step env viewGet a b" and "cx_inv wg0 (fst a) (snd a)"
  shows "cx_inv wg0 (fst b) (snd b)"
  using assms(2,3)
proof cases
  case (op x ctx ctx')
  then show ?thesis using cx_inv_frame [OF _ framedD [OF framed_op], of wg0 ctx env viewGet x ctx' _ Running] assms(3) by auto
next
  case (op_panic x ctx ctx' m)
  then show ?thesis using cx_inv_frame [OF _ framedD [OF framed_op], of wg0 ctx env viewGet x ctx' _ Panicked] assms(3) by auto
next
  case (finish ctx ctx' r)
  then show ?thesis using finish_inv [OF assms(1), of ctx None] assms(3) by auto
next
  case (resolve i msg err ctx ctx' ph)
  then show ?thesis using resolve_inv [OF assms(1)] assms(3) by auto
next
  case (cancel ph ctx)
  then show ?thesis using assms(3) by (simp add: cx_inv_def settled_def)
qed

lemma steps_inv:
  assumes "0 \<le> wg0" and "(cx_step env viewGet)\<^sup>*\<^sup>* a b" and "cx_inv wg0 (fst a) (snd a)"
  shows "cx_inv wg0 (fst b) (snd b)"
  using assms(2,3) by (induction rule: rtranclp_induct) (auto intro: step_inv [OF assms(1)])

definition fresh_context :: "('s, 'v, 'cb) cbContext \<Rightarrow> bool" where
  "fresh_context c \<longleftrightarrow> \<not> cx_done c \<and> cx_emits c = 0 \<and> cx_dones c = 0 \<and> cx_pending c = [] \<and>
     errs (cx_errors c) = [] \<and> cx_commits c = 0 \<and> cx_asyncErrs c = [] \<and> 0 \<le> cx_wg c"


subsection \<open>The changelog\<close>

text \<open>The messages handed to the producer for a topic, and what a table holds that has applied them.\<close>

definition changelog :: "string \<Rightarrow> ('s, 'v, 'cb) cbContext \<Rightarrow> (string \<times> slice) list" where
  "changelog topic c = map (\<lambda>(_, k, v, _). (k, v)) (filter (\<lambda>e. fst e = topic) (cx_emitted c))"

definition apply_changelog :: "(string \<times> slice) list \<Rightarrow> (string \<rightharpoonup> bytes) \<Rightarrow> (string \<rightharpoonup> bytes)" where
  "apply_changelog l c = fold (\<lambda>(k, v) c. c(k := v)) l c"

lemma changelog_send [simp]:
  "changelog topic (cx_send topic' key val hdr kind c) =
     changelog topic c @ (if topic' = topic then [(key, val)] else [])"
  by (simp add: changelog_def cx_send_def cx_add_pending_def)

lemma apply_changelog_snoc: "apply_changelog (l @ [(k, v)]) c = (apply_changelog l c)(k := v)"
  by (simp add: apply_changelog_def)

text \<open>A codec whose encoder, when it succeeds, yields data that is not nil.\<close>

definition encodes_data :: "'cb GroupGraph \<Rightarrow> bool" where
  "encodes_data gg \<longleftrightarrow> (\<forall>g cd v d. GroupGraph_GroupTable gg = Some g \<longrightarrow> td_codec g = Some cd \<longrightarrow>
     codec_Encode cd v = Inr d \<longrightarrow> d \<noteq> None)"

lemma graph_ok_topics:
  assumes "graph_ok gg"
  shows "GroupGraph_GroupTable gg = Some g \<Longrightarrow> td_name g = tableName (gg_group gg)"
    and "GroupGraph_LoopStream gg = Some l \<Longrightarrow> td_name l \<noteq> tableName (gg_group gg)"
proof -
  have ok: "td_name ` set (gg_loopStream gg) \<subseteq> {loopName (gg_group gg)}"
    "td_name ` set (gg_groupTable gg) \<subseteq> {tableName (gg_group gg)}"
    using assms by (simp_all add: graph_ok_def Edges_Topics_def)
  show "td_name g = tableName (gg_group gg)" if "GroupGraph_GroupTable gg = Some g"
    using ok(2) that by (cases "gg_groupTable gg") (auto simp: GroupGraph_GroupTable_def)
  show "td_name l \<noteq> tableName (gg_group gg)" if "GroupGraph_LoopStream gg = Some l"
  proof -
    have "td_name l = loopName (gg_group gg)"
      using ok(1) that by (cases "gg_loopStream gg") (auto simp: GroupGraph_LoopStream_def)
    then show ?thesis by (simp add: tableName_def loopName_def tableSuffix_def loopSuffix_def)
  qed
qed

lemma ctxDone_emitDone: "cx_ctxDone (fst (cx_emitDone err c)) = cx_ctxDone c \<and> cx_graph (fst (cx_emitDone err c)) = cx_graph c"
  by (simp add: cx_emitDone_def cx_tryCommit_def cx_markDone_def Let_def)

lemma ctxDone_finish: "cx_ctxDone (fst (cx_finish err c)) = cx_ctxDone c \<and> cx_graph (fst (cx_finish err c)) = cx_graph c"
  by (simp add: cx_finish_def cx_tryCommit_def cx_markDone_def Let_def)

lemma ctxDone_resolve:
  assumes "cx_resolve ops i msg err c = (c', r)"
  shows "cx_ctxDone c' = cx_ctxDone c \<and> cx_graph c' = cx_graph c"
proof -
  have "cx_ctxDone (fst (act_bind (cx_on_table f) cx_emitDone c1)) = cx_ctxDone c1 \<and>
      cx_graph (fst (act_bind (cx_on_table f) cx_emitDone c1)) = cx_graph c1" for f and c1 :: "('a, 'b, 'c) cbContext"
    by (simp add: act_bind_def cx_on_table_def ctxDone_emitDone split: option.splits go.splits prod.splits)
  then have "cx_ctxDone (fst (cx_resolve ops i msg err c)) = cx_ctxDone c \<and>
      cx_graph (fst (cx_resolve ops i msg err c)) = cx_graph c"
    by (simp add: cx_resolve_def Let_def ctxDone_emitDone split: option.splits pending_kind.splits)
  then show ?thesis using assms by simp
qed

lemma steps_graph: "(cx_step env viewGet)\<^sup>*\<^sup>* a b \<Longrightarrow> cx_graph (snd b) = cx_graph (snd a)"
proof (induction rule: rtranclp_induct)
  case (step b c)
  from step.hyps(2) have "cx_graph (snd c) = cx_graph (snd b)"
  proof cases
    case (op x ctx ctx')
    then show ?thesis using framedD [OF framed_op op(3)] by (simp add: cx_frame_def)
  next
    case (op_panic x ctx ctx' m)
    then show ?thesis using framedD [OF framed_op op_panic(3)] by (simp add: cx_frame_def)
  next
    case (finish ctx ctx' r)
    then show ?thesis using ctxDone_finish [of None ctx] by simp
  next
    case (resolve i msg err ctx ctx' ph)
    then show ?thesis using ctxDone_resolve [OF resolve(3)] by simp
  qed simp
  then show ?case using step.IH by simp
qed simp

context kv_storage
begin

text \<open>A context of a processor that is not cancelled, whose table has applied its changelog.\<close>

definition logged :: "(string \<rightharpoonup> bytes) \<Rightarrow> ('s, 'v, 'cb) cbContext \<Rightarrow> bool" where
  "logged c0 c \<longleftrightarrow> graph_ok (cx_graph c) \<and> encodes_data (cx_graph c) \<and> cx_Key c \<notin> reserved \<and> \<not> cx_ctxDone c \<and>
     (\<exists>p. cx_table c = Some p \<and> table_ok p \<and>
        table_contents p = apply_changelog (changelog (tableName (gg_group (cx_graph c))) c) c0)"

definition keeps :: "(('s, 'v, 'cb) cbContext, 'a) act \<Rightarrow> bool" where
  "keeps f \<longleftrightarrow> (\<forall>c0 c. logged c0 c \<longrightarrow> logged c0 (fst (f c)))"

lemma keeps_at: "keeps f \<Longrightarrow> logged c0 c \<Longrightarrow> logged c0 (fst (f c))"
  by (simp add: keeps_def)

lemma keeps_bind:
  fixes f :: "(('s, 'v, 'cb) cbContext, 'x) act"
  assumes "keeps f" and "\<And>x. keeps (g x)"
  shows "keeps (act_bind f g)"
  unfolding keeps_def
proof (intro allI impI)
  fix c0 and c :: "('s, 'v, 'cb) cbContext" assume "logged c0 c"
  obtain c1 r where f: "f c = (c1, r)" by (cases "f c")
  then have "logged c0 c1" using keeps_at [OF assms(1) \<open>logged c0 c\<close>] by simp
  then show "logged c0 (fst (act_bind f g c))"
    using f keeps_at [OF assms(2)] by (cases r) (simp_all add: act_bind_def)
qed

lemma keeps_guard:
  assumes "\<not> b \<Longrightarrow> keeps (g ())"
  shows "keeps (act_bind (act_when b (cx_Fail err)) g)"
  using assms
  by (auto simp: keeps_def act_bind_def act_when_def act_return_def cx_Fail_def logged_def)

lemma keeps_unchanged: "(\<And>c. fst (f c) = c) \<Longrightarrow> keeps f"
  by (simp add: keeps_def)

lemma keeps_return: "keeps (act_return x)"
  by (rule keeps_unchanged) (simp add: act_return_def)

lemma keeps_go: "keeps (act_go g)"
  by (rule keeps_unchanged) (simp add: act_go_def)

lemma keeps_Fail: "keeps (cx_Fail err)"
  by (simp add: keeps_def logged_def cx_Fail_def)

lemma keeps_ignore: "keeps f \<Longrightarrow> keeps (act_ignore f)"
  by (simp add: act_ignore_def keeps_bind keeps_return)

lemma keeps_result_case:
  "(\<And>e. keeps (f e)) \<Longrightarrow> (\<And>x. keeps (g x)) \<Longrightarrow> keeps (case r of Inl e \<Rightarrow> f e | Inr x \<Rightarrow> g x)"
  by (cases r) simp_all

lemma keeps_option_case:
  "keeps f \<Longrightarrow> (\<And>x. r = Some x \<Longrightarrow> keeps (g x)) \<Longrightarrow> keeps (case r of None \<Rightarrow> f | Some x \<Rightarrow> g x)"
  by (cases r) simp_all

lemma keeps_fail_on_error: "keeps (fail_on_error t r)"
  unfolding fail_on_error_def by (intro keeps_result_case keeps_bind keeps_Fail keeps_return)

lemma keeps_if: "keeps f \<Longrightarrow> keeps g \<Longrightarrow> keeps (if b then f else g)"
  by simp

lemmas keeps_intros = keeps_guard keeps_bind keeps_return keeps_go keeps_Fail keeps_ignore keeps_result_case
  keeps_option_case keeps_fail_on_error keeps_if

text \<open>What the operations do to the table.\<close>

lemma loggedD_topic:
  assumes "logged c0 c"
  shows "GroupGraph_GroupTable (cx_graph c) = Some g \<Longrightarrow> td_name g = tableName (gg_group (cx_graph c))"
    and "GroupGraph_LoopStream (cx_graph c) = Some l \<Longrightarrow> td_name l \<noteq> tableName (gg_group (cx_graph c))"
  using assms graph_ok_topics unfolding logged_def by blast+

lemma logged_emit:
  assumes "logged c0 c" and "topic \<noteq> tableName (gg_group (cx_graph c))"
  shows "logged c0 (fst (cx_emit topic key val hdr c))"
  using assms
  by (simp add: logged_def cx_emit_def act_modify_def cx_trackOutputStats_def cx_send_def
      cx_add_pending_def changelog_def cx_Key_def)

lemma logged_table:
  assumes "logged c0 c" and "\<And>p. cx_table c = Some p \<Longrightarrow> table_ok p \<Longrightarrow> table_ok (h p) \<and> table_contents (h p) = table_contents p"
  shows "logged c0 (c\<lparr>cx_table := map_option h (cx_table c)\<rparr>)"
  using assms by (auto simp: logged_def changelog_def cx_Key_def)

lemma Set_ok:
  assumes "table_ok p" and "key \<notin> reserved"
  obtains q where "pt_Set ops key (Some v) p = Ret (q, None)" and "table_ok q"
    and "table_contents q = (table_contents p)(key \<mapsto> v)"
proof -
  obtain px where px: "pt_st p = Some px" "invar (px_Storage px)"
    using assms(1) unfolding table_ok_def by blast
  obtain s e where s: "st_Set ops (px_Storage px) key (Some v) = (s, e)"
    by (cases "st_Set ops (px_Storage px) key (Some v)")
  let ?q = "p\<lparr>pt_st := Some (px\<lparr>px_Storage := s\<rparr>)\<rparr>"
  show thesis
    by (rule that [of ?q]) (use set [OF px(2) assms(2) s] px s assms(1) in
        \<open>simp_all add: pt_Set_def pt_with_def table_ok_def table_contents_def\<close>)
qed

lemma Delete_ok:
  assumes "table_ok p" and "key \<notin> reserved"
  obtains q where "pt_Delete ops key p = Ret (q, None)" and "table_ok q"
    and "table_contents q = (table_contents p)(key := None)"
proof -
  obtain px where px: "pt_st p = Some px" "invar (px_Storage px)"
    using assms(1) unfolding table_ok_def by blast
  obtain s e where s: "st_Delete ops (px_Storage px) key = (s, e)"
    by (cases "st_Delete ops (px_Storage px) key")
  let ?q = "p\<lparr>pt_st := Some (px\<lparr>px_Storage := s\<rparr>)\<rparr>"
  show thesis
    by (rule that [of ?q]) (use delete [OF px(2) assms(2) s] px s assms(1) in
        \<open>simp_all add: pt_Delete_def pt_with_def table_ok_def table_contents_def\<close>)
qed

lemma storeNewestOffset_ok:
  assumes "table_ok p" and "int64 n" and "pt_storeNewestOffset ops n p = Ret (q, e)"
  shows "table_ok q" and "table_contents q = table_contents p"
proof -
  obtain px where px: "pt_st p = Some px" "invar (px_Storage px)"
    using assms(1) unfolding table_ok_def by blast
  obtain s e' where s: "st_SetOffset ops (px_Storage px) n = (s, e')"
    by (cases "st_SetOffset ops (px_Storage px) n")
  have "q = p \<or> q = p\<lparr>pt_st := Some (px\<lparr>px_Storage := s\<rparr>)\<rparr>"
    using assms(3) px(1) s
    by (auto simp: pt_storeNewestOffset_def pt_GetOffset_def pt_SetOffset_def pt_with_def split: sum.splits if_splits)
  then show "table_ok q" and "table_contents q = table_contents p"
    using set_offset [OF px(2) assms(2) s] px assms(1) by (auto simp: table_ok_def table_contents_def)
qed

lemma logged_bind_pure:
  assumes "logged c0 c" and "keeps f" and "framed f"
    and "\<And>x c'. logged c0 c' \<Longrightarrow> cx_graph c' = cx_graph c \<Longrightarrow> logged c0 (fst (g x c'))"
  shows "logged c0 (fst (act_bind f g c))"
proof -
  obtain c1 r where f: "f c = (c1, r)" by (cases "f c")
  then have "logged c0 c1" "cx_graph c1 = cx_graph c"
    using keeps_at [OF assms(2,1)] framedD [OF assms(3) f] by (simp_all add: cx_frame_def)
  then show ?thesis using f assms(4) by (cases r) (simp_all add: act_bind_def)
qed

lemma logged_bind:
  assumes "logged c0 (fst (f c))" and "\<And>x. keeps (g x)"
  shows "logged c0 (fst (act_bind f g c))"
proof -
  obtain c1 r where "f c = (c1, r)" by (cases "f c")
  then show ?thesis using assms keeps_at [OF assms(2)] by (cases r) (simp_all add: act_bind_def)
qed

lemma logged_guard:
  assumes "logged c0 c" and "\<not> b \<Longrightarrow> logged c0 (fst (g () c))"
  shows "logged c0 (fst (act_bind (act_when b (cx_Fail err)) g c))"
  using assms by (auto simp: act_bind_def act_when_def act_return_def cx_Fail_def logged_def)

lemma keeps_Emit: "keeps (cx_Emit topic key val options)"
  unfolding keeps_def
proof (intro allI impI)
  fix c0 and c :: "('s, 'v, 'cb) cbContext" assume c: "logged c0 c"
  show "logged c0 (fst (cx_Emit topic key val options c))"
    unfolding cx_Emit_def Let_def
    by (intro logged_guard logged_bind_pure keeps_intros framed_intros c) (auto intro: logged_emit)
qed

lemma keeps_Loopback: "keeps (cx_Loopback key val options)"
  unfolding keeps_def
proof (intro allI impI)
  fix c0 and c :: "('s, 'v, 'cb) cbContext" assume c: "logged c0 c"
  show "logged c0 (fst (cx_Loopback key val options c))"
  proof (cases "GroupGraph_LoopStream (cx_graph c)")
    case None
    then show ?thesis using c by (simp add: cx_Loopback_def act_bind_def act_when_def cx_Fail_def logged_def)
  next
    case (Some l)
    then show ?thesis
      unfolding cx_Loopback_def Let_def
      by (simp, intro logged_guard logged_bind_pure keeps_intros framed_intros c logged_emit)
        (use loggedD_topic(2) [OF c Some] in auto)
  qed
qed

lemma keeps_SetValue:
  assumes "te_ops env = ops"
  shows "keeps (cx_SetValue env val options)"
  unfolding keeps_def
proof (intro allI impI)
  fix c0 and c :: "('s, 'v, 'cb) cbContext" assume c: "logged c0 c"
  have set: "logged c0 (fst (cx_setValueForKey env (cx_Key c) val hdr c))" for hdr
  proof (cases "\<exists>g cd d. GroupGraph_GroupTable (cx_graph c) = Some g \<and> val \<noteq> VNil \<and> td_codec g = Some cd \<and>
      codec_Encode cd val = Inr d")
    case False
    then show ?thesis using c
      by (auto simp: cx_setValueForKey_def act_bind_def act_go_def act_return_def encode_with_def nil_deref_def
          split: option.splits sum.splits)
  next
    case True
    then obtain g cd d where g: "GroupGraph_GroupTable (cx_graph c) = Some g" "val \<noteq> VNil" "td_codec g = Some cd"
      "codec_Encode cd val = Inr d" by blast
    then obtain v where v: "d = Some v" using c unfolding logged_def encodes_data_def by blast
    obtain p where p: "cx_table c = Some p" "table_ok p" "cx_Key c \<notin> reserved" using c unfolding logged_def by blast
    obtain q where q: "pt_Set ops (cx_Key c) (Some v) p = Ret (q, None)" "table_ok q"
      "table_contents q = (table_contents p)(cx_Key c \<mapsto> v)" using Set_ok [OF p(2,3)] by blast
    let ?q = "pt_TrackMessageWrite env (int (length v)) q"
    have "same_table ?q q" by (simp add: pt_TrackMessageWrite_def)
    then show ?thesis
      using c g p q v assms loggedD_topic(1) [OF c g(1)]
      by (simp add: cx_setValueForKey_def act_bind_def act_go_def act_return_def encode_with_def act_modify_def
          cx_on_table_def cx_trackOutputStats_def cx_send_def cx_add_pending_def logged_def changelog_def
          apply_changelog_def cx_Key_def same_table_abs)
  qed
  then show "logged c0 (fst (cx_SetValue env val options c))"
    unfolding cx_SetValue_def by (intro logged_bind keeps_intros)
qed

lemma keeps_Delete: "keeps (cx_Delete ops options)"
  unfolding keeps_def
proof (intro allI impI)
  fix c0 and c :: "('s, 'v, 'cb) cbContext" assume c: "logged c0 c"
  have "logged c0 (fst (cx_deleteKey ops (cx_Key c) hdr c))" for hdr
  proof (cases "GroupGraph_GroupTable (cx_graph c)")
    case None
    then show ?thesis using c by (simp add: cx_deleteKey_def)
  next
    case (Some g)
    obtain p where p: "cx_table c = Some p" "table_ok p" "cx_Key c \<notin> reserved" using c unfolding logged_def by blast
    obtain q where q: "pt_Delete ops (cx_Key c) p = Ret (q, None)" "table_ok q"
      "table_contents q = (table_contents p)(cx_Key c := None)" using Delete_ok [OF p(2,3)] by blast
    show ?thesis
      using c Some p q loggedD_topic(1) [OF c Some]
      by (simp add: cx_deleteKey_def act_bind_def act_return_def act_modify_def cx_on_table_def cx_send_def
          cx_add_pending_def logged_def changelog_def apply_changelog_def cx_Key_def)
  qed
  then show "logged c0 (fst (cx_Delete ops options c))"
    unfolding cx_Delete_def by (intro logged_bind keeps_intros)
qed

lemma keeps_read: "keeps (cx_on_table (\<lambda>t. go_bind (f t) (\<lambda>r. Ret (t, r))))"
  unfolding keeps_def cx_on_table_def
  by (auto simp: logged_def changelog_def cx_Key_def go_bind_eq_Ret split: option.splits go.splits prod.splits)

lemma keeps_Value: "keeps (cx_Value ops)"
  unfolding keeps_def
proof (intro allI impI)
  fix c0 and c :: "('s, 'v, 'cb) cbContext" assume c: "logged c0 c"
  show "logged c0 (fst (cx_Value ops c))"
    unfolding cx_Value_def
    by (intro logged_bind keeps_intros) (simp add: cx_valueForKey_def c, intro impI logged_bind keeps_at [OF keeps_read] keeps_intros c)
qed

lemma keeps_Join: "keeps (cx_Join ops topic)"
  unfolding keeps_def cx_Join_def Let_def by (intro allI impI keeps_at keeps_intros)

lemma keeps_Lookup: "keeps (cx_Lookup viewGet topic key)"
  unfolding keeps_def cx_Lookup_def Let_def by (intro allI impI keeps_at keeps_intros)

lemma keeps_Headers: "keeps cx_Headers"
  by (simp add: keeps_def cx_Headers_def Let_def logged_def changelog_def cx_Key_def)

lemma keeps_DeferCommit: "keeps cx_DeferCommit"
  by (simp add: keeps_def cx_DeferCommit_def cx_add_pending_def logged_def changelog_def cx_Key_def)

lemma keeps_op: "te_ops env = ops \<Longrightarrow> keeps (cx_op env viewGet x)"
  by (cases x) (simp_all add: keeps_Emit keeps_Loopback keeps_SetValue keeps_Delete keeps_ignore keeps_Value
      keeps_Join keeps_Lookup keeps_Headers keeps_DeferCommit keeps_Fail)

lemma logged_tryCommit: "logged c0 (fst (cx_tryCommit err c)) = logged c0 c"
  by (simp add: cx_tryCommit_def cx_markDone_def logged_def changelog_def cx_Key_def Let_def)

lemma keeps_emitDone: "keeps (cx_emitDone err)"
  by (simp add: keeps_def cx_emitDone_def logged_tryCommit) (simp add: logged_def changelog_def cx_Key_def)

lemma keeps_storeNewestOffset:
  assumes "int64 n"
  shows "keeps (cx_on_table (pt_storeNewestOffset ops n))"
  unfolding keeps_def cx_on_table_def
  by (auto simp: logged_def changelog_def cx_Key_def storeNewestOffset_ok [OF _ assms] split: go.splits)

lemma keeps_resolve:
  assumes "pred_option (\<lambda>m. int64 (pm_Offset m)) msg"
  shows "keeps (cx_resolve ops i msg err)"
  unfolding keeps_def
proof (intro allI impI)
  fix c0 and c :: "('s, 'v, 'cb) cbContext" assume c: "logged c0 c"
  let ?c = "c\<lparr>cx_pending := map_del i (cx_pending c)\<rparr>"
  have "logged c0 ?c" using c by (simp add: logged_def changelog_def cx_Key_def)
  moreover from this have "logged c0 (fst (act_bind (cx_on_table (pt_storeNewestOffset ops n)) cx_emitDone ?c))"
    if "int64 n" for n by (intro logged_bind keeps_at [OF keeps_storeNewestOffset [OF that]] keeps_emitDone)
  ultimately show "logged c0 (fst (cx_resolve ops i msg err c))"
    using c assms keeps_at [OF keeps_emitDone, of c0 ?c]
    by (cases msg) (simp_all add: cx_resolve_def Let_def split: option.splits pending_kind.splits)
qed

lemma keeps_finish: "keeps (cx_finish err)"
  by (simp add: keeps_def cx_finish_def logged_tryCommit) (simp add: logged_def changelog_def cx_Key_def)

lemma logged_step:
  assumes "cx_step env viewGet a b" and "te_ops env = ops" and "\<not> cx_ctxDone (snd b)"
    and "\<not> cx_ctxDone (snd a) \<Longrightarrow> logged c0 (snd a)"
  shows "logged c0 (snd b)"
  using assms(1)
proof cases
  case (op x ctx ctx')
  then show ?thesis
    using assms(3,4) keeps_at [OF keeps_op [OF assms(2)], of c0 ctx viewGet x] framedD [OF framed_op op(3)]
    by (simp add: cx_frame_def)
next
  case (op_panic x ctx ctx' m)
  then show ?thesis
    using assms(3,4) keeps_at [OF keeps_op [OF assms(2)], of c0 ctx viewGet x] framedD [OF framed_op op_panic(3)]
    by (simp add: cx_frame_def)
next
  case (finish ctx ctx' r)
  then show ?thesis
    using assms(3,4) keeps_at [OF keeps_finish, of c0 ctx None] ctxDone_finish [of None ctx] by simp
next
  case (resolve i msg err ctx ctx' ph)
  then show ?thesis
    using assms(2-4) keeps_at [OF keeps_resolve [OF resolve(4)], of c0 ctx i err] ctxDone_resolve [OF resolve(3)]
    by simp
next
  case (cancel ph ctx)
  then show ?thesis using assms(3) by simp
qed

lemma logged_steps:
  assumes "(cx_step env viewGet)\<^sup>*\<^sup>* a b" and "te_ops env = ops" and "\<not> cx_ctxDone (snd b)"
    and "\<not> cx_ctxDone (snd a) \<Longrightarrow> logged c0 (snd a)"
  shows "logged c0 (snd b)"
proof -
  have "\<not> cx_ctxDone (snd b) \<Longrightarrow> logged c0 (snd b)"
    using assms(1) by (induction rule: rtranclp_induct) (use assms(4) logged_step [OF _ assms(2)] in blast)+
  then show ?thesis using assms(3) by blast
qed

end


subsection \<open>Reading what was written\<close>

lemma valueForKey_contents:
  assumes kv: "kv_storage ops invar contents offset reserved fresh offset_ok" and key: "cx_Key c \<notin> reserved"
    and p: "cx_table c = Some p" "pt_IsRecovered p" "pt_st p = Some px" "invar (px_Storage px)"
    and g: "GroupGraph_GroupTable (cx_graph c) = Some g" "td_codec g = Some cd"
    and d: "\<And>b. contents (px_Storage px) (cx_Key c) = Some b \<Longrightarrow> codec_Decode cd (Some b) = Inr v"
      "contents (px_Storage px) (cx_Key c) = None \<Longrightarrow> v = VNil"
  shows "cx_Value ops c = (c, Ret v)"
proof -
  have "pt_Get ops (cx_Key c) p = Ret (Inr (contents (px_Storage px) (cx_Key c)))"
    using kv_storage.get [OF kv p(4) key] p(2,3)
    by (simp add: pt_Get_def pt_readyToRead_def pt_IsRecovered_def pt_CurrentState_def Signal_IsState_def
        Signal_State_def pt_with_def)
  then have "cx_on_table (\<lambda>t. go_bind (pt_Get ops (cx_Key c) t) (\<lambda>r. Ret (t, r))) c =
      (c, Ret (Inr (contents (px_Storage px) (cx_Key c))))"
    using p(1) by (simp add: cx_on_table_def)
  then show ?thesis
    using p(1) g d
    by (cases "contents (px_Storage px) (cx_Key c)")
      (simp_all add: cx_Value_def cx_valueForKey_def act_bind_def act_return_def act_go_def decode_with_def)
qed

text \<open>What SetValue does on a table that can be written to.\<close>

lemma SetValue_stores:
  assumes kv: "kv_storage ops invar contents offset reserved fresh offset_ok" and env: "te_ops env = ops"
    and codec: "codec_contract cd domain" "domain v" "v \<noteq> VNil"
    and g: "GroupGraph_GroupTable (cx_graph c) = Some g" "td_codec g = Some cd"
    and key: "cx_Key c \<notin> reserved"
    and p: "cx_table c = Some p" "pt_st p = Some px" "invar (px_Storage px)"
  obtains c' q s b where "cx_SetValue env v opts c = (c', Ret ())" and "cx_table c' = Some q"
    and "pt_st q = Some (px\<lparr>px_Storage := s\<rparr>)" and "pt_state q = pt_state p" and "invar s"
    and "contents s = (contents (px_Storage px))(cx_Key c \<mapsto> b)"
    and "codec_Encode cd v = Inr (Some b)" and "codec_Decode cd (Some b) = Inr v"
proof -
  obtain b where b: "codec_Encode cd v = Inr (Some b)" "codec_Decode cd (Some b) = Inr v"
    using codec_contract.roundtrip [OF codec(1,2)] by blast
  obtain s e where s: "st_Set ops (px_Storage px) (cx_Key c) (Some b) = (s, e)"
    by (cases "st_Set ops (px_Storage px) (cx_Key c) (Some b)")
  note s' = kv_storage.set [OF kv p(3) key s]
  define q where "q = pt_TrackMessageWrite env (int (length b)) (p\<lparr>pt_st := Some (px\<lparr>px_Storage := s\<rparr>)\<rparr>)"
  have "cx_SetValue env v opts c = (cx_trackOutputStats (td_name g) (Some b)
    (cx_send (td_name g) (cx_Key c) (Some b) (applyCtxOptions opts) PendingStore
      (c\<lparr>cx_stores := Suc (cx_stores c), cx_table := Some q\<rparr>)), Ret ())"
    using g codec(3) b(1) s s' p(1,2) env
    by (simp add: cx_SetValue_def cx_setValueForKey_def act_bind_def act_return_def act_go_def encode_with_def
        act_modify_def cx_on_table_def pt_Set_def pt_with_def q_def cx_trackOutputStats_def cx_send_def
        cx_add_pending_def)
  moreover have "pt_st q = Some (px\<lparr>px_Storage := s\<rparr>)" "pt_state q = pt_state p"
    by (simp_all add: q_def pt_TrackMessageWrite_def pt_enqueueStatsUpdate_def)
  ultimately show thesis
    using s' b by (intro that) (assumption | simp add: cx_trackOutputStats_def cx_send_def cx_add_pending_def)+
qed

text \<open>C25: a callback reads what it wrote. On a recovered table whose codec satisfies its contract,
  SetValue with a value of the codec's domain returns normally, whether or not the processor is
  cancelled; Value then returns that value; and after a Delete, Value returns nil.\<close>

theorem value_after_set:
  assumes kv: "kv_storage ops invar contents offset reserved fresh offset_ok" and env: "te_ops env = ops"
    and codec: "codec_contract cd domain" "domain v" "v \<noteq> VNil"
    and g: "GroupGraph_GroupTable (cx_graph c) = Some g" "td_codec g = Some cd"
    and key: "cx_Key c \<notin> reserved"
    and p: "cx_table c = Some p" "pt_IsRecovered p" "pt_st p = Some px" "invar (px_Storage px)"
  shows "\<exists>c' c''. cx_SetValue env v opts c = (c', Ret ()) \<and> cx_Value ops c' = (c', Ret v) \<and>
    cx_Delete ops opts' c' = (c'', Ret ()) \<and> cx_Value ops c'' = (c'', Ret VNil)"
proof -
  obtain c' q s b where s: "cx_SetValue env v opts c = (c', Ret ())" "cx_table c' = Some q" "pt_st q = Some (px\<lparr>px_Storage := s\<rparr>)"
      "pt_state q = pt_state p" "invar s" "contents s = (contents (px_Storage px))(cx_Key c \<mapsto> b)" "codec_Decode cd (Some b) = Inr v"
    by (rule SetValue_stores [OF kv env codec g key p(1,3,4), of opts])
  have c': "cx_graph c' = cx_graph c" "cx_Key c' = cx_Key c"
    using framedD [OF framed_SetValue s(1)] by (simp_all add: cx_frame_def cx_Key_def)
  have 2: "cx_Value ops c' = (c', Ret v)"
    by (rule valueForKey_contents [OF kv _ s(2) _ s(3)]) (use key c' s p(2) g in \<open>auto simp: pt_IsRecovered_def\<close>)
  obtain s2 e2 where s2: "st_Delete ops s (cx_Key c) = (s2, e2)" by (cases "st_Delete ops s (cx_Key c)")
  note s2' = kv_storage.delete [OF kv s(5) key s2]
  define q2 where "q2 = q\<lparr>pt_st := Some (px\<lparr>px_Storage := s2\<rparr>)\<rparr>"
  define c'' where "c'' = cx_send (td_name g) (cx_Key c) None (applyCtxOptions opts') PendingDelete
      (c'\<lparr>cx_stores := Suc (cx_stores c'), cx_table := Some q2\<rparr>)"
  have c'': "cx_table c'' = Some q2" "cx_graph c'' = cx_graph c" "cx_Key c'' = cx_Key c"
    using c' by (simp_all add: c''_def cx_send_def cx_add_pending_def) (simp add: cx_Key_def)
  have 3: "cx_Delete ops opts' c' = (c'', Ret ())"
    using g(1) c' s(2,3) s2 s2'
    by (simp add: cx_Delete_def cx_deleteKey_def act_bind_def act_return_def act_modify_def cx_on_table_def
        pt_Delete_def pt_with_def c''_def q2_def)
  have "cx_Value ops c'' = (c'', Ret VNil)"
    by (rule valueForKey_contents [OF kv _ c''(1), of "px\<lparr>px_Storage := s2\<rparr>"])
      (use key c'' s(4) p(2) g s2' in \<open>auto simp: q2_def pt_IsRecovered_def\<close>)
  with s(1) 2 3 show ?thesis by blast
qed

text \<open>C29: Fail does not stop a callback once the processor is cancelled. It then only records its error
  and returns, and the operation that called it goes on: Emit writes to the table topic, which it is meant
  to refuse, and the local table does not get the value.\<close>

theorem cancelled_emit_writes_table:
  assumes "cx_ctxDone c" and "topic = tableName (gg_group (cx_graph c))"
    and "GroupGraph_codec (cx_graph c) topic = Some cd" and "codec_Encode cd val = Inr d" and "val \<noteq> VNil"
  shows "\<exists>c'. cx_Emit topic key val opts c = (c', Ret ()) \<and> cx_rerr c' \<noteq> None \<and> cx_table c' = cx_table c \<and>
    changelog topic c' = changelog topic c @ [(key, d)]"
proof -
  have "topic \<noteq> ''''" "loopName (gg_group (cx_graph c)) \<noteq> topic"
    using assms(2) by (simp_all add: tableName_def loopName_def tableSuffix_def loopSuffix_def)
  then show ?thesis
    using assms
    by (cases "GroupGraph_isOutputTopic (cx_graph c) topic")
      (simp_all add: cx_Emit_def act_bind_def act_when_def cx_Fail_def act_return_def act_go_def encode_with_def
        fail_on_error_def cx_emit_def act_modify_def cx_trackOutputStats_def cx_send_def cx_add_pending_def
        changelog_def Let_def)
qed

section \<open>Samples\<close>

text \<open>A context of the sample group with an empty, recovered table, and a callback that sets the value,
  emits a message and returns; both messages are acknowledged, the second one first.\<close>

definition sample_context :: "(memory, unit, unit) cbContext" where
  "sample_context = \<lparr>cx_graph = sample_graph, cx_emitterDefaultHeaders = None, cx_headers = None,
     cx_table = Some ((sample_table NewMemory)\<lparr>pt_state := (pt_state (sample_table NewMemory))\<lparr>sig_state := PartitionRunning\<rparr>\<rparr>),
     cx_pviews = None, cx_views = None, cx_msg = sample_message 7 ''k'' (Some ''x''), cx_done = False, cx_emits = 0,
     cx_dones = 0, cx_stores = 0, cx_errors = newErrors, cx_wg = 0, cx_ctxDone = False, cx_rerr = None,
     cx_asyncErrs = [], cx_commits = 0, cx_emitted = [], cx_tracked = [], cx_pending = [], cx_next = 0\<rparr>"

definition sample_cx_env :: "memory table_env" where
  "sample_cx_env = sample_env memory_ops sample_script"

definition sample_viewGet :: "unit \<Rightarrow> string \<Rightarrow> gval result go" where
  "sample_viewGet v k = Ret (Inr VNil)"

definition sample_run :: "(memory, unit, unit) cbContext \<Rightarrow> (memory, unit, unit) cbContext" where
  "sample_run c = fst (cx_op sample_cx_env sample_viewGet (OpEmit ''out'' ''a'' (VString ''b'') [])
     (fst (cx_op sample_cx_env sample_viewGet (OpSetValue (VInt64 5) []) c)))"

definition sample_finish :: "(memory, unit, unit) cbContext \<Rightarrow> (memory, unit, unit) cbContext" where
  "sample_finish c = fst (cx_resolve memory_ops 0 None None (fst (cx_resolve memory_ops 1 None None (fst (cx_finish None c)))))"

lemma sample_graph_table:
  "GroupGraph_GroupTable sample_graph = Some \<lparr>td_name = ''g-table'', td_codec = Some Int64Codec\<rparr>"
  "GroupGraph_codec sample_graph ''g-table'' = Some Int64Codec"
  by (simp_all add: sample_graph_def DefineGroup_def Input_def Output_def Loop_def Persist_def GroupGraph_codec_def
      define_input_def validateInputTopic_def Let_def GroupGraph_GroupTable_def
      GroupTable_name_def loopName_def loopSuffix_def tableName_def tableSuffix_def)

lemma sample_ok:
  "snd (cx_op sample_cx_env sample_viewGet (OpSetValue (VInt64 5) []) (cx_start sample_context)) = Ret ()"
  "snd (cx_op sample_cx_env sample_viewGet (OpEmit ''out'' ''a'' (VString ''b'') [])
     (fst (cx_op sample_cx_env sample_viewGet (OpSetValue (VInt64 5) []) (cx_start sample_context)))) = Ret ()"
  by code_simp+

lemma sample_finished:
  "cx_pending (sample_finish (sample_run (cx_start sample_context))) = []"
  "errs (cx_errors (sample_finish (sample_run (cx_start sample_context)))) = []"
  by code_simp+

lemma step_op:
  "snd (cx_op env viewGet x c) = Ret () \<Longrightarrow> cx_step env viewGet (Running, c) (Running, fst (cx_op env viewGet x c))"
  by (rule cx_step.op [of env viewGet x]) (simp add: prod_eq_iff)

lemma step_resolve:
  "snd (cx_resolve (te_ops env) i msg err c) = Ret () \<Longrightarrow> pred_option (\<lambda>m. int64 (pm_Offset m)) msg \<Longrightarrow>
    cx_step env viewGet (ph, c) (ph, fst (cx_resolve (te_ops env) i msg err c))"
  by (rule cx_step.resolve [of env i msg err]) (simp_all add: prod_eq_iff)

lemma sample_ops: "te_ops sample_cx_env = memory_ops"
  by (simp add: sample_cx_env_def sample_env_def)

lemma sample_steps_run:
  "(cx_step sample_cx_env sample_viewGet)\<^sup>*\<^sup>* (Running, cx_start sample_context) (Running, sample_run (cx_start sample_context))"
  unfolding sample_run_def
  by (rule converse_rtranclp_into_rtranclp, rule step_op [OF sample_ok(1)], rule r_into_rtranclp, rule step_op [OF sample_ok(2)])

lemma sample_resolved:
  "snd (cx_resolve memory_ops 1 None None (fst (cx_finish None (sample_run (cx_start sample_context))))) = Ret ()"
  "snd (cx_resolve memory_ops 0 None None (fst (cx_resolve memory_ops 1 None None
     (fst (cx_finish None (sample_run (cx_start sample_context))))))) = Ret ()"
  by code_simp+

lemma sample_steps:
  "(cx_step sample_cx_env sample_viewGet)\<^sup>*\<^sup>* (Running, cx_start sample_context)
     (Finished, sample_finish (sample_run (cx_start sample_context)))"
proof -
  let ?c = "sample_run (cx_start sample_context)"
  have "cx_step sample_cx_env sample_viewGet (Running, ?c) (Finished, fst (cx_finish None ?c))"
    by (rule cx_step.finish) (rule surjective_pairing)
  moreover note step_resolve [of sample_cx_env 1 None None _ sample_viewGet Finished, unfolded sample_ops, OF sample_resolved(1)]
    step_resolve [of sample_cx_env 0 None None _ sample_viewGet Finished, unfolded sample_ops, OF sample_resolved(2)]
  ultimately show ?thesis
    unfolding sample_finish_def
    by (auto intro!: rtranclp_trans [OF sample_steps_run] intro: converse_rtranclp_into_rtranclp)
qed



theorem value_after_set_witness:
  "\<exists>c' c''. cx_SetValue sample_cx_env (VInt64 5) [] sample_context = (c', Ret ()) \<and>
     cx_Value memory_ops c' = (c', Ret (VInt64 5)) \<and>
     cx_Delete memory_ops [] c' = (c'', Ret ()) \<and> cx_Value memory_ops c'' = (c'', Ret VNil)"
proof -
  have g: "GroupGraph_GroupTable (cx_graph sample_context) = Some \<lparr>td_name = ''g-table'', td_codec = Some Int64Codec\<rparr>"
    by (simp add: sample_context_def sample_graph_table)
  show ?thesis
    by (rule value_after_set [OF mem.kv_storage_axioms sample_ops int64_codec.codec_contract_axioms _ _ g])
      (auto simp: sample_context_def sample_table_def NewMemory_def memory_invar_def pt_IsRecovered_def Signal_IsState_def)
qed

theorem cancelled_emit_writes_table_witness:
  "\<exists>c'. cx_Emit ''g-table'' ''k'' (VInt64 5) [] (sample_context\<lparr>cx_ctxDone := True\<rparr>) = (c', Ret ()) \<and>
     cx_rerr c' \<noteq> None \<and> changelog ''g-table'' c' = [(''k'', Some ''5'')]"
proof -
  let ?c = "sample_context\<lparr>cx_ctxDone := True\<rparr>"
  have "changelog ''g-table'' ?c = []" "codec_Encode Int64Codec (VInt64 5) = Inr (Some ''5'')" by code_simp+
  moreover have "GroupGraph_codec (cx_graph ?c) ''g-table'' = Some Int64Codec"
    by (simp add: sample_context_def sample_graph_table)
  moreover have "''g-table'' = tableName (gg_group (cx_graph ?c))" by code_simp
  ultimately show ?thesis
    using cancelled_emit_writes_table [of ?c "''g-table''" Int64Codec "VInt64 5" "Some ''5''" "''k''" "[]"] by auto
qed

end
