(* ===== verification/Goka_Partition_Processor.thy ===== *)
theory Goka_Partition_Processor
  imports Goka_Context "HOL-Library.Multiset"
begin

text \<open>
  The partition processor (\<open>partition_processor.go\<close>).

  \<^item> A process callback is a function from the decoded message to a tree of the operations it calls on
    its context: after each operation it goes on according to what the operation returned.
  \<^item> \<open>Start\<close> recovers the table and the join tables and starts the runners; the results of the runners
    reach \<open>Stop\<close> through the runner group.
  \<^item> \<open>run\<close> is a step relation: the loop takes messages from the input channel; while it runs and after
    it has returned, the promises of the messages in flight are resolved in any order.
  \<^item> The contexts of the messages in flight share the table, the wait group, the processor's context
    and the error variable of \<open>run\<close>; \<open>rn_enter\<close> and \<open>rn_leave\<close> exchange these with the context that acts.
\<close>

section \<open>Process callbacks\<close>

datatype cb_ret = RetNone | RetValue gval | RetHeaders Headers | RetDefer nat

datatype cb_prog = CbReturn | CbPanic string | CbDo cb_op "cb_ret \<Rightarrow> cb_prog"

type_synonym ProcessCallback = "gval \<Rightarrow> cb_prog"

definition act_map :: "('a \<Rightarrow> 'b) \<Rightarrow> ('c, 'a) act \<Rightarrow> ('c, 'b) act" where
  "act_map h f = act_bind f (\<lambda>x. act_return (h x))"

fun cx_call ::
  "'s table_env \<Rightarrow> ('v \<Rightarrow> string \<Rightarrow> gval result go) \<Rightarrow> cb_op \<Rightarrow> (('s, 'v, 'cb) cbContext, cb_ret) act" where
  "cx_call env viewGet (OpEmit topic key val options) = act_map (\<lambda>_. RetNone) (cx_Emit topic key val options)"
| "cx_call env viewGet (OpLoopback key val options) = act_map (\<lambda>_. RetNone) (cx_Loopback key val options)"
| "cx_call env viewGet (OpSetValue val options) = act_map (\<lambda>_. RetNone) (cx_SetValue env val options)"
| "cx_call env viewGet (OpDelete options) = act_map (\<lambda>_. RetNone) (cx_Delete (te_ops env) options)"
| "cx_call env viewGet OpValue = act_map RetValue (cx_Value (te_ops env))"
| "cx_call env viewGet (OpJoin topic) = act_map RetValue (cx_Join (te_ops env) topic)"
| "cx_call env viewGet (OpLookup topic key) = act_map RetValue (cx_Lookup viewGet topic key)"
| "cx_call env viewGet OpHeaders = act_map RetHeaders cx_Headers"
| "cx_call env viewGet OpDeferCommit = act_map RetDefer cx_DeferCommit"
| "cx_call env viewGet (OpFail err) = act_map (\<lambda>_. RetNone) (cx_Fail err)"

primrec cx_exec ::
  "'s table_env \<Rightarrow> ('v \<Rightarrow> string \<Rightarrow> gval result go) \<Rightarrow> cb_prog \<Rightarrow> (('s, 'v, 'cb) cbContext, unit) act" where
  "cx_exec env viewGet CbReturn = act_return ()"
| "cx_exec env viewGet (CbPanic m) = act_go (Panic m)"
| "cx_exec env viewGet (CbDo x k) = act_bind (cx_call env viewGet x) (\<lambda>r. cx_exec env viewGet (k r))"

lemma framed_map: "framed f \<Longrightarrow> framed (act_map h f)"
  by (simp add: act_map_def framed_bind framed_return)

lemma framed_call: "framed (cx_call env viewGet x)"
  by (cases x) (simp_all, (intro framed_map framed_intros)+)

lemma framed_exec: "framed (cx_exec env viewGet p)"
  by (induction p) (auto intro: framed_intros framed_call)

section \<open>The partition processor\<close>

definition PPStateIdle :: int where "PPStateIdle = 0"
definition PPStateRecovering :: int where "PPStateRecovering = 1"
definition PPStateRunning :: int where "PPStateRunning = 2"
definition PPStateStopping :: int where "PPStateStopping = 3"

datatype PPRunMode = runModeActive | runModePassive | runModeRecoverOnly

datatype NilHandling = NilIgnore | NilProcess | NilDecode

text \<open>The closures sent to the statistics goroutine, and the tasks of the runner group.\<close>

datatype pp_update = UpdInput int ConsumerMessage | UpdOutput string int

datatype runner_task = TaskCatchup string | TaskRun | TaskTableCatchup | TaskNone

record ('s, 'v) PartitionProcessor =
  pp_callbacks :: "string \<rightharpoonup> ProcessCallback option"
  pp_table :: "'s PartitionTable option"
  pp_joins :: "(string \<times> 's PartitionTable) list"
  pp_lookups :: "(string \<rightharpoonup> 'v) option"
  pp_graph :: "ProcessCallback GroupGraph"
  pp_state :: Signal
  pp_partition :: int
  pp_inputTopics :: "string list"
  pp_runnerGroup :: "runner_task list option"
  pp_runMode :: PPRunMode
  pp_stats :: PartitionProcStats
  pp_heap :: stats_heap
  pp_updateStats :: "pp_update list"
  pp_responseStats :: "PartitionProcStats list"
  pp_statsCancelled :: bool
  pp_nilHandling :: NilHandling
  pp_producerDefaultHeaders :: Headers

text \<open>The order in which Go ranges over the map of topics is the argument \<open>order\<close>.\<close>

definition newPartitionProcessor ::
  "(string list \<Rightarrow> string list) \<Rightarrow> int \<Rightarrow> int \<Rightarrow> ProcessCallback GroupGraph \<Rightarrow> NilHandling \<Rightarrow> Headers \<Rightarrow> PPRunMode \<Rightarrow>
   (string \<rightharpoonup> 'v) option \<Rightarrow> ('s, 'v) PartitionProcessor go" where
  "newPartitionProcessor order now partition' graph nilHandling defaultHeaders runMode lookupTables =
     (let topics = Edges_Topics (gg_inputStreams graph) @
            (case GroupGraph_LoopStream graph of None \<Rightarrow> [] | Some l \<Rightarrow> [td_name l]);
          topicList = order (remdups topics);
          outputList = Edges_Topics (gg_outputStreams graph) @
            (case GroupGraph_LoopStream graph of None \<Rightarrow> [] | Some l \<Rightarrow> [td_name l]) @
            (case GroupGraph_GroupTable graph of None \<Rightarrow> [] | Some g \<Rightarrow> [td_name g]);
          (h, stats) = newPartitionProcStats now topicList outputList \<lparr>h_input = [], h_output = [], h_recovery = []\<rparr>
      in go_bind (Signal_SetState (\<lambda>_. True) PPStateIdle
           (NewSignal [PPStateIdle, PPStateRecovering, PPStateRunning, PPStateStopping])) (\<lambda>state.
         go_bind (case GroupGraph_GroupTable graph of
             None \<Rightarrow> Ret None
           | Some g \<Rightarrow> go_bind (newPartitionTable (td_name g) partition') (\<lambda>t. Ret (Some t))) (\<lambda>table.
         Ret \<lparr>pp_callbacks = (\<lambda>t. if t \<in> set topicList then Some (GroupGraph_callback graph t) else None),
           pp_table = table, pp_joins = [], pp_lookups = lookupTables, pp_graph = graph, pp_state = state,
           pp_partition = partition', pp_inputTopics = topicList, pp_runnerGroup = None, pp_runMode = runMode,
           pp_stats = stats, pp_heap = h, pp_updateStats = [], pp_responseStats = [], pp_statsCancelled = False,
           pp_nilHandling = nilHandling, pp_producerDefaultHeaders = defaultHeaders\<rparr>)))"

definition pp_Recovered :: "('s, 'v) PartitionProcessor \<Rightarrow> bool" where
  "pp_Recovered pp = Signal_IsState (pp_state pp) PPStateRunning"

definition pp_SetState :: "'s table_env \<Rightarrow> int \<Rightarrow> ('s, 'v) PartitionProcessor \<Rightarrow> ('s, 'v) PartitionProcessor go" where
  "pp_SetState env st pp =
     go_bind (Signal_SetState (te_send env) st (pp_state pp)) (\<lambda>s. Ret (pp\<lparr>pp_state := s\<rparr>))"

text \<open>The input channel is the list of the messages sent to it.\<close>

definition pp_EnqueueMessage :: "ConsumerMessage \<Rightarrow> ConsumerMessage list \<Rightarrow> ConsumerMessage list" where
  "pp_EnqueueMessage msg input = input @ [msg]"

subsection \<open>Start and stop\<close>

text \<open>The recoveries of the tables are independent of each other: they are run one after the other, and
  the error group gets their results. The flags \<open>ctxDone\<close> say for each table whether the context was
  done when its recovery looked; \<open>done\<close> is what Start sees after the recovery. The outcome \<open>None\<close>: a
  recovery is still waiting for messages.\<close>

fun pp_setupJoins ::
  "'s table_env \<Rightarrow> (string \<Rightarrow> bool \<times> bool) \<Rightarrow> topicDef list \<Rightarrow> ('s, 'v) PartitionProcessor \<Rightarrow>
   (('s, 'v) PartitionProcessor \<times> gerr option list) option go" where
  "pp_setupJoins env ctxDone [] pp = Ret (Some (pp, []))"
| "pp_setupJoins env ctxDone (join # js) pp =
     go_bind (newPartitionTable (td_name join) (pp_partition pp)) (\<lambda>t.
     go_bind (pt_SetupAndRecover env (fst (ctxDone (td_name join))) (snd (ctxDone (td_name join))) t) (\<lambda>r.
       case r of
         None \<Rightarrow> Ret None
       | Some (t, e) \<Rightarrow>
           go_bind (pp_setupJoins env ctxDone js (pp\<lparr>pp_joins := map_put (td_name join) t (pp_joins pp)\<rparr>)) (\<lambda>r.
             Ret (map_option (\<lambda>(pp, es). (pp, e # es)) r))))"

definition pp_setupTable ::
  "'s table_env \<Rightarrow> (string \<Rightarrow> bool \<times> bool) \<Rightarrow> ('s, 'v) PartitionProcessor \<Rightarrow>
   (('s, 'v) PartitionProcessor \<times> gerr option list) option go" where
  "pp_setupTable env ctxDone pp =
     (case pp_table pp of
        None \<Rightarrow> Ret (Some (pp, []))
      | Some t \<Rightarrow>
          go_bind (pt_SetupAndRecover env (fst (ctxDone (pt_topic t))) (snd (ctxDone (pt_topic t))) t) (\<lambda>r.
            Ret (map_option (\<lambda>(t, e). (pp\<lparr>pp_table := Some t\<rparr>, [e])) r)))"

definition pp_runners :: "('s, 'v) PartitionProcessor \<Rightarrow> runner_task list" where
  "pp_runners pp =
     map (\<lambda>(t, _). TaskCatchup t) (pp_joins pp) @
     [case pp_runMode pp of
        runModeActive \<Rightarrow> TaskRun
      | runModePassive \<Rightarrow> if pp_table pp \<noteq> None then TaskTableCatchup else TaskNone
      | runModeRecoverOnly \<Rightarrow> TaskNone]"

text \<open>After the recovery: with an error, when cancelled, or in the mode that only recovers, no runner is
  started; the deferred call sets the state in every case.\<close>

definition pp_startRunners ::
  "'s table_env \<Rightarrow> bool \<Rightarrow> gerr option list \<Rightarrow> ('s, 'v) PartitionProcessor \<Rightarrow>
   (('s, 'v) PartitionProcessor \<times> gerr option) go" where
  "pp_startRunners env done' es pp =
     (let err = Errors_NilOrError (snd (ErrGroup_Wait es NewErrGroup));
          tasks = (if err \<noteq> None \<or> done' \<or> pp_runMode pp = runModeRecoverOnly then [] else pp_runners pp)
      in go_bind (pp_SetState env PPStateRunning (pp\<lparr>pp_runnerGroup := Some tasks\<rparr>)) (\<lambda>pp.
           Ret (pp, map_option (Wrap ''Setup failed. Cannot start processor for partition %d: %v'') err)))"

definition pp_Start ::
  "'s table_env \<Rightarrow> (string \<Rightarrow> bool \<times> bool) \<Rightarrow> bool \<Rightarrow> ('s, 'v) PartitionProcessor \<Rightarrow>
   (('s, 'v) PartitionProcessor \<times> gerr option) option go" where
  "pp_Start env ctxDone done' pp =
     go_bind (pp_SetState env PPStateRecovering (pp\<lparr>pp_runnerGroup := Some []\<rparr>)) (\<lambda>pp.
     go_bind (pp_setupTable env ctxDone pp) (\<lambda>r.
       case r of None \<Rightarrow> Ret None | Some (pp, es) \<Rightarrow>
     go_bind (pp_setupJoins env ctxDone (gg_inputTables (pp_graph pp)) pp) (\<lambda>r.
       case r of None \<Rightarrow> Ret None | Some (pp, es') \<Rightarrow>
     go_bind (pp_startRunners env done' (es @ es') pp) (\<lambda>r. Ret (Some r)))))"

fun pp_closeTables ::
  "'s table_env \<Rightarrow> (string \<times> 's PartitionTable) list \<Rightarrow> ((string \<times> 's PartitionTable) list \<times> gerr option list) go" where
  "pp_closeTables env [] = Ret ([], [])"
| "pp_closeTables env ((n, t) # ts) =
     go_bind (pt_Close env t) (\<lambda>(t, e).
     go_bind (pp_closeTables env ts) (\<lambda>(ts, es). Ret ((n, t) # ts, e # es)))"

text \<open>The runners have returned the results \<open>rs\<close> when the runner group's errors can be read.\<close>

definition pp_Stop ::
  "'s table_env \<Rightarrow> gerr option list \<Rightarrow> ('s, 'v) PartitionProcessor \<Rightarrow>
   (('s, 'v) PartitionProcessor \<times> gerr option) go" where
  "pp_Stop env rs pp =
     go_bind (pp_SetState env PPStateStopping pp) (\<lambda>pp.
     let es = (if pp_runnerGroup pp \<noteq> None
               then Errors_Collect newErrors (Errors_NilOrError (snd (ErrGroup_Wait rs NewErrGroup)))
               else newErrors);
         pp = pp\<lparr>pp_statsCancelled := True\<rparr>
     in go_bind (pp_closeTables env (pp_joins pp)) (\<lambda>(joins, cs).
        go_bind (case pp_table pp of
            None \<Rightarrow> Ret (None, [])
          | Some t \<Rightarrow> go_bind (pt_Close env t) (\<lambda>(t, e). Ret (Some t, [e]))) (\<lambda>(table, c).
        let es = Errors_Collect es (Errors_NilOrError (snd (ErrGroup_Wait (cs @ c) NewErrGroup)))
        in go_bind (pp_SetState env PPStateIdle (pp\<lparr>pp_joins := joins, pp_table := table\<rparr>)) (\<lambda>pp.
             Ret (pp, Errors_NilOrError es)))))"

subsection \<open>Statistics\<close>

definition pp_enqueueStatsUpdate ::
  "(pp_update \<Rightarrow> bool) \<Rightarrow> pp_update \<Rightarrow> ('s, 'v) PartitionProcessor \<Rightarrow> ('s, 'v) PartitionProcessor" where
  "pp_enqueueStatsUpdate skip updater pp =
     (if length (pp_updateStats pp) < 10 \<and> \<not> skip updater
      then pp\<lparr>pp_updateStats := pp_updateStats pp @ [updater]\<rparr> else pp)"

definition pp_updateStatsWithMessage ::
  "int \<Rightarrow> ConsumerMessage \<Rightarrow> ('s, 'v) PartitionProcessor \<Rightarrow> ('s, 'v) PartitionProcessor go" where
  "pp_updateStatsWithMessage now ev pp =
     (case map_of (pps_Input (pp_stats pp)) (msg_Topic ev) of
        None \<Rightarrow> nil_deref
      | Some i \<Rightarrow>
          Ret (pp\<lparr>pp_heap := update_input i (\<lambda>ip.
            let ip = ip\<lparr>is_Bytes := wrap64 (is_Bytes ip + int (length (slice_bytes (msg_Value ev)))),
                        is_LastOffset := msg_Offset ev\<rparr>;
                ip = (case msg_Timestamp ev of None \<Rightarrow> ip | Some t \<Rightarrow> ip\<lparr>is_Delay := now - t\<rparr>)
            in ip\<lparr>is_Count := wrap_uint (is_Count ip + 1)\<rparr>) (pp_heap pp)\<rparr>))"

fun run_pp_update :: "pp_update \<Rightarrow> ('s, 'v) PartitionProcessor \<Rightarrow> ('s, 'v) PartitionProcessor go" where
  "run_pp_update (UpdInput now ev) pp = pp_updateStatsWithMessage now ev pp"
| "run_pp_update (UpdOutput topic size') pp =
     Ret (pp\<lparr>pp_heap := PartitionProcStats_trackOutput (pp_heap pp) (pp_stats pp) topic size'\<rparr>)"

definition pp_updateHwmStats ::
  "(string \<Rightarrow> int \<Rightarrow> int) \<Rightarrow> ('s, 'v) PartitionProcessor \<Rightarrow> ('s, 'v) PartitionProcessor" where
  "pp_updateHwmStats hwms pp =
     pp\<lparr>pp_heap := fold (\<lambda>(input, i). update_input i (\<lambda>ip.
       let hwm = hwms input (pp_partition pp)
       in if hwm \<noteq> 0 \<and> is_LastOffset ip \<noteq> 0 then ip\<lparr>is_OffsetLag := wrap64 (hwm - is_LastOffset ip)\<rparr> else ip))
       (pps_Input (pp_stats pp)) (pp_heap pp)\<rparr>"

fun runMode_int :: "PPRunMode \<Rightarrow> int" where
  "runMode_int runModeActive = 0"
| "runMode_int runModePassive = 1"
| "runMode_int runModeRecoverOnly = 2"

text \<open>The statistics of the tables are what their own goroutines answer; their counters live in the
  stores of the tables.\<close>

definition pp_collectStats ::
  "int \<Rightarrow> ('s PartitionTable \<Rightarrow> TableStats option) \<Rightarrow> ('s, 'v) PartitionProcessor \<Rightarrow> stats_heap \<times> PartitionProcStats" where
  "pp_collectStats now fetch pp =
     (let (h, stats) = PartitionProcStats_clone now (pp_heap pp) (pp_stats pp);
          mode = map_option (ts_RunMode_update (\<lambda>_. runMode_int (pp_runMode pp)))
      in (h, stats\<lparr>pps_Joined := map (\<lambda>(t, join). (t, mode (fetch join))) (pp_joins pp),
              pps_TableStats := (case pp_table pp of None \<Rightarrow> pps_TableStats stats | Some t \<Rightarrow> mode (fetch t))\<rparr>))"

definition pp_runStatsLoop_round ::
  "int \<Rightarrow> (string \<Rightarrow> int \<Rightarrow> int) \<Rightarrow> ('s PartitionTable \<Rightarrow> TableStats option) \<Rightarrow> stats_round \<Rightarrow>
   ('s, 'v) PartitionProcessor \<Rightarrow> ('s, 'v) PartitionProcessor go" where
  "pp_runStatsLoop_round now hwms fetch round' pp =
     (if length (pp_responseStats pp) > 1 then Ret pp
      else case round' of
        StatsRequested \<Rightarrow>
          (case pp_collectStats now fetch pp of (h, stats) \<Rightarrow>
             Ret (pp\<lparr>pp_heap := h, pp_responseStats := pp_responseStats pp @ [stats]\<rparr>))
      | StatsUpdated \<Rightarrow>
          (case pp_updateStats pp of
             [] \<Rightarrow> Ret pp
           | u # us \<Rightarrow> run_pp_update u (pp\<lparr>pp_updateStats := us\<rparr>))
      | StatsHwmTick \<Rightarrow> Ret (pp_updateHwmStats hwms pp))"

fun pp_runStatsLoop_rounds ::
  "int \<Rightarrow> (string \<Rightarrow> int \<Rightarrow> int) \<Rightarrow> ('s PartitionTable \<Rightarrow> TableStats option) \<Rightarrow> stats_round list \<Rightarrow>
   ('s, 'v) PartitionProcessor \<Rightarrow> ('s, 'v) PartitionProcessor go" where
  "pp_runStatsLoop_rounds now hwms fetch [] pp = Ret pp"
| "pp_runStatsLoop_rounds now hwms fetch (r # rs) pp =
     go_bind (pp_runStatsLoop_round now hwms fetch r pp) (pp_runStatsLoop_rounds now hwms fetch rs)"

text \<open>The two selects of \<open>fetchStats\<close>, as for a table.\<close>

definition pp_fetchStats ::
  "int \<Rightarrow> (string \<Rightarrow> int \<Rightarrow> int) \<Rightarrow> ('s PartitionTable \<Rightarrow> TableStats option) \<Rightarrow>
   fetch_case \<Rightarrow> stats_round list \<Rightarrow> fetch_case \<Rightarrow> ('s, 'v) PartitionProcessor \<Rightarrow>
   (('s, 'v) PartitionProcessor \<times> PartitionProcStats option) option go" where
  "pp_fetchStats now hwms fetch req rs resp pp =
     (case req of
        FetchChannel \<Rightarrow>
          if length (pp_responseStats pp) > 1 then Ret None
          else go_bind (pp_runStatsLoop_rounds now hwms fetch (StatsRequested # rs) pp) (\<lambda>pp.
            Ret (case resp of
                FetchChannel \<Rightarrow>
                  (case pp_responseStats pp of
                     [] \<Rightarrow> None
                   | stats # rest \<Rightarrow> Some (pp\<lparr>pp_responseStats := rest\<rparr>, Some stats))
              | _ \<Rightarrow> Some (pp, None)))
      | _ \<Rightarrow> Ret (Some (pp, None)))"

section \<open>Processing messages\<close>

record ('s, 'v) pp_run =
  rn_pp :: "('s, 'v) PartitionProcessor"
  rn_contexts :: "(phase \<times> ('s, 'v, ProcessCallback) cbContext) list"
  rn_wg :: int
  rn_ctxDone :: bool
  rn_rerr :: "gerr option"
  rn_errs :: Errors
  rn_asyncErrs :: bool
  rn_commits :: "ConsumerMessage list"
  rn_received :: "ConsumerMessage list"

text \<open>The context of a new message, before it is entered.\<close>

definition new_cbContext :: "ConsumerMessage \<Rightarrow> ('s, 'v) pp_run \<Rightarrow> ('s, 'v, ProcessCallback) cbContext" where
  "new_cbContext msg rn =
     \<lparr>cx_graph = pp_graph (rn_pp rn), cx_emitterDefaultHeaders = pp_producerDefaultHeaders (rn_pp rn),
      cx_headers = None, cx_table = pp_table (rn_pp rn), cx_pviews = Some (map_of (pp_joins (rn_pp rn))),
      cx_views = pp_lookups (rn_pp rn), cx_msg = msg, cx_done = False, cx_emits = 0, cx_dones = 0, cx_stores = 0,
      cx_errors = newErrors, cx_wg = rn_wg rn, cx_ctxDone = rn_ctxDone rn, cx_rerr = rn_rerr rn, cx_asyncErrs = [],
      cx_commits = 0, cx_emitted = [], cx_tracked = [], cx_pending = [], cx_next = 0\<rparr>"

definition rn_enter ::
  "('s, 'v) pp_run \<Rightarrow> ('s, 'v, ProcessCallback) cbContext \<Rightarrow> ('s, 'v, ProcessCallback) cbContext" where
  "rn_enter rn c = c\<lparr>cx_table := pp_table (rn_pp rn), cx_wg := rn_wg rn, cx_ctxDone := rn_ctxDone rn,
     cx_rerr := rn_rerr rn\<rparr>"

text \<open>What a context did between \<open>c\<close> and \<open>c'\<close>: the table, the wait group and the error variable it left;
  the messages committed; the errors given to the asynchronous failer, which collects them and closes
  \<open>asyncErrs\<close>; and the output statistics.\<close>

definition rn_leave ::
  "(pp_update \<Rightarrow> bool) \<Rightarrow> ('s, 'v, ProcessCallback) cbContext \<Rightarrow> ('s, 'v, ProcessCallback) cbContext \<Rightarrow>
   ('s, 'v) pp_run \<Rightarrow> ('s, 'v) pp_run" where
  "rn_leave skip c c' rn =
     (let failed = drop (length (cx_asyncErrs c)) (cx_asyncErrs c');
          tracked = drop (length (cx_tracked c)) (cx_tracked c')
      in rn\<lparr>rn_pp := fold (\<lambda>(t, n). pp_enqueueStatsUpdate skip (UpdOutput t n)) tracked
                       ((rn_pp rn)\<lparr>pp_table := cx_table c'\<rparr>),
            rn_wg := cx_wg c', rn_rerr := cx_rerr c',
            rn_errs := fold (\<lambda>e es. Errors_Collect es (Some e)) failed (rn_errs rn),
            rn_asyncErrs := (rn_asyncErrs rn \<or> failed \<noteq> []),
            rn_commits := rn_commits rn @ replicate (cx_commits c' - cx_commits c) (cx_msg c)\<rparr>)"

text \<open>Decoding a message: \<open>Inr None\<close> for a message that is dropped.\<close>

definition pp_decode ::
  "('s, 'v) PartitionProcessor \<Rightarrow> ConsumerMessage \<Rightarrow> gval option result" where
  "pp_decode pp msg =
     (if msg_Value msg = None \<and> pp_nilHandling pp = NilIgnore then Inr None
      else if msg_Value msg = None \<and> pp_nilHandling pp = NilProcess then Inr (Some VNil)
      else (case GroupGraph_codec (pp_graph pp) (msg_Topic msg) of
              None \<Rightarrow> Inl (Err ''cannot handle topic %s'')
            | Some codec \<Rightarrow>
                (case codec_Decode codec (msg_Value msg) of
                   Inl err \<Rightarrow> Inl (Wrap ''error decoding message for key %s from %s/%d: %v'' err)
                 | Inr m \<Rightarrow> Inr (Some m))))"

definition pp_processMessage ::
  "'s table_env \<Rightarrow> ('v \<Rightarrow> string \<Rightarrow> gval result go) \<Rightarrow> (pp_update \<Rightarrow> bool) \<Rightarrow> ConsumerMessage \<Rightarrow>
   (('s, 'v) pp_run, gerr option) act" where
  "pp_processMessage env viewGet skip msg rn =
     (case pp_decode (rn_pp rn) msg of
        Inl err \<Rightarrow> (rn, Ret (Some err))
      | Inr None \<Rightarrow> (rn\<lparr>rn_commits := rn_commits rn @ [msg]\<rparr>, Ret None)
      | Inr (Some m) \<Rightarrow>
          (case pp_callbacks (rn_pp rn) (msg_Topic msg) of
             Some (Some cb) \<Rightarrow>
               let c = new_cbContext msg rn;
                   (c', r) = act_bind (act_modify cx_start) (\<lambda>_. cx_exec env viewGet (cb m)) c
               in (case r of
                     Panic p \<Rightarrow> ((rn_leave skip c c' rn)\<lparr>rn_contexts := rn_contexts rn @ [(Panicked, c')]\<rparr>, Panic p)
                   | Ret _ \<Rightarrow>
                       let (c'', r) = cx_finish None c'
                       in ((rn_leave skip c c'' rn)\<lparr>rn_contexts := rn_contexts rn @ [(Finished, c'')]\<rparr>,
                           go_bind r (\<lambda>_. Ret None)))
           | _ \<Rightarrow> (rn, Ret (Some (Err ''error processing message for key %s from %s/%d: %v'')))))"

text \<open>The promise numbered \<open>j\<close> of the context \<open>i\<close> is resolved.\<close>

definition rn_resolve ::
  "'s table_env \<Rightarrow> (pp_update \<Rightarrow> bool) \<Rightarrow> nat \<Rightarrow> nat \<Rightarrow> ProducerMessage option \<Rightarrow> gerr option \<Rightarrow> (('s, 'v) pp_run, unit) act" where
  "rn_resolve env skip i j msg err rn =
     (let (ph, c) = rn_contexts rn ! i; c = rn_enter rn c;
          (c', r) = cx_resolve (te_ops env) j msg err c
      in ((rn_leave skip c c' rn)\<lparr>rn_contexts := (rn_contexts rn)[i := (ph, c')]\<rparr>, r))"

text \<open>The loop of \<open>run\<close>: looping; returned from the loop and waiting for the wait group; returned, with
  the error of \<open>run\<close> and whether the wait timed out or was skipped because of a panic.\<close>

datatype run_pc = Looping | Draining | RunReturned "gerr option" bool

definition rn_result :: "('s, 'v) pp_run \<Rightarrow> gerr option" where
  "rn_result rn = Errors_NilOrError (Errors_Collect (rn_errs rn) (rn_rerr rn))"

inductive run_step ::
  "'s table_env \<Rightarrow> ('v \<Rightarrow> string \<Rightarrow> gval result go) \<Rightarrow> run_pc \<times> ('s, 'v) pp_run \<Rightarrow> run_pc \<times> ('s, 'v) pp_run \<Rightarrow> bool"
  for env :: "'s table_env" and viewGet :: "'v \<Rightarrow> string \<Rightarrow> gval result go" where
  msg: "pp_processMessage env viewGet skip ev (rn\<lparr>rn_received := rn_received rn @ [ev]\<rparr>) = (rn', Ret None) \<Longrightarrow>
    run_step env viewGet (Looping, rn)
      (Looping, rn'\<lparr>rn_pp := pp_enqueueStatsUpdate skip (UpdInput now ev) (rn_pp rn')\<rparr>)"
| msg_err: "pp_processMessage env viewGet skip ev (rn\<lparr>rn_received := rn_received rn @ [ev]\<rparr>) = (rn', Ret (Some err)) \<Longrightarrow>
    run_step env viewGet (Looping, rn)
      (Draining, rn'\<lparr>rn_rerr := Some (Wrap ''error processing message: from %s %v'' err)\<rparr>)"
| msg_panic: "pp_processMessage env viewGet skip ev (rn\<lparr>rn_received := rn_received rn @ [ev]\<rparr>) = (rn', Panic p) \<Longrightarrow>
    rn'' = rn'\<lparr>rn_rerr := Some (Err p)\<rparr> \<Longrightarrow>
    run_step env viewGet (Looping, rn) (RunReturned (rn_result rn'') True, rn'')"
| closed: "run_step env viewGet (Looping, rn) (Draining, rn\<lparr>rn_rerr := None\<rparr>)"
| ctxDone: "rn_ctxDone rn \<Longrightarrow> run_step env viewGet (Looping, rn) (Draining, rn)"
| asyncErrs: "rn_asyncErrs rn \<Longrightarrow> run_step env viewGet (Looping, rn) (Draining, rn)"
| drained: "rn_wg rn = 0 \<Longrightarrow> run_step env viewGet (Draining, rn) (RunReturned (rn_result rn) False, rn)"
| timeout: "run_step env viewGet (Draining, rn) (RunReturned (rn_result rn) True, rn)"
| resolve: "i < length (rn_contexts rn) \<Longrightarrow> pred_option (\<lambda>m. int64 (pm_Offset m)) msg \<Longrightarrow>
    rn_resolve env skip i j msg err rn = (rn', Ret ()) \<Longrightarrow> run_step env viewGet (pc, rn) (pc, rn')"
| cancel: "run_step env viewGet (pc, rn) (pc, rn\<lparr>rn_ctxDone := True\<rparr>)"

section \<open>The account of the messages\<close>

lemma sum_list_map_update:
  fixes f :: "'a \<Rightarrow> 'b::comm_monoid_add"
  shows "i < length xs \<Longrightarrow> sum_list (map f (xs[i := y])) + f (xs ! i) = sum_list (map f xs) + f y"
proof (induction xs arbitrary: i)
  case (Cons x xs)
  then show ?case by (cases i) (simp_all add: ac_simps)
qed simp

lemma replicate_mset_sum: "replicate_mset (m + n) x = replicate_mset m x + replicate_mset n x"
  by (induction m) simp_all

definition cx_local :: "phase \<Rightarrow> ('s, 'v, 'cb) cbContext \<Rightarrow> bool" where
  "cx_local ph c \<longleftrightarrow> cx_inv (cx_wg c - (if settled ph c then 0 else 1)) ph c"

lemma cx_inv_local: "cx_inv wg0 ph c \<longleftrightarrow> cx_local ph c \<and> cx_wg c = wg0 + (if settled ph c then 0 else 1)"
  by (auto simp: cx_local_def cx_inv_def)

lemma cx_local_enter [simp]: "cx_local ph (rn_enter rn c) = cx_local ph c"
  by (simp add: cx_local_def cx_inv_def settled_def rn_enter_def)

lemma settled_enter [simp]: "settled ph (rn_enter rn c) = settled ph c"
  by (simp add: settled_def rn_enter_def)

text \<open>What a context records only grows.\<close>

definition cx_extends :: "('s, 'v, 'cb) cbContext \<Rightarrow> ('s, 'v, 'cb) cbContext \<Rightarrow> bool" where
  "cx_extends c c' \<longleftrightarrow> cx_msg c' = cx_msg c \<and> cx_commits c \<le> cx_commits c' \<and>
     (\<exists>l. cx_asyncErrs c' = cx_asyncErrs c @ l)"

lemma extends_tryCommit: "cx_extends c (fst (cx_tryCommit err c))"
  by (simp add: cx_extends_def cx_tryCommit_def cx_markDone_def Let_def)

lemma extends_emitDone: "cx_extends c (fst (cx_emitDone err c))"
  using extends_tryCommit [of "c\<lparr>cx_dones := Suc (cx_dones c)\<rparr>" err] by (simp add: cx_extends_def cx_emitDone_def)

lemma extends_finish: "cx_extends c (fst (cx_finish err c))"
  using extends_tryCommit [of "c\<lparr>cx_done := True\<rparr>" err] by (simp add: cx_extends_def cx_finish_def)

lemma extends_resolve: "cx_extends c (fst (cx_resolve ops j msg err c))"
proof -
  let ?c = "c\<lparr>cx_pending := map_del j (cx_pending c)\<rparr>"
  have e: "cx_extends c (fst (cx_emitDone e ?c))" for e
    using extends_emitDone [of ?c] by (simp add: cx_extends_def)
  have "cx_extends c (fst (act_bind (cx_on_table f) cx_emitDone ?c))" for f
  proof (cases "cx_on_table f ?c")
    case (Pair c1 r)
    then have "cx_msg c1 = cx_msg c \<and> cx_commits c1 = cx_commits c \<and> cx_asyncErrs c1 = cx_asyncErrs c"
      by (auto simp: cx_on_table_def split: option.splits go.splits)
    then show ?thesis
      using Pair extends_emitDone [of c1] by (cases r) (simp_all add: act_bind_def cx_extends_def)
  qed
  with e show ?thesis
    by (simp add: cx_resolve_def Let_def split: option.splits pending_kind.splits)
      (simp add: cx_extends_def)
qed

definition rn_ok :: "ConsumerMessage multiset \<Rightarrow> ('s, 'v) pp_run \<Rightarrow> bool" where
  "rn_ok ign rn \<longleftrightarrow> (\<forall>(ph, c) \<in> set (rn_contexts rn). cx_local ph c) \<and>
     rn_wg rn = sum_list (map (\<lambda>(ph, c). if settled ph c then 0 else 1) (rn_contexts rn)) \<and>
     mset (rn_commits rn) = ign + sum_list (map (\<lambda>(ph, c). replicate_mset (cx_commits c) (cx_msg c)) (rn_contexts rn)) \<and>
     mset (errs (rn_errs rn)) = sum_list (map (\<lambda>(ph, c). mset (cx_asyncErrs c)) (rn_contexts rn))"

lemma errs_collect_all: "errs (fold (\<lambda>e es. Errors_Collect es (Some e)) l es) = errs es @ l"
  by (induction l arbitrary: es) (simp_all add: Errors_Collect_def)

lemma leave_fields:
  assumes "cx_extends c c'"
  shows "mset (rn_commits (rn_leave skip c c' rn)) + replicate_mset (cx_commits c) (cx_msg c) =
      mset (rn_commits rn) + replicate_mset (cx_commits c') (cx_msg c')"
    and "mset (errs (rn_errs (rn_leave skip c c' rn))) + mset (cx_asyncErrs c) = mset (errs (rn_errs rn)) + mset (cx_asyncErrs c')"
    and "rn_wg (rn_leave skip c c' rn) = cx_wg c'"
proof -
  obtain n where n: "cx_commits c' = cx_commits c + n" using assms le_Suc_ex by (auto simp: cx_extends_def)
  show "mset (rn_commits (rn_leave skip c c' rn)) + replicate_mset (cx_commits c) (cx_msg c) =
      mset (rn_commits rn) + replicate_mset (cx_commits c') (cx_msg c')"
    using assms n by (simp add: rn_leave_def Let_def cx_extends_def replicate_mset_sum ac_simps)
qed (use assms in \<open>auto simp: rn_leave_def Let_def cx_extends_def errs_collect_all\<close>)

lemma rn_ok_update:
  assumes ok: "rn_ok ign rn" and i: "i < length (rn_contexts rn)" "rn_contexts rn ! i = (ph, c)"
    and c': "cx_extends (rn_enter rn c) c'" "cx_local ph c'"
      "cx_wg c' = rn_wg rn - (if settled ph c then 0 else 1) + (if settled ph c' then 0 else 1)"
  shows "rn_ok ign ((rn_leave skip (rn_enter rn c) c' rn)\<lparr>rn_contexts := (rn_contexts rn)[i := (ph, c')]\<rparr>)"
proof -
  let ?rn = "rn_leave skip (rn_enter rn c) c' rn"
  note sum = sum_list_map_update [OF i(1), of _ "(ph, c')", unfolded i(2)]
  note l = leave_fields [OF c'(1), where skip = skip and rn = rn]
  have f: "cx_commits (rn_enter rn c) = cx_commits c" "cx_msg (rn_enter rn c) = cx_msg c"
    "cx_asyncErrs (rn_enter rn c) = cx_asyncErrs c" by (simp_all add: rn_enter_def)
  have "rn_contexts ?rn = rn_contexts rn" by (simp add: rn_leave_def Let_def)
  moreover have "\<forall>(ph, c) \<in> set ((rn_contexts rn)[i := (ph, c')]). cx_local ph c"
    using ok c'(2) set_update_subset_insert [of "rn_contexts rn" i "(ph, c')"] by (auto simp: rn_ok_def)
  moreover have "rn_wg ?rn = sum_list (map (\<lambda>(ph, c). if settled ph c then 0 else 1) ((rn_contexts rn)[i := (ph, c')]))"
    using ok l(3) c'(3) sum [of "\<lambda>(ph, c). if settled ph c then 0 else 1 :: int"] by (simp add: rn_ok_def)
  moreover have "mset (rn_commits ?rn) = ign +
      sum_list (map (\<lambda>(ph, c). replicate_mset (cx_commits c) (cx_msg c)) ((rn_contexts rn)[i := (ph, c')]))"
    using ok l(1) sum [of "\<lambda>(ph, c). replicate_mset (cx_commits c) (cx_msg c)"] unfolding f
    by (simp add: rn_ok_def) (metis (no_types, lifting) add.assoc add_right_cancel)
  moreover have "mset (errs (rn_errs ?rn)) = sum_list (map (\<lambda>(ph, c). mset (cx_asyncErrs c)) ((rn_contexts rn)[i := (ph, c')]))"
    using ok l(2) sum [of "\<lambda>(ph, c). mset (cx_asyncErrs c)"] unfolding f
    by (simp add: rn_ok_def) (metis (no_types, lifting) add_right_cancel)
  ultimately show ?thesis by (simp add: rn_ok_def)
qed

lemma rn_ok_append:
  assumes ok: "rn_ok ign rn" and c: "cx_commits c = 0" "cx_asyncErrs c = []"
    and c': "cx_extends c c'" "cx_local ph c'" "cx_wg c' = rn_wg rn + (if settled ph c' then 0 else 1)"
  shows "rn_ok ign ((rn_leave skip c c' rn)\<lparr>rn_contexts := rn_contexts rn @ [(ph, c')]\<rparr>)"
  using ok c' leave_fields [OF c'(1), where skip = skip and rn = rn] c by (simp add: rn_ok_def ac_simps)

lemma rerr_resolve: "cx_rerr (fst (cx_resolve ops j msg err c)) = cx_rerr c"
proof -
  have e: "cx_rerr (fst (cx_emitDone e c1)) = cx_rerr c1" for e and c1 :: "('a, 'b, 'c) cbContext"
    by (simp add: cx_emitDone_def cx_tryCommit_def cx_markDone_def Let_def)
  have "cx_rerr (fst (act_bind (cx_on_table f) cx_emitDone c1)) = cx_rerr c1" for f and c1 :: "('a, 'b, 'c) cbContext"
    using e by (simp add: act_bind_def cx_on_table_def split: option.splits go.splits prod.splits)
  with e show ?thesis by (simp add: cx_resolve_def Let_def split: option.splits pending_kind.splits)
qed

lemma rn_ok_resolve:
  assumes ok: "rn_ok ign rn" and i: "i < length (rn_contexts rn)"
    and r: "rn_resolve env skip i j msg err rn = (rn', Ret ())"
  shows "rn_ok ign rn'" and "rn_rerr rn' = rn_rerr rn" and "rn_received rn' = rn_received rn"
    and "map fst (rn_contexts rn') = map fst (rn_contexts rn)"
    and "map (cx_msg \<circ> snd) (rn_contexts rn') = map (cx_msg \<circ> snd) (rn_contexts rn)"
proof -
  obtain ph c where c: "rn_contexts rn ! i = (ph, c)" by (cases "rn_contexts rn ! i")
  obtain c' where c': "cx_resolve (te_ops env) j msg err (rn_enter rn c) = (c', Ret ())"
    and rn': "rn' = (rn_leave skip (rn_enter rn c) c' rn)\<lparr>rn_contexts := (rn_contexts rn)[i := (ph, c')]\<rparr>"
    using r c by (auto simp: rn_resolve_def Let_def split: prod.splits)
  have loc: "cx_local ph c" using ok c i nth_mem [OF i] by (auto simp: rn_ok_def)
  define wg0 where "wg0 = rn_wg rn - (if settled ph c then 0 else 1)"
  have pos: "0 \<le> wg0"
  proof -
    have "sum_list (map (\<lambda>(ph, c). if settled ph c then 0 else 1 :: int) ((rn_contexts rn)[i := (Finished, c\<lparr>cx_pending := []\<rparr>)])) \<ge> 0"
      by (rule sum_list_nonneg) auto
    then show ?thesis
      using ok sum_list_map_update [OF i, of "\<lambda>(ph, c). if settled ph c then 0 else 1 :: int" "(Finished, c\<lparr>cx_pending := []\<rparr>)"] c
      by (simp add: rn_ok_def wg0_def settled_def)
  qed
  have "cx_inv wg0 ph (rn_enter rn c)" using loc by (simp add: cx_inv_local wg0_def) (simp add: rn_enter_def)
  from resolve_inv [OF pos this c'] have inv: "cx_local ph c'" "cx_wg c' = wg0 + (if settled ph c' then 0 else 1)"
    by (simp_all add: cx_inv_local)
  have ext: "cx_extends (rn_enter rn c) c'" using extends_resolve [of "rn_enter rn c"] c' by (metis fst_conv)
  show "rn_ok ign rn'" unfolding rn' by (rule rn_ok_update [OF ok i c ext inv(1)]) (simp add: inv(2) wg0_def)
  show "rn_rerr rn' = rn_rerr rn"
    using rerr_resolve [of "te_ops env" j msg err "rn_enter rn c"] c' by (simp add: rn' rn_leave_def Let_def) (simp add: rn_enter_def)
  show "rn_received rn' = rn_received rn" by (simp add: rn' rn_leave_def Let_def)
  show "map fst (rn_contexts rn') = map fst (rn_contexts rn)"
    using i c by (simp add: rn' map_update list_update_same_conv)
  show "map (cx_msg \<circ> snd) (rn_contexts rn') = map (cx_msg \<circ> snd) (rn_contexts rn)"
    using i c ext by (simp add: rn' map_update list_update_same_conv cx_extends_def) (simp add: rn_enter_def)
qed

text \<open>One message: dropped, or given a context, or rejected.\<close>

lemma rn_ok_process:
  assumes ok: "rn_ok ign rn" and p: "pp_processMessage env viewGet skip ev rn = (rn', r)"
  obtains (ignored) "r = Ret None" and "rn_ok (add_mset ev ign) rn'" and "rn_contexts rn' = rn_contexts rn"
      and "rn_received rn' = rn_received rn"
  | (context') c where "rn_ok ign rn'" and "rn_contexts rn' = rn_contexts rn @ [(Finished, c)]" and "cx_msg c = ev"
      and "rn_received rn' = rn_received rn" and "r = Ret None"
  | (rejected) err where "r = Ret (Some err)" and "rn' = rn"
  | (panicked) m c where "r = Panic m" and "rn_ok ign rn'" and "rn_contexts rn' = rn_contexts rn @ [(Panicked, c)]"
      and "rn_received rn' = rn_received rn" and "cx_msg c = ev"
proof -
  have "pp_decode (rn_pp rn) ev = Inr None \<or>
    (\<exists>m cb. pp_decode (rn_pp rn) ev = Inr (Some m) \<and> pp_callbacks (rn_pp rn) (msg_Topic ev) = Some (Some cb)) \<or>
    (\<exists>err. pp_processMessage env viewGet skip ev rn = (rn, Ret (Some err)))"
    by (cases "pp_decode (rn_pp rn) ev"; cases "projr (pp_decode (rn_pp rn) ev)";
        cases "pp_callbacks (rn_pp rn) (msg_Topic ev)"; cases "the (pp_callbacks (rn_pp rn) (msg_Topic ev))")
      (simp_all add: pp_processMessage_def)
  then consider (drop) "pp_decode (rn_pp rn) ev = Inr None"
    | (call) m cb where "pp_decode (rn_pp rn) ev = Inr (Some m)" "pp_callbacks (rn_pp rn) (msg_Topic ev) = Some (Some cb)"
    | (fail) err where "pp_processMessage env viewGet skip ev rn = (rn, Ret (Some err))" by blast
  then show thesis
  proof cases
    case drop
    then show thesis using p ok by (intro ignored) (auto simp: pp_processMessage_def rn_ok_def)
  next
    case (fail err)
    then show thesis using p by (intro rejected) auto
  next
    case (call m cb)
    define c where "c = new_cbContext ev rn"
    have pos: "0 \<le> rn_wg rn" using ok by (auto simp: rn_ok_def intro!: sum_list_nonneg)
    obtain c1 r1 where c1: "cx_exec env viewGet (cb m) (cx_start c) = (c1, r1)" by (cases "cx_exec env viewGet (cb m) (cx_start c)")
    have b: "act_bind (act_modify cx_start) (\<lambda>_. cx_exec env viewGet (cb m)) c = (c1, r1)"
      using c1 by (simp add: act_bind_def act_modify_def)
    have fr: "cx_frame (cx_start c) c1" by (rule framedD [OF framed_exec c1])
    have "cx_inv (rn_wg rn) Running (cx_start c)"
      by (simp add: c_def new_cbContext_def cx_start_def cx_inv_def settled_def newErrors_def)
    note inv = cx_inv_frame [OF this fr]
    have c0: "cx_commits c = 0" "cx_asyncErrs c = []" "cx_msg c = ev" by (simp_all add: c_def new_cbContext_def)
    have ext: "cx_extends c c1" using fr by (simp add: cx_frame_def cx_extends_def cx_start_def)
    show thesis
    proof (cases r1)
      case (Panic e)
      have "cx_local Panicked c1" "cx_wg c1 = rn_wg rn + (if settled Panicked c1 then 0 else 1)"
        using inv [of Panicked] by (simp_all add: cx_inv_local)
      from rn_ok_append [OF ok c0(1,2) ext this] show thesis
        using p call b Panic ext c0(3)
        by (intro panicked [of e c1]) (auto simp: pp_processMessage_def c_def rn_leave_def Let_def cx_extends_def)
    next
      case (Ret u)
      obtain c2 where c2: "cx_finish None c1 = (c2, Ret ())" "cx_inv (rn_wg rn) Finished c2"
        using finish_inv [OF pos inv [of Running], of None] by auto
      have "cx_local Finished c2" "cx_wg c2 = rn_wg rn + (if settled Finished c2 then 0 else 1)"
        using c2(2) by (simp_all add: cx_inv_local)
      moreover have ext2: "cx_extends c c2"
        using ext extends_finish [of c1 None] c2(1) by (auto simp: cx_extends_def)
      ultimately have "rn_ok ign ((rn_leave skip c c2 rn)\<lparr>rn_contexts := rn_contexts rn @ [(Finished, c2)]\<rparr>)"
        by (intro rn_ok_append [OF ok c0(1,2)])
      then show thesis
        using p call b Ret c2(1) ext2 c0(3)
        by (intro context' [of c2]) (auto simp: pp_processMessage_def c_def rn_leave_def Let_def cx_extends_def)
    qed
  qed
qed

subsection \<open>Every message is accounted for\<close>

definition all_finished :: "('s, 'v) pp_run \<Rightarrow> bool" where
  "all_finished rn \<longleftrightarrow> (\<forall>ph \<in> set (map fst (rn_contexts rn)). ph = Finished)"

definition run_inv :: "run_pc \<Rightarrow> ('s, 'v) pp_run \<Rightarrow> bool" where
  "run_inv pc rn \<longleftrightarrow> (\<exists>ign rej. rn_ok ign rn \<and>
     mset (rn_received rn) = ign + mset (map (cx_msg \<circ> snd) (rn_contexts rn)) + rej \<and>
     (case pc of
        Looping \<Rightarrow> rej = {#} \<and> all_finished rn
      | Draining \<Rightarrow> (rej = {#} \<or> rn_rerr rn \<noteq> None) \<and> all_finished rn
      | RunReturned res early \<Rightarrow>
          res = None \<and> \<not> early \<longrightarrow> rej = {#} \<and> all_finished rn \<and> rn_wg rn = 0 \<and> errs (rn_errs rn) = []))"

lemma run_invI:
  assumes "rn_ok ign rn" and "mset (rn_received rn) = ign + mset (map (cx_msg \<circ> snd) (rn_contexts rn)) + rej"
    and "pc = Looping \<Longrightarrow> rej = {#} \<and> all_finished rn"
    and "pc = Draining \<Longrightarrow> (rej = {#} \<or> rn_rerr rn \<noteq> None) \<and> all_finished rn"
    and "pc = RunReturned None False \<Longrightarrow> rej = {#} \<and> all_finished rn \<and> rn_wg rn = 0 \<and> errs (rn_errs rn) = []"
  shows "run_inv pc rn"
  unfolding run_inv_def using assms by (intro exI [of _ ign] exI [of _ rej]) (auto split: run_pc.splits)

lemma wg_zero_settled:
  assumes "rn_ok ign rn" and "rn_wg rn = 0" and "(ph, c) \<in> set (rn_contexts rn)"
  shows "settled ph c"
proof -
  let ?w = "\<lambda>(ph, c). if settled ph c then 0 else 1 :: int"
  have "sum_list (map ?w (rn_contexts rn)) = 0" using assms(1,2) by (simp add: rn_ok_def)
  moreover have "\<And>n. n \<in> set (map ?w (rn_contexts rn)) \<Longrightarrow> 0 \<le> n" by auto
  ultimately have "\<forall>n \<in> set (map ?w (rn_contexts rn)). n = 0" by (metis sum_list_nonneg_eq_0_iff)
  then show ?thesis using assms(3) by (force split: if_splits)
qed

lemma resolve_settled:
  assumes ok: "rn_ok ign rn" and wg: "rn_wg rn = 0" and i: "i < length (rn_contexts rn)"
    and r: "rn_resolve env skip i j msg err rn = (rn', Ret ())"
  shows "rn_wg rn' = 0" and "rn_errs rn' = rn_errs rn"
proof -
  obtain ph c where c: "rn_contexts rn ! i = (ph, c)" by (cases "rn_contexts rn ! i")
  then have "cx_pending c = []" using wg_zero_settled [OF ok wg] nth_mem [OF i] by (simp add: settled_def)
  then have "cx_resolve (te_ops env) j msg err (rn_enter rn c) = (rn_enter rn c, Ret ())"
    by (simp add: cx_resolve_def rn_enter_def)
  then show "rn_wg rn' = 0" and "rn_errs rn' = rn_errs rn"
    using r c wg by (auto simp: rn_resolve_def rn_leave_def Let_def rn_enter_def)
qed

lemma rn_ok_cong:
  assumes "rn_ok ign rn" and "rn_contexts rn' = rn_contexts rn" and "rn_wg rn' = rn_wg rn" and "rn_commits rn' = rn_commits rn"
    and "rn_errs rn' = rn_errs rn"
  shows "rn_ok ign rn'"
  using assms by (simp add: rn_ok_def)

lemma result_None: "rn_result rn = None \<longleftrightarrow> errs (rn_errs rn) = [] \<and> rn_rerr rn = None"
  by (auto simp: rn_result_def Errors_NilOrError_def Errors_Collect_def Errors_HasErrors_def split: option.splits)

lemma run_inv_resolve:
  assumes inv: "run_inv pc rn" and i: "i < length (rn_contexts rn)"
    and r: "rn_resolve env skip i j msg err rn = (rn', Ret ())"
  shows "run_inv pc rn'"
proof -
  obtain ign rej where ok: "rn_ok ign rn" and m: "mset (rn_received rn) = ign + mset (map (cx_msg \<circ> snd) (rn_contexts rn)) + rej"
    and pc: "case pc of
        Looping \<Rightarrow> rej = {#} \<and> all_finished rn
      | Draining \<Rightarrow> (rej = {#} \<or> rn_rerr rn \<noteq> None) \<and> all_finished rn
      | RunReturned res early \<Rightarrow>
          res = None \<and> \<not> early \<longrightarrow> rej = {#} \<and> all_finished rn \<and> rn_wg rn = 0 \<and> errs (rn_errs rn) = []"
    using inv unfolding run_inv_def by blast
  note ok' = rn_ok_resolve [OF ok i r]
  have fin: "all_finished rn' = all_finished rn" unfolding all_finished_def ok'(4) ..
  show ?thesis
    by (rule run_invI [OF ok'(1), of rej])
      (use m ok' pc fin resolve_settled [OF ok _ i r] in \<open>simp_all split: run_pc.splits\<close>)
qed

lemma run_inv_step:
  assumes "run_step env viewGet a b" and "run_inv (fst a) (snd a)"
  shows "run_inv (fst b) (snd b)"
  using assms
proof cases
  case (msg skip ev rn rn' now)
  let ?rn = "rn\<lparr>rn_received := rn_received rn @ [ev]\<rparr>"
  from assms(2) msg(1) obtain ign where ok: "rn_ok ign rn" and fin: "all_finished rn"
    and m: "mset (rn_received rn) = ign + mset (map (cx_msg \<circ> snd) (rn_contexts rn))"
    unfolding run_inv_def by auto
  have ok': "rn_ok ign ?rn" by (rule rn_ok_cong [OF ok]) simp_all
  from ok' msg(3) show ?thesis
  proof (cases rule: rn_ok_process)
    case ignored
    have "rn_ok (add_mset ev ign) (rn'\<lparr>rn_pp := pp_enqueueStatsUpdate skip (UpdInput now ev) (rn_pp rn')\<rparr>)"
      by (rule rn_ok_cong [OF ignored(2)]) simp_all
    then show ?thesis using ignored m fin msg(2) by (intro run_invI [of _ _ "{#}"]) (auto simp: all_finished_def)
  next
    case (context' c)
    have "rn_ok ign (rn'\<lparr>rn_pp := pp_enqueueStatsUpdate skip (UpdInput now ev) (rn_pp rn')\<rparr>)"
      by (rule rn_ok_cong [OF context'(1)]) simp_all
    then show ?thesis using context' m fin msg(2) by (intro run_invI [of _ _ "{#}"]) (auto simp: all_finished_def)
  qed auto
next
  case (msg_err skip ev rn rn' err)
  let ?rn = "rn\<lparr>rn_received := rn_received rn @ [ev]\<rparr>"
  from assms(2) msg_err(1) obtain ign where ok: "rn_ok ign rn" and fin: "all_finished rn"
    and m: "mset (rn_received rn) = ign + mset (map (cx_msg \<circ> snd) (rn_contexts rn))"
    unfolding run_inv_def by auto
  have "rn_ok ign ?rn" by (rule rn_ok_cong [OF ok]) simp_all
  from rn_ok_process [OF this msg_err(3)] have "rn' = ?rn" by cases auto
  moreover have "rn_ok ign (?rn\<lparr>rn_rerr := Some (Wrap ''error processing message: from %s %v'' err)\<rparr>)"
    by (rule rn_ok_cong [OF ok]) simp_all
  ultimately show ?thesis using msg_err(2) m fin by (intro run_invI [of _ _ "{#ev#}"]) (auto simp: all_finished_def)
next
  case (msg_panic skip ev rn rn' p rn'')
  let ?rn = "rn\<lparr>rn_received := rn_received rn @ [ev]\<rparr>"
  from assms(2) msg_panic(1) obtain ign where ok: "rn_ok ign rn"
    and m: "mset (rn_received rn) = ign + mset (map (cx_msg \<circ> snd) (rn_contexts rn))"
    unfolding run_inv_def by auto
  have "rn_ok ign ?rn" by (rule rn_ok_cong [OF ok]) simp_all
  from rn_ok_process [OF this msg_panic(3)] obtain c where c: "rn_ok ign rn'"
    "rn_contexts rn' = rn_contexts rn @ [(Panicked, c)]" "rn_received rn' = rn_received rn @ [ev]" "cx_msg c = ev"
    by cases auto
  have "rn_ok ign rn''" by (rule rn_ok_cong [OF c(1)]) (simp_all add: msg_panic(4))
  then show ?thesis using msg_panic(2,4) m c by (intro run_invI [of _ _ "{#}"]) (auto simp: result_None)
next
  case (closed rn)
  from assms(2) closed(1) obtain ign where ok: "rn_ok ign rn" and fin: "all_finished rn"
    and m: "mset (rn_received rn) = ign + mset (map (cx_msg \<circ> snd) (rn_contexts rn))"
    unfolding run_inv_def by auto
  have "rn_ok ign (rn\<lparr>rn_rerr := None\<rparr>)" by (rule rn_ok_cong [OF ok]) simp_all
  then show ?thesis using closed(2) m fin by (intro run_invI [of _ _ "{#}"]) (auto simp: all_finished_def)
next
  case (drained rn)
  from assms(2) drained(1) obtain ign rej where "rn_ok ign rn" and "all_finished rn" "rej = {#} \<or> rn_rerr rn \<noteq> None"
    and "mset (rn_received rn) = ign + mset (map (cx_msg \<circ> snd) (rn_contexts rn)) + rej"
    unfolding run_inv_def by auto
  then show ?thesis using drained(2,3) by (intro run_invI [of _ _ rej]) (auto simp: result_None)
next
  case (timeout rn)
  from assms(2) timeout(1) obtain ign rej where "rn_ok ign rn"
    and "mset (rn_received rn) = ign + mset (map (cx_msg \<circ> snd) (rn_contexts rn)) + rej"
    unfolding run_inv_def by auto
  then show ?thesis using timeout(2) by (intro run_invI [of _ _ rej]) auto
next
  case (cancel pc rn)
  have "run_inv pc (rn\<lparr>rn_ctxDone := True\<rparr>) = run_inv pc rn"
    by (cases pc) (simp_all add: run_inv_def rn_ok_def all_finished_def)
  then show ?thesis using assms(2) cancel by simp
next
  case (resolve i rn msg skip j err rn' pc)
  then show ?thesis using assms(2) run_inv_resolve by auto
qed (use assms(2) in \<open>auto simp: run_inv_def\<close>)

definition run_start :: "('s, 'v) pp_run \<Rightarrow> bool" where
  "run_start rn \<longleftrightarrow> rn_contexts rn = [] \<and> rn_wg rn = 0 \<and> rn_commits rn = [] \<and> rn_received rn = [] \<and> errs (rn_errs rn) = []"

lemma run_inv_steps:
  assumes "run_start rn0" and "(run_step env viewGet)\<^sup>*\<^sup>* (Looping, rn0) a"
  shows "run_inv (fst a) (snd a)"
  using assms(2)
proof (induction rule: rtranclp_induct)
  case base
  show ?case using assms(1) by (auto simp: run_inv_def run_start_def rn_ok_def all_finished_def)
next
  case (step a b)
  then show ?case using run_inv_step by blast
qed

lemma commits_bounded:
  "\<forall>(ph, c) \<in> set cs. cx_local ph c \<Longrightarrow>
    sum_list (map (\<lambda>(ph, c). replicate_mset (cx_commits c) (cx_msg c)) cs) \<subseteq># mset (map (cx_msg \<circ> snd) cs)"
proof (induction cs)
  case (Cons x cs)
  obtain ph c where x: "x = (ph, c)" by (cases x)
  have "cx_commits c \<le> 1" using Cons.prems x by (auto simp: cx_local_def cx_inv_def split: if_splits)
  then have "replicate_mset (cx_commits c) (cx_msg c) \<subseteq># {#cx_msg c#}" by (cases "cx_commits c") auto
  with Cons x show ?case by (simp add: subset_mset.add_mono [of _ "{#_#}", simplified])
qed simp

lemma commits_all:
  assumes "rn_ok ign rn" and "all_finished rn" and "rn_wg rn = 0" and "errs (rn_errs rn) = []"
  shows "mset (rn_commits rn) = ign + mset (map (cx_msg \<circ> snd) (rn_contexts rn))"
proof -
  have one: "cx_commits c = 1" if "(ph, c) \<in> set (rn_contexts rn)" for ph c
  proof -
    have "settled ph c" by (rule wg_zero_settled [OF assms(1,3) that])
    moreover have "(ph, c) \<in> set cs \<Longrightarrow> sum_list (map (\<lambda>(ph, c). mset (cx_asyncErrs c)) cs) = {#} \<Longrightarrow> cx_asyncErrs c = []" for cs
      by (induction cs) auto
    then have "cx_asyncErrs c = []" using assms(1,4) that by (simp add: rn_ok_def)
    moreover have "cx_local ph c" using assms(1) that by (auto simp: rn_ok_def)
    ultimately show ?thesis by (auto simp: cx_local_def cx_inv_def split: if_splits)
  qed
  have "(\<forall>(ph, c) \<in> set cs. cx_commits c = 1) \<Longrightarrow>
      sum_list (map (\<lambda>(ph, c). replicate_mset (cx_commits c) (cx_msg c)) cs) = mset (map (cx_msg \<circ> snd) cs)"
    for cs :: "(phase \<times> ('a, 'b, ProcessCallback) cbContext) list"
    by (induction cs) auto
  then show ?thesis using one assms(1) by (auto simp: rn_ok_def)
qed

text \<open>C1: the run loop commits what it has processed, and all of it. At any moment, whatever the
  callbacks do and in whatever order the promises of the messages in flight are resolved, no message is
  committed twice and none that was not received. When the loop ends, for whatever reason, and returns
  no error after waiting for the wait group, every message it took from the input channel has been
  committed exactly once. So a message is never left out of the commits unless the processor reports an
  error, panics or gives up waiting.\<close>

theorem run_commits_all:
  assumes "run_start rn0" and "(run_step env viewGet)\<^sup>*\<^sup>* (Looping, rn0) (pc, rn)"
  shows "mset (rn_commits rn) \<subseteq># mset (rn_received rn) \<and>
    (pc = RunReturned None False \<longrightarrow> mset (rn_commits rn) = mset (rn_received rn))"
proof -
  have "run_inv pc rn" using run_inv_steps [OF assms] by simp
  then obtain ign rej where ok: "rn_ok ign rn" and m: "mset (rn_received rn) = ign + mset (map (cx_msg \<circ> snd) (rn_contexts rn)) + rej"
    and pc: "case pc of
        Looping \<Rightarrow> rej = {#} \<and> all_finished rn
      | Draining \<Rightarrow> (rej = {#} \<or> rn_rerr rn \<noteq> None) \<and> all_finished rn
      | RunReturned res early \<Rightarrow>
          res = None \<and> \<not> early \<longrightarrow> rej = {#} \<and> all_finished rn \<and> rn_wg rn = 0 \<and> errs (rn_errs rn) = []"
    unfolding run_inv_def by blast
  have "mset (rn_commits rn) \<subseteq># ign + mset (map (cx_msg \<circ> snd) (rn_contexts rn))"
    using ok commits_bounded [of "rn_contexts rn"] by (auto simp: rn_ok_def)
  then show ?thesis using m pc commits_all [OF ok] by (auto intro: subset_mset.order_trans)
qed

section \<open>Samples\<close>

definition sample_callback :: ProcessCallback where
  "sample_callback m = CbDo (OpEmit ''out'' ''k'' m []) (\<lambda>_. CbReturn)"

definition sample_pp :: "(memory, unit) PartitionProcessor" where
  "sample_pp = (case DefineGroup ''g'' [Some (Input ''in'' (Some StringCodec) (Some sample_callback)),
       Some (Output ''out'' (Some StringCodec)), Some (Persist (Some Int64Codec))] of
     Ret g \<Rightarrow> (case newPartitionProcessor id 0 0 g NilIgnore None runModeActive None of Ret pp \<Rightarrow> pp | Panic m \<Rightarrow> undefined)
   | Panic m \<Rightarrow> undefined)"

definition sample_input :: "int \<Rightarrow> ConsumerMessage" where
  "sample_input off = (sample_message off ''k'' (Some ''x''))\<lparr>msg_Topic := ''in''\<rparr>"

definition sample_rn :: "(memory, unit) pp_run" where
  "sample_rn = \<lparr>rn_pp = sample_pp, rn_contexts = [], rn_wg = 0, rn_ctxDone = False, rn_rerr = None, rn_errs = newErrors,
     rn_asyncErrs = False, rn_commits = [], rn_received = []\<rparr>"

text \<open>The state of the loop after one message has been processed.\<close>

definition sample_take :: "ConsumerMessage \<Rightarrow> (memory, unit) pp_run \<Rightarrow> (memory, unit) pp_run" where
  "sample_take ev rn =
     (let rn' = fst (pp_processMessage sample_cx_env sample_viewGet (\<lambda>_. False) ev (rn\<lparr>rn_received := rn_received rn @ [ev]\<rparr>))
      in rn'\<lparr>rn_pp := pp_enqueueStatsUpdate (\<lambda>_. False) (UpdInput 0 ev) (rn_pp rn')\<rparr>)"

definition sample_ack :: "nat \<Rightarrow> (memory, unit) pp_run \<Rightarrow> (memory, unit) pp_run" where
  "sample_ack i rn = fst (rn_resolve sample_cx_env (\<lambda>_. False) i 0 None None rn)"

lemma sample_takes:
  assumes "snd (pp_processMessage sample_cx_env sample_viewGet (\<lambda>_. False) ev (rn\<lparr>rn_received := rn_received rn @ [ev]\<rparr>)) = Ret None"
  shows "run_step sample_cx_env sample_viewGet (Looping, rn) (Looping, sample_take ev rn)"
  unfolding sample_take_def Let_def using assms by (intro run_step.msg) (simp add: prod_eq_iff)

lemma sample_acks:
  assumes "i < length (rn_contexts rn)" and "snd (rn_resolve sample_cx_env (\<lambda>_. False) i 0 None None rn) = Ret ()"
  shows "run_step sample_cx_env sample_viewGet (pc, rn) (pc, sample_ack i rn)"
  unfolding sample_ack_def
  using assms by (intro run_step.resolve [of i rn None sample_cx_env "\<lambda>_. False" 0 None]) (simp_all add: prod_eq_iff)

definition sample_two :: "(memory, unit) pp_run" where
  "sample_two = sample_take (sample_input 1) (sample_take (sample_input 0) sample_rn)"

lemma sample_two_steps: "(run_step sample_cx_env sample_viewGet)\<^sup>*\<^sup>* (Looping, sample_rn) (Looping, sample_two)"
proof -
  have "run_step sample_cx_env sample_viewGet (Looping, sample_rn) (Looping, sample_take (sample_input 0) sample_rn)"
    by (rule sample_takes) code_simp
  moreover have "run_step sample_cx_env sample_viewGet (Looping, sample_take (sample_input 0) sample_rn) (Looping, sample_two)"
    unfolding sample_two_def by (rule sample_takes) code_simp
  ultimately show ?thesis by (meson converse_rtranclp_into_rtranclp rtranclp.rtrancl_refl)
qed

lemma sample_two_contexts: "length (rn_contexts sample_two) = 2"
  by code_simp

lemma sample_ack_1: "run_step sample_cx_env sample_viewGet (pc, sample_two) (pc, sample_ack 1 sample_two)"
proof -
  have "snd (rn_resolve sample_cx_env (\<lambda>_. False) 1 0 None None sample_two) = Ret ()" by code_simp
  then show ?thesis by (intro sample_acks) (simp_all add: sample_two_contexts)
qed


theorem run_commits_all_witness:
  "\<exists>rn. (run_step sample_cx_env sample_viewGet)\<^sup>*\<^sup>* (Looping, sample_rn) (RunReturned None False, rn) \<and>
     mset (rn_commits rn) = {#sample_input 0, sample_input 1#}"
proof -
  let ?d = "sample_ack 0 (sample_ack 1 sample_two\<lparr>rn_rerr := None\<rparr>)"
  have start: "run_start sample_rn" by code_simp
  have r: "snd (rn_resolve sample_cx_env (\<lambda>_. False) 0 0 None None (sample_ack 1 sample_two\<lparr>rn_rerr := None\<rparr>)) = Ret ()"
    "rn_wg ?d = 0" "rn_result ?d = None" "length (rn_contexts (sample_ack 1 sample_two\<lparr>rn_rerr := None\<rparr>)) = 2" by code_simp+
  have "run_step sample_cx_env sample_viewGet (Looping, sample_ack 1 sample_two) (Draining, sample_ack 1 sample_two\<lparr>rn_rerr := None\<rparr>)"
    by (rule run_step.closed)
  moreover have "run_step sample_cx_env sample_viewGet (Draining, sample_ack 1 sample_two\<lparr>rn_rerr := None\<rparr>) (Draining, ?d)"
    by (rule sample_acks [OF _ r(1)]) (use r(4) in linarith)
  moreover have "run_step sample_cx_env sample_viewGet (Draining, ?d) (RunReturned None False, ?d)"
    using run_step.drained [OF r(2), of sample_cx_env sample_viewGet] by (simp only: r(3))
  ultimately have steps: "(run_step sample_cx_env sample_viewGet)\<^sup>*\<^sup>* (Looping, sample_rn) (RunReturned None False, ?d)"
    by (meson rtranclp.rtrancl_into_rtrancl sample_two_steps sample_ack_1)
  moreover have "rn_received ?d = [sample_input 0, sample_input 1]" by code_simp
  ultimately show ?thesis using run_commits_all [OF start steps] by auto
qed

lemma SetState_state: "Signal_SetState send st s = Ret s' \<Longrightarrow> sig_state s' = st"
  by (auto simp: Signal_SetState_def go_bind_eq_Ret split: if_splits)

lemma setupJoins_fields:
  "pp_setupJoins env ctxDone js pp = Ret (Some (pp', es)) \<Longrightarrow> pp_runMode pp' = pp_runMode pp \<and> pp_partition pp' = pp_partition pp"
proof (induction js arbitrary: pp es)
  case (Cons j js)
  then show ?case by (auto simp: go_bind_eq_Ret split: option.splits)
qed simp

lemma Start_fields:
  assumes "pp_Start env ctxDone done' pp = Ret (Some (pp', res))"
  shows "pp_Recovered pp'" and "res \<noteq> None \<longrightarrow> pp_runnerGroup pp' = Some []"
    and "pp_runMode pp' = pp_runMode pp" and "pp_partition pp' = pp_partition pp"
proof -
  obtain s pp1 es pp2 es' where s: "pp_setupTable env ctxDone (pp\<lparr>pp_runnerGroup := Some [], pp_state := s\<rparr>) = Ret (Some (pp1, es))"
    "pp_setupJoins env ctxDone (gg_inputTables (pp_graph pp1)) pp1 = Ret (Some (pp2, es'))"
    "pp_startRunners env done' (es @ es') pp2 = Ret (pp', res)"
    using assms by (auto simp: pp_Start_def pp_SetState_def go_bind_eq_Ret split: option.splits)
  have "pp_runMode pp1 = pp_runMode pp \<and> pp_partition pp1 = pp_partition pp"
    using s(1) by (auto simp: pp_setupTable_def go_bind_eq_Ret split: option.splits)
  then show "pp_Recovered pp'" and "res \<noteq> None \<longrightarrow> pp_runnerGroup pp' = Some []"
    and "pp_runMode pp' = pp_runMode pp" and "pp_partition pp' = pp_partition pp"
    using s(3) setupJoins_fields [OF s(2)]
    by (auto simp: pp_startRunners_def pp_SetState_def pp_Recovered_def Signal_IsState_def go_bind_eq_Ret Let_def
        dest: SetState_state)
qed

text \<open>A partition processor counts as recovered once Start has returned, also when it failed. If
  the recovery of the table or of a join reported an error, Start returns that error and starts no
  runner; but its state is Running and Recovered returns true all the same.\<close>

lemma start_failed_counts_as_recovered:
  assumes "pp_Start env ctxDone done' pp = Ret (Some (pp', res))"
  shows "pp_Recovered pp' \<and> (res \<noteq> None \<longrightarrow> pp_runnerGroup pp' = Some [])"
  using Start_fields(1,2) [OF assms] by blast

end
