(* ===== verification/Goka_Hash.thy ===== *)
theory Goka_Hash
  imports Goka_Prelude "HOL-Library.Word"
begin

text \<open>
  The hash that assigns keys to partitions: the default hasher (\<open>DefaultHasher\<close> of options.go: 32-bit
  FNV-1a of the standard library) and the computation of the partition that View and Processor share
  line by line. A hasher may be replaced by an option; it is a function from keys to a sum or an error
  of its writer.
\<close>

unbundle bit_operations_syntax

type_synonym hasher = "string \<Rightarrow> 32 word result"

definition fnv32a :: "bytes \<Rightarrow> 32 word" where
  "fnv32a s = fold (\<lambda>c h. (h XOR of_nat (of_char c)) * 16777619) s 2166136261"

definition DefaultHasher :: hasher where
  "DefaultHasher key = Inr (fnv32a key)"

text \<open>The sum as an \<open>int32\<close>, negated if it is negative, modulo the number of partitions.\<close>

definition hash_partition :: "gerr \<Rightarrow> hasher \<Rightarrow> int \<Rightarrow> string \<Rightarrow> int result go" where
  "hash_partition no_partitions hasher n key =
     (case hasher key of
        Inl err \<Rightarrow> Ret (Inl err)
      | Inr sum32 \<Rightarrow>
          let hash = sint sum32; hash = (if hash < 0 then wrap32 (- hash) else hash)
          in if n = 0 then Ret (Inl no_partitions)
             else if wrap32 n = 0 then Panic ''integer divide by zero''
             else Ret (Inr (go_rem hash (wrap32 n))))"

lemma sint_int32: "int32 (sint (w :: 32 word))"
  using sint_ge [of w] sint_lt [of w] by simp

lemma sint_min: "sint (w :: 32 word) = - (2 ^ 31) \<longleftrightarrow> w = 0x80000000"
proof
  assume "sint w = - (2 ^ 31)"
  then have "sint w = sint (0x80000000 :: 32 word)" by simp
  then show "w = 0x80000000" by (metis signed_word_eqI)
qed simp

lemma hash_partition_ok:
  assumes "hasher key = Inr w" and "w \<noteq> 0x80000000" and "0 < n" and "n < 2 ^ 31"
  shows "hash_partition e hasher n key = Ret (Inr (\<bar>sint w\<bar> mod n))" and "0 \<le> \<bar>sint w\<bar> mod n \<and> \<bar>sint w\<bar> mod n < n"
proof -
  have "- (2 ^ 31) < sint w" using sint_int32 [of w] assms(2) sint_min [of w] by linarith
  then have "(if sint w < 0 then wrap32 (- sint w) else sint w) = \<bar>sint w\<bar>" by (simp add: wrap32_id)
  then show "hash_partition e hasher n key = Ret (Inr (\<bar>sint w\<bar> mod n))"
    using assms by (simp add: hash_partition_def Let_def wrap32_id go_rem_nonneg)
qed (use assms(3) in simp)

lemma hash_partition_min:
  assumes "hasher key = Inr 0x80000000" and "0 < n" and "n < 2 ^ 31"
  shows "hash_partition e hasher n key = Ret (Inr (- (2 ^ 31 mod n)))"
  using assms by (simp add: hash_partition_def Let_def wrap32_id go_rem_def) (simp add: wrap32_def)

end
