(* ===== verification/Goka_View.thy ===== *)
theory Goka_View
  imports Goka_Hash Goka_Merge_Iterator Goka_Partition_Table
begin

text \<open>
  Views (\<open>view.go\<close>) and the iterators they hand out (\<open>iterator.go\<close>).

  \<^item> A view holds one partition table per partition of its topic. The partition of a key is given by the
    hasher of the view's options, an argument of the operations.
  \<^item> The topic manager, the recovery and the catching up of a partition are arguments: for the latter two
    \<open>pt_SetupAndRecover\<close> and \<open>pt_CatchupForever\<close> of the partition table, or their restarting variants.
  \<^item> The goroutines of the state merger are the list of state changes in the order in which they call
    \<open>updateViewState\<close>, which holds a mutex.
\<close>

section \<open>The view\<close>

definition ViewStateIdle :: int where "ViewStateIdle = 0"
definition ViewStateInitializing :: int where "ViewStateInitializing = 1"
definition ViewStateConnecting :: int where "ViewStateConnecting = 2"
definition ViewStateCatchUp :: int where "ViewStateCatchUp = 3"
definition ViewStateRunning :: int where "ViewStateRunning = 4"

lemmas view_states = ViewStateIdle_def ViewStateInitializing_def ViewStateConnecting_def
  ViewStateCatchUp_def ViewStateRunning_def

definition newViewSignal :: "Signal go" where
  "newViewSignal =
     Signal_SetState (\<lambda>_. True) ViewStateIdle
       (NewSignal [ViewStateIdle, ViewStateInitializing, ViewStateConnecting, ViewStateCatchUp, ViewStateRunning])"

record 's View =
  vw_topic :: string
  vw_partitions :: "'s PartitionTable list"
  vw_state :: Signal
  vw_tableCodec :: "Codec option"

text \<open>\<open>partitions\<close> is what the topic manager answers, \<open>closeErr\<close> the error of closing it.\<close>

fun new_tables :: "string \<Rightarrow> int list \<Rightarrow> 's PartitionTable list go" where
  "new_tables topic [] = Ret []"
| "new_tables topic (p # ps) =
     go_bind (newPartitionTable topic p) (\<lambda>t. go_bind (new_tables topic ps) (\<lambda>ts. Ret (t # ts)))"

definition View_createPartitions ::
  "gerr option \<Rightarrow> int list result \<Rightarrow> gerr option \<Rightarrow> gerr option \<Rightarrow> 's View \<Rightarrow> ('s View \<times> gerr option) go" where
  "View_createPartitions tmErr partitions backoffErr closeErr v =
     (case tmErr of
        Some err \<Rightarrow> Ret (v, Some (Wrap ''Error creating topic manager: %v'' err))
      | None \<Rightarrow>
          go_bind (case partitions of
              Inl err \<Rightarrow> Ret (v, Some (Wrap ''Error getting partitions for topic %s: %v'' err))
            | Inr ps \<Rightarrow>
                if \<exists>i < length ps. int i \<noteq> ps ! i
                then Ret (v, Some (Err ''Partition numbers are not sequential for topic %s''))
                else if ps \<noteq> [] \<and> backoffErr \<noteq> None
                then Ret (v, Some (Wrap ''Error creating backoff: %v'' (the backoffErr)))
                else go_bind (new_tables (vw_topic v) ps) (\<lambda>ts.
                  Ret (v\<lparr>vw_partitions := vw_partitions v @ ts\<rparr>, None))) (\<lambda>(v, rerr).
            Ret (v, if closeErr \<noteq> None \<and> rerr = None
                    then map_option (Wrap ''Error closing topic manager: %v'') closeErr else rerr)))"

definition NewView ::
  "gerr option \<Rightarrow> gerr option \<Rightarrow> gerr option \<Rightarrow> gerr option \<Rightarrow> int list result \<Rightarrow> gerr option \<Rightarrow> gerr option \<Rightarrow>
   string \<Rightarrow> Codec option \<Rightarrow> 's View result go" where
  "NewView optErr consumerErr tmErr tmErr' partitions backoffErr closeErr topic codec =
     (case optErr of Some err \<Rightarrow> Ret (Inl (Wrap ''Error applying user-defined options: %v'' err)) | None \<Rightarrow>
     (case consumerErr of Some err \<Rightarrow> Ret (Inl (Wrap ''Error creating sarama consumer for brokers %+v: %v'' err)) | None \<Rightarrow>
     (case tmErr of Some err \<Rightarrow> Ret (Inl (Wrap ''Error creating topic manager: %v'' err)) | None \<Rightarrow>
     go_bind newViewSignal (\<lambda>state.
     go_bind (View_createPartitions tmErr' partitions backoffErr closeErr
         \<lparr>vw_topic = topic, vw_partitions = [], vw_state = state, vw_tableCodec = codec\<rparr>) (\<lambda>(v, e).
       case e of Some err \<Rightarrow> Ret (Inl err) | None \<Rightarrow> Ret (Inr v))))))"

subsection \<open>Access\<close>

definition View_hash :: "hasher \<Rightarrow> 's View \<Rightarrow> string \<Rightarrow> int result go" where
  "View_hash hasher v key =
     hash_partition (Err ''no partitions found'') hasher (int (length (vw_partitions v))) key"

text \<open>The index of the partition; indexing a slice panics out of range.\<close>

definition View_find :: "hasher \<Rightarrow> 's View \<Rightarrow> string \<Rightarrow> nat result go" where
  "View_find hasher v key =
     go_bind (View_hash hasher v key) (\<lambda>r.
       case r of
         Inl err \<Rightarrow> Ret (Inl err)
       | Inr h \<Rightarrow>
           if 0 \<le> h \<and> h < int (length (vw_partitions v)) then Ret (Inr (nat h))
           else Panic ''index out of range'')"

definition View_Get :: "'s storage_ops \<Rightarrow> hasher \<Rightarrow> 's View \<Rightarrow> string \<Rightarrow> gval result go" where
  "View_Get ops hasher v key =
     go_bind (View_find hasher v key) (\<lambda>r.
       case r of
         Inl err \<Rightarrow> Ret (Inl err)
       | Inr i \<Rightarrow>
           go_bind (pt_Get ops key (vw_partitions v ! i)) (\<lambda>r.
             case r of
               Inl err \<Rightarrow> Ret (Inl (Wrap ''error getting value (key %s): %v'' err))
             | Inr None \<Rightarrow> Ret (Inr VNil)
             | Inr (Some data) \<Rightarrow>
                 (case vw_tableCodec v of
                    None \<Rightarrow> nil_deref
                  | Some c \<Rightarrow>
                      (case codec_Decode c (Some data) of
                         Inl err \<Rightarrow> Ret (Inl (Wrap ''error decoding value (key %s): %v'' err))
                       | Inr value' \<Rightarrow> Ret (Inr value')))))"

definition View_Has :: "'s storage_ops \<Rightarrow> hasher \<Rightarrow> 's View \<Rightarrow> string \<Rightarrow> bool result go" where
  "View_Has ops hasher v key =
     go_bind (View_find hasher v key) (\<lambda>r.
       case r of Inl err \<Rightarrow> Ret (Inl err) | Inr i \<Rightarrow> pt_Has ops key (vw_partitions v ! i))"

definition View_Evict ::
  "'s storage_ops \<Rightarrow> hasher \<Rightarrow> string \<Rightarrow> 's View \<Rightarrow> ('s View \<times> gerr option) go" where
  "View_Evict ops hasher key v =
     go_bind (View_find hasher v key) (\<lambda>r.
       case r of
         Inl err \<Rightarrow> Ret (v, Some err)
       | Inr i \<Rightarrow>
           go_bind (pt_Delete ops key (vw_partitions v ! i)) (\<lambda>(t, e).
             Ret (v\<lparr>vw_partitions := (vw_partitions v)[i := t]\<rparr>, e)))"

definition View_Recovered :: "'s View \<Rightarrow> bool" where
  "View_Recovered v \<longleftrightarrow> (\<forall>p \<in> set (vw_partitions v). pt_IsRecovered p)"

definition View_CurrentState :: "'s View \<Rightarrow> int" where
  "View_CurrentState v = Signal_State (vw_state v)"

definition View_statsWithContext :: "('s PartitionTable \<Rightarrow> TableStats option) \<Rightarrow> 's View \<Rightarrow> ViewStats" where
  "View_statsWithContext fetch v =
     newViewStats\<lparr>vs_Partitions := fold (\<lambda>t. map_put (pt_partition t) (fetch t)) (vw_partitions v) []\<rparr>"

subsection \<open>Iteration\<close>

record 'j giterator =
  gi_iter :: 'j
  gi_codec :: "Codec option"

definition giter_Next :: "'j iter_ops \<Rightarrow> 'j giterator \<Rightarrow> 'j giterator \<times> bool" where
  "giter_Next ops i = (case it_Next ops (gi_iter i) of (j, b) \<Rightarrow> (i\<lparr>gi_iter := j\<rparr>, b))"

definition giter_Key :: "'j iter_ops \<Rightarrow> 'j giterator \<Rightarrow> string" where
  "giter_Key ops i = slice_bytes (it_Key ops (gi_iter i))"

definition giter_Value :: "'j iter_ops \<Rightarrow> 'j giterator \<Rightarrow> gval result go" where
  "giter_Value ops i =
     (case it_Value ops (gi_iter i) of
        Inl err \<Rightarrow> Ret (Inl err)
      | Inr None \<Rightarrow> Ret (Inr VNil)
      | Inr (Some data) \<Rightarrow> (case gi_codec i of None \<Rightarrow> nil_deref | Some c \<Rightarrow> Ret (codec_Decode c (Some data))))"

definition giter_Err :: "'j iter_ops \<Rightarrow> 'j giterator \<Rightarrow> gerr option" where
  "giter_Err ops i = it_Err ops (gi_iter i)"

definition giter_Release :: "'j iter_ops \<Rightarrow> 'j giterator \<Rightarrow> 'j giterator" where
  "giter_Release ops i = i\<lparr>gi_iter := it_Release ops (gi_iter i)\<rparr>"

definition giter_Seek :: "'j iter_ops \<Rightarrow> 'j giterator \<Rightarrow> string \<Rightarrow> 'j giterator \<times> bool" where
  "giter_Seek ops i key = (case it_Seek ops (gi_iter i) key of (j, b) \<Rightarrow> (i\<lparr>gi_iter := j\<rparr>, b))"

text \<open>Opening the iterators of the partitions; after an error those already open are released.\<close>

fun open_iters ::
  "'i iter_ops \<Rightarrow> ('s PartitionTable \<Rightarrow> 'i result go) \<Rightarrow> 's PartitionTable list \<Rightarrow> 'i list \<Rightarrow> ('i list \<times> gerr option) go" where
  "open_iters ops mk [] iters = Ret (iters, None)"
| "open_iters ops mk (p # ps) iters =
     go_bind (mk p) (\<lambda>r.
       case r of
         Inl err \<Rightarrow> Ret (map (it_Release ops) iters, Some (Wrap ''error opening partition iterator: %v'' err))
       | Inr i \<Rightarrow> open_iters ops mk ps (iters @ [i]))"

definition View_Iterator ::
  "'i iter_ops \<Rightarrow> ('s \<Rightarrow> 'i result) \<Rightarrow> 's View \<Rightarrow> 'i mergeIterator giterator result go" where
  "View_Iterator ops mk v =
     go_bind (open_iters ops (pt_Iterator mk) (vw_partitions v) []) (\<lambda>(iters, e).
       case e of
         Some err \<Rightarrow> Ret (Inl err)
       | None \<Rightarrow> Ret (Inr \<lparr>gi_iter = NewMultiIterator ops iters, gi_codec = vw_tableCodec v\<rparr>))"

definition View_IteratorWithRange ::
  "'i iter_ops \<Rightarrow> ('s \<Rightarrow> slice \<Rightarrow> slice \<Rightarrow> 'i result) \<Rightarrow> string \<Rightarrow> string \<Rightarrow> 's View \<Rightarrow> 'i mergeIterator giterator result go" where
  "View_IteratorWithRange ops mk start limit v =
     go_bind (open_iters ops (pt_IteratorWithRange mk (Some start) (Some limit)) (vw_partitions v) []) (\<lambda>(iters, e).
       case e of
         Some err \<Rightarrow> Ret (Inl err)
       | None \<Rightarrow> Ret (Inr \<lparr>gi_iter = NewMultiIterator ops iters, gi_codec = vw_tableCodec v\<rparr>))"

subsection \<open>The state merger\<close>

definition lowest_state :: "(nat \<times> int) list \<Rightarrow> int" where
  "lowest_state states = fold (\<lambda>(_, s) lowest. if lowest = -1 \<or> s < lowest then s else lowest) states (-1)"

definition view_state_of :: "int \<Rightarrow> int" where
  "view_state_of lowest =
     (if lowest = PartitionStopped then ViewStateIdle
      else if lowest = PartitionInitializing then ViewStateInitializing
      else if lowest = PartitionConnecting then ViewStateConnecting
      else if lowest = PartitionRecovering then ViewStateCatchUp
      else if lowest = PartitionPreparing then ViewStateCatchUp
      else if lowest = PartitionRunning then ViewStateRunning
      else -1)"

definition updateViewState ::
  "(nat \<Rightarrow> bool) \<Rightarrow> nat \<Rightarrow> int \<Rightarrow> (nat \<times> int) list \<times> Signal \<Rightarrow> ((nat \<times> int) list \<times> Signal) go" where
  "updateViewState send idx state st =
     (let states = map_put idx state (fst st); newState = view_state_of (lowest_state states)
      in if newState \<noteq> -1 then go_bind (Signal_SetState send newState (snd st)) (\<lambda>s. Ret (states, s))
         else Ret (states, snd st))"

text \<open>The changes the merger has received, in the order of the calls.\<close>

fun run_merger ::
  "(nat \<Rightarrow> bool) \<Rightarrow> (nat \<times> int) list \<Rightarrow> (nat \<times> int) list \<times> Signal \<Rightarrow> ((nat \<times> int) list \<times> Signal) go" where
  "run_merger send [] st = Ret st"
| "run_merger send ((idx, state) # evs) st = go_bind (updateViewState send idx state st) (run_merger send evs)"

subsection \<open>Running\<close>

fun run_tables ::
  "('s PartitionTable \<Rightarrow> ('s PartitionTable \<times> gerr option) option go) \<Rightarrow> 's PartitionTable list \<Rightarrow>
   ('s PartitionTable list \<times> gerr option list) option go" where
  "run_tables f [] = Ret (Some ([], []))"
| "run_tables f (p # ps) =
     go_bind (f p) (\<lambda>r.
       case r of
         None \<Rightarrow> Ret None
       | Some (p, e) \<Rightarrow> go_bind (run_tables f ps) (\<lambda>r. Ret (map_option (\<lambda>(ps, es). (p # ps, e # es)) r)))"

fun close_tables :: "'s table_env \<Rightarrow> 's PartitionTable list \<Rightarrow> gerr option list go" where
  "close_tables env [] = Ret []"
| "close_tables env (p # ps) =
     go_bind (pt_Close env p) (\<lambda>(p, e). go_bind (close_tables env ps) (\<lambda>es. Ret (e # es)))"

definition View_close :: "'s table_env \<Rightarrow> 's View \<Rightarrow> ('s View \<times> gerr option) go" where
  "View_close env v =
     go_bind (close_tables env (vw_partitions v)) (\<lambda>es.
       Ret (v\<lparr>vw_partitions := []\<rparr>, Errors_NilOrError (snd (ErrGroup_Wait es NewErrGroup))))"

text \<open>The deferred calls: close the view, then set the state.\<close>

definition View_Run_end :: "'s table_env \<Rightarrow> 's View \<Rightarrow> gerr option \<Rightarrow> ('s View \<times> gerr option) go" where
  "View_Run_end env v rerr =
     go_bind (View_close env v) (\<lambda>(v, e).
     go_bind (Signal_SetState (te_send env) ViewStateIdle (vw_state v)) (\<lambda>s.
       Ret (v\<lparr>vw_state := s\<rparr>, Errors_NilOrError (Errors_Collect (Errors_Collect newErrors rerr) e))))"

definition View_Run ::
  "'s table_env \<Rightarrow> ('s PartitionTable \<Rightarrow> ('s PartitionTable \<times> gerr option) option go) \<Rightarrow>
   ('s PartitionTable \<Rightarrow> ('s PartitionTable \<times> gerr option) option go) \<Rightarrow> bool \<Rightarrow> 's View \<Rightarrow>
   ('s View \<times> gerr option) option go" where
  "View_Run env recover catchup done' v =
     go_bind (run_tables recover (vw_partitions v)) (\<lambda>r.
       case r of None \<Rightarrow> Ret None | Some (ps, es) \<Rightarrow>
         let v = v\<lparr>vw_partitions := ps\<rparr>; err = Errors_NilOrError (snd (ErrGroup_Wait es NewErrGroup)) in
         if err \<noteq> None
         then go_bind (View_Run_end env v (map_option (Wrap ''Error recovering partitions for view %s: %v'') err)) (\<lambda>r. Ret (Some r))
         else if done' then go_bind (View_Run_end env v None) (\<lambda>r. Ret (Some r))
         else go_bind (run_tables catchup ps) (\<lambda>r.
           case r of None \<Rightarrow> Ret None | Some (ps, es) \<Rightarrow>
             go_bind (View_Run_end env (v\<lparr>vw_partitions := ps\<rparr>)
               (map_option (Wrap ''Error catching up partitions for view %s: %v'')
                 (Errors_NilOrError (snd (ErrGroup_Wait es NewErrGroup))))) (\<lambda>r. Ret (Some r))))"

section \<open>Reading a view\<close>

lemma find_ok:
  assumes "hasher key = Inr w" and "w \<noteq> 0x80000000" and "vw_partitions v \<noteq> []"
    and "length (vw_partitions v) < 2 ^ 31"
  defines "i \<equiv> nat (\<bar>sint w\<bar> mod int (length (vw_partitions v)))"
  shows "View_find hasher v key = Ret (Inr i)" and "i < length (vw_partitions v)"
proof -
  have n: "0 < int (length (vw_partitions v))" "int (length (vw_partitions v)) < 2 ^ 31" using assms(3,4) by simp_all
  show "View_find hasher v key = Ret (Inr i)"
    using hash_partition_ok [where hasher = hasher, OF assms(1,2) n] by (simp add: View_find_def View_hash_def i_def)
  show "i < length (vw_partitions v)"
    using hash_partition_ok(2) [where hasher = hasher, OF assms(1,2) n] by (simp add: i_def nat_less_iff)
qed

text \<open>C23: the partition of a key is in range. Unless the sum of the key is the least \<open>int32\<close>, the hash of
  a key is at least zero and less than the number of partitions, for any hasher and any number of
  partitions an \<open>int32\<close> can count; finding the table of a key does not panic.\<close>

theorem view_partition_in_range:
  assumes "hasher key = Inr w" and "w \<noteq> 0x80000000" and "vw_partitions v \<noteq> []"
    and "length (vw_partitions v) < 2 ^ 31"
  shows "\<exists>h. View_hash hasher v key = Ret (Inr h) \<and> 0 \<le> h \<and> h < int (length (vw_partitions v)) \<and>
    View_find hasher v key = Ret (Inr (nat h))"
proof -
  have n: "0 < int (length (vw_partitions v))" "int (length (vw_partitions v)) < 2 ^ 31" using assms(3,4) by simp_all
  show ?thesis
    using hash_partition_ok [where hasher = hasher, OF assms(1,2) n] find_ok(1) [where hasher = hasher, OF assms] by (simp add: View_hash_def)
qed

text \<open>C31: the least \<open>int32\<close> breaks the hash. If the sum of a key is 0x80000000, negating it overflows
  and leaves it negative; unless the number of partitions divides it, the partition is negative, and
  looking the key up panics.\<close>

theorem view_least_hash_panics:
  assumes "hasher key = Inr 0x80000000" and "n = int (length (vw_partitions v))" and "0 < n" and "n < 2 ^ 31"
    and "2 ^ 31 mod n \<noteq> 0"
  shows "View_hash hasher v key = Ret (Inr (- (2 ^ 31 mod n))) \<and> View_Get ops hasher v key = Panic ''index out of range''"
proof -
  have h: "View_hash hasher v key = Ret (Inr (- (2 ^ 31 mod n)))"
    unfolding View_hash_def assms(2) [symmetric] by (rule hash_partition_min [where hasher = hasher, OF assms(1,3,4)])
  moreover have "0 < 2 ^ 31 mod n"
    using assms(3,5) pos_mod_sign [of n "2 ^ 31"] by linarith
  ultimately show ?thesis by (simp add: View_Get_def View_find_def)
qed

text \<open>C13: reading a recovered view. With storages that satisfy their contract, Get returns the decoded
  value that the storage of the key's partition holds, and nil if it holds none; Has says whether it holds
  one; after Evict, the key is gone from the view.\<close>

theorem view_get_reads_partition:
  assumes kv: "kv_storage ops invar contents offset reserved fresh offset_ok"
    and hash: "hasher key = Inr w" "w \<noteq> 0x80000000" "vw_partitions v \<noteq> []" "length (vw_partitions v) < 2 ^ 31"
    and t: "t = vw_partitions v ! nat (\<bar>sint w\<bar> mod int (length (vw_partitions v)))"
      "pt_IsRecovered t" "pt_st t = Some px" "invar (px_Storage px)"
    and codec: "vw_tableCodec v = Some cd" and key: "key \<notin> reserved"
  shows "View_Get ops hasher v key = Ret (case contents (px_Storage px) key of
      None \<Rightarrow> Inr VNil
    | Some b \<Rightarrow> (case codec_Decode cd (Some b) of
        Inl err \<Rightarrow> Inl (Wrap ''error decoding value (key %s): %v'' err) | Inr x \<Rightarrow> Inr x)) \<and>
    View_Has ops hasher v key = Ret (Inr (contents (px_Storage px) key \<noteq> None)) \<and>
    (\<exists>v'. View_Evict ops hasher key v = Ret (v', None) \<and> View_Get ops hasher v' key = Ret (Inr VNil))"
proof -
  note find = find_ok [where hasher = hasher, OF hash]
  let ?i = "nat (\<bar>sint w\<bar> mod int (length (vw_partitions v)))"
  have ready: "pt_readyToRead t = None"
    using t(2) by (simp add: pt_readyToRead_def pt_IsRecovered_def pt_CurrentState_def Signal_IsState_def Signal_State_def)
  have "pt_Get ops key t = Ret (Inr (contents (px_Storage px) key))"
    using ready t(3) kv_storage.get [OF kv t(4) key] by (simp add: pt_Get_def pt_with_def)
  then have 1: "View_Get ops hasher v key = Ret (case contents (px_Storage px) key of
      None \<Rightarrow> Inr VNil
    | Some b \<Rightarrow> (case codec_Decode cd (Some b) of
        Inl err \<Rightarrow> Inl (Wrap ''error decoding value (key %s): %v'' err) | Inr x \<Rightarrow> Inr x))"
    using find(1) t(1) codec by (auto simp: View_Get_def split: option.splits sum.splits)
  have 2: "View_Has ops hasher v key = Ret (Inr (contents (px_Storage px) key \<noteq> None))"
    using find(1) t(1,3) ready kv_storage.has [OF kv t(4) key] by (simp add: View_Has_def pt_Has_def pt_with_def)
  obtain s e where s: "st_Delete ops (px_Storage px) key = (s, e)" by (cases "st_Delete ops (px_Storage px) key")
  note s' = kv_storage.delete [OF kv t(4) key s]
  define t' where "t' = t\<lparr>pt_st := Some (px\<lparr>px_Storage := s\<rparr>)\<rparr>"
  define v' where "v' = v\<lparr>vw_partitions := (vw_partitions v)[?i := t']\<rparr>"
  have 3: "View_Evict ops hasher key v = Ret (v', None)"
    using find(1) t(1,3) s s' by (simp add: View_Evict_def pt_Delete_def pt_with_def v'_def t'_def)
  have "pt_Get ops key t' = Ret (Inr None)"
    using ready s' kv_storage.get [OF kv, of s key] key
    by (simp add: pt_Get_def pt_with_def t'_def pt_readyToRead_def pt_CurrentState_def)
  moreover have "View_find hasher v' key = Ret (Inr ?i)"
    using find_ok(1) [of hasher key w v'] hash by (simp add: v'_def)
  ultimately have "View_Get ops hasher v' key = Ret (Inr VNil)"
    using find(2) by (simp add: View_Get_def v'_def)
  with 1 2 3 show ?thesis by blast
qed

section \<open>Iterating over a view\<close>

text \<open>A loop over the iterator of a view that collects keys and decoded values; the fuel bounds the calls
  of Next.\<close>

fun collect :: "'j iter_ops \<Rightarrow> nat \<Rightarrow> 'j giterator \<Rightarrow> (string \<times> gval result go) list option" where
  "collect ops 0 i = None"
| "collect ops (Suc fuel) i =
     (case giter_Next ops i of (i', b) \<Rightarrow>
        if b then map_option ((#) (giter_Key ops i', giter_Value ops i')) (collect ops fuel i') else Some [])"

definition decoded :: "Codec \<Rightarrow> slice \<times> slice result \<Rightarrow> string \<times> gval result go" where
  "decoded cd e = (slice_bytes (fst e), case snd e of Inl err \<Rightarrow> Ret (Inl err) | Inr None \<Rightarrow> Ret (Inr VNil)
     | Inr (Some b) \<Rightarrow> Ret (codec_Decode cd (Some b)))"

lemma collect_iterate:
  "gi_codec i = Some cd \<Longrightarrow> collect ops fuel i = map_option (map (decoded cd)) (iterate ops fuel (gi_iter i))"
proof (induction fuel arbitrary: i)
  case (Suc fuel)
  obtain j b where j: "it_Next ops (gi_iter i) = (j, b)" by (cases "it_Next ops (gi_iter i)")
  from Suc.IH [of "i\<lparr>gi_iter := j\<rparr>"] Suc.prems j show ?case
    by (auto simp: giter_Next_def giter_Key_def giter_Value_def decoded_def option.map_comp comp_def
        split: option.splits sum.splits)
qed simp

lemma open_iters_ok:
  assumes "\<forall>p \<in> set ps. mk p = Ret (Inr (f p))"
  shows "open_iters ops mk ps iters = Ret (iters @ map f ps, None)"
  using assms by (induction ps arbitrary: iters) auto

lemma merge_values:
  "iterate (merge_ops ops) fuel m = Some es \<Longrightarrow> e \<in> set es \<Longrightarrow> \<exists>s. snd e = Inr s"
proof (induction fuel arbitrary: m es)
  case (Suc fuel)
  then show ?case
    by (auto simp: merge_ops_def merge_Value_def split: prod.splits if_splits)
qed simp

lemma in_sum_mset_set:
  assumes "x \<in># (\<Sum>m \<in># mset ms. mset_set (A m))"
  obtains m where "m \<in> set ms" and "x \<in> A m"
proof -
  have "\<exists>m \<in> set ms. x \<in> A m"
    using assms
  proof (induction ms)
    case (Cons m ms)
    then show ?case by (cases "finite (A m)") auto
  qed simp
  then show thesis using that by blast
qed

text \<open>C22: iterating over a view yields every entry of every partition, in the order of the keys. On a
  recovered view with memory storages that hold no empty value, Iterator succeeds; the loop over it ends;
  the keys it yields are sorted, and the decoded entries are those of the partitions, each as often as it
  occurs.\<close>

theorem view_iteration_sorted:
  assumes v: "vw_tableCodec v = Some cd" "\<forall>p \<in> set (vw_partitions v). pt_IsRecovered p \<and> pt_st p \<noteq> None"
    and ms: "ms = map (\<lambda>p. px_Storage (the (pt_st p))) (vw_partitions v)"
      "\<forall>m \<in> set ms. memory_invar m \<and> [] \<notin> ran (mem_storage m)"
  shows "\<exists>i es. View_Iterator memiter_ops memory_Iterator v = Ret (Inr i) \<and>
    collect (merge_ops memiter_ops) (Suc (sum_list (map (\<lambda>m. card (dom (mem_storage m))) ms))) i = Some es \<and>
    sorted (map fst es) \<and>
    mset es = image_mset (\<lambda>(k, b). (k, Ret (codec_Decode cd (Some b))))
      (\<Sum>m \<in># mset ms. mset_set {(k, b). mem_storage m k = Some b \<and> k \<noteq> offsetKey})"
proof -
  let ?g = "\<lambda>(k, b). (k, Ret (codec_Decode cd (Some b)))"
  let ?all = "\<Sum>m \<in># mset ms. mset_set {(k, b). mem_storage m k = Some b \<and> k \<noteq> offsetKey}"
  have "\<forall>p \<in> set (vw_partitions v). pt_Iterator memory_Iterator p = Ret (Inr (projr (memory_Iterator (px_Storage (the (pt_st p))))))"
    using v(2) by (auto simp: pt_Iterator_def pt_readyToRead_def pt_IsRecovered_def pt_CurrentState_def Signal_IsState_def
        Signal_State_def pt_with_def memory_Iterator_def)
  then have it: "View_Iterator memiter_ops memory_Iterator v =
      Ret (Inr \<lparr>gi_iter = NewMultiIterator memiter_ops (map (\<lambda>m. projr (memory_Iterator m)) ms), gi_codec = Some cd\<rparr>)"
    using v(1) open_iters_ok [of "vw_partitions v" "pt_Iterator memory_Iterator"
        "\<lambda>p. projr (memory_Iterator (px_Storage (the (pt_st p))))" memiter_ops "[]"]
    by (simp add: View_Iterator_def ms(1) comp_def)
  obtain es where es: "iterate (merge_ops memiter_ops) (Suc (sum_list (map (\<lambda>m. card (dom (mem_storage m))) ms)))
        (NewMultiIterator memiter_ops (map (\<lambda>m. projr (memory_Iterator m)) ms)) = Some es"
      "sorted (map (\<lambda>e. fst (yielded e)) es)" "mset (map yielded es) = ?all"
    using merge_memories [of ms] ms(2) by auto
  have dec: "decoded cd e = ?g (yielded e)" if e: "e \<in> set es" for e
  proof -
    obtain s where s: "snd e = Inr s" using merge_values [OF es(1) e] by blast
    have "yielded e \<in># ?all" using e es(3) by (metis image_eqI set_map set_mset_mset)
    from in_sum_mset_set [OF this] obtain m where "m \<in> set ms" "mem_storage m (fst (yielded e)) = Some (snd (yielded e))"
      by (auto simp: split_beta)
    then have "snd (yielded e) \<noteq> []" using ms(2) ranI by fastforce
    then show ?thesis using s by (cases s) (auto simp: decoded_def yielded_def)
  qed
  then have "map (decoded cd) es = map ?g (map yielded es)" by simp
  then have "mset (map (decoded cd) es) = mset (map ?g (map yielded es))" by (rule arg_cong)
  also have "\<dots> = image_mset ?g ?all" unfolding mset_map [of ?g "map yielded es"] es(3) ..
  finally have "mset (map (decoded cd) es) = image_mset ?g ?all" .
  moreover have "sorted (map fst (map (decoded cd) es))"
    using es(2) by (simp add: decoded_def yielded_def comp_def)
  moreover have "collect (merge_ops memiter_ops) (Suc (sum_list (map (\<lambda>m. card (dom (mem_storage m))) ms)))
      \<lparr>gi_iter = NewMultiIterator memiter_ops (map (\<lambda>m. projr (memory_Iterator m)) ms), gi_codec = Some cd\<rparr> =
      Some (map (decoded cd) es)"
    by (subst collect_iterate [of _ cd]) (simp_all only: giterator.simps es(1) option.map)
  ultimately show ?thesis using it by blast
qed

section \<open>The state of a view\<close>

lemma lowest_state_Min:
  assumes "states \<noteq> []" and "\<forall>(i, s) \<in> set states. 0 \<le> s"
  shows "lowest_state states = Min (snd ` set states)"
proof -
  have step: "fold (\<lambda>(_, s) lowest. if lowest = -1 \<or> s < lowest then s else lowest) ss l = Min (insert l (snd ` set ss))"
    if "0 \<le> l" "\<forall>(i, s) \<in> set ss. 0 \<le> s" for l :: int and ss :: "(nat \<times> int) list"
    using that
  proof (induction ss arbitrary: l)
    case (Cons e ss)
    obtain i s where e: "e = (i, s)" by (cases e)
    have "(if l = -1 \<or> s < l then s else l) = min s l" "0 \<le> min s l" using Cons.prems e by auto
    moreover have "Min (insert (min s l) A) = Min (insert l (insert s A))" if "finite A" for A
      using that by (cases "A = {}") (simp_all add: min.commute min.left_commute)
    ultimately show ?case using Cons.IH [of "min s l"] Cons.prems(2) e by simp
  qed simp
  obtain i s ss where "states = (i, s) # ss" using assms(1) by (cases states) auto
  then show ?thesis using assms(2) step [of s ss] by (simp add: lowest_state_def)
qed

lemma view_state_of_allowed:
  "0 \<le> s \<and> s \<le> 5 \<Longrightarrow> view_state_of s \<in> {ViewStateIdle, ViewStateInitializing, ViewStateConnecting, ViewStateCatchUp, ViewStateRunning} \<and> view_state_of s \<noteq> -1"
  by (auto simp: view_state_of_def view_states partition_states)

definition view_signal_ok :: "Signal \<Rightarrow> bool" where
  "view_signal_ok s \<longleftrightarrow> sig_inv s \<and> set (sig_allowedStates s) =
     {ViewStateIdle, ViewStateInitializing, ViewStateConnecting, ViewStateCatchUp, ViewStateRunning}"

lemma updateViewState_ok:
  assumes "view_signal_ok s" and "\<forall>(i, st) \<in> set states. 0 \<le> st \<and> st \<le> 5" and "0 \<le> st \<and> st \<le> 5"
  obtains s' where "updateViewState send idx st (states, s) = Ret (map_put idx st states, s')" and "view_signal_ok s'"
    and "sig_state s' = view_state_of (Min (snd ` set (map_put idx st states)))"
proof -
  let ?states = "map_put idx st states"
  have "set ?states \<subseteq> insert (idx, st) (set states)" by (induction idx st states rule: map_put.induct) auto
  then have st: "\<forall>(i, st) \<in> set ?states. 0 \<le> st \<and> st \<le> 5" "?states \<noteq> []" using assms(2,3) by auto
  then have l: "lowest_state ?states = Min (snd ` set ?states)" by (intro lowest_state_Min) auto
  have "Min (snd ` set ?states) \<in> snd ` set ?states" using st(2) by (intro Min_in) auto
  then have "0 \<le> Min (snd ` set ?states) \<and> Min (snd ` set ?states) \<le> 5" using st(1) by fastforce
  note v = view_state_of_allowed [OF this]
  obtain s' where s': "Signal_SetState send (view_state_of (Min (snd ` set ?states))) s = Ret s'"
    using SetState_Ret [of s "view_state_of (Min (snd ` set ?states))" send] assms(1) v by (auto simp: view_signal_ok_def)
  moreover have "sig_state s' = view_state_of (Min (snd ` set ?states))" "sig_allowedStates s' = sig_allowedStates s"
    using s' by (auto simp: Signal_SetState_def go_bind_eq_Ret split: if_splits)
  moreover have "sig_inv s'" using sig_inv_SetState [OF _ s'] assms(1) by (simp add: view_signal_ok_def)
  ultimately show thesis
    using that [of s'] v assms(1) by (simp add: updateViewState_def l Let_def view_signal_ok_def)
qed

lemma run_merger_ok:
  assumes "view_signal_ok s" and "\<forall>(i, st) \<in> set states. 0 \<le> st \<and> st \<le> 5" and "\<forall>(i, st) \<in> set evs. 0 \<le> st \<and> st \<le> 5"
    and "states = [] \<or> sig_state s = view_state_of (Min (snd ` set states))"
  shows "\<exists>s'. run_merger send evs (states, s) = Ret (fold (\<lambda>(i, st). map_put i st) evs states, s') \<and>
    (evs = [] \<and> states = [] \<or> sig_state s' = view_state_of (Min (snd ` set (fold (\<lambda>(i, st). map_put i st) evs states))))"
  using assms
proof (induction evs arbitrary: states s)
  case (Cons ev evs)
  obtain i st where ev: "ev = (i, st)" by (cases ev)
  then have st: "0 \<le> st \<and> st \<le> 5" using Cons.prems(3) by auto
  obtain s' where s': "updateViewState send i st (states, s) = Ret (map_put i st states, s')" "view_signal_ok s'"
    "sig_state s' = view_state_of (Min (snd ` set (map_put i st states)))"
    using updateViewState_ok [OF Cons.prems(1,2) st] by blast
  have "set (map_put i st states) \<subseteq> insert (i, st) (set states)" by (induction i st states rule: map_put.induct) auto
  then have "\<forall>(i, st) \<in> set (map_put i st states). 0 \<le> st \<and> st \<le> 5" using Cons.prems(2) st by auto
  from Cons.IH [OF s'(2) this] Cons.prems(3) s'(1,3) ev show ?case by auto
qed simp

text \<open>C24: the state of a view is that of its slowest partition. After any sequence of state changes, in
  whatever order the goroutines of the partitions deliver them, the view is in the state that corresponds
  to the lowest state last reported by any partition; it is running exactly if every partition that has
  reported is running. A partition whose goroutine has not delivered a state yet does not count: the view
  is running as soon as the first partition is, if that one is the only one that has reported.\<close>

theorem view_state_is_lowest:
  assumes "view_signal_ok s" and "evs \<noteq> []" and "\<forall>(i, st) \<in> set evs. 0 \<le> st \<and> st \<le> 5"
  shows "\<exists>states s'. run_merger send evs ([], s) = Ret (states, s') \<and> map_of states = map_of (rev evs) \<and>
    sig_state s' = view_state_of (Min (ran (map_of (rev evs)))) \<and>
    (sig_state s' = ViewStateRunning \<longleftrightarrow> (\<forall>st \<in> ran (map_of (rev evs)). st = PartitionRunning))"
proof -
  define states where "states = fold (\<lambda>(i, st). map_put i st) evs []"
  have m: "map_of (fold (\<lambda>(i, st). map_put i st) evs a) = map_of a ++ map_of (rev evs)" for a :: "(nat \<times> int) list"
    by (induction evs arbitrary: a) (auto simp: map_add_upds map_add_def fun_eq_iff split: option.splits)
  have "gomap (fold (\<lambda>(i, st). map_put i st) evs a)" if "gomap a" for a :: "(nat \<times> int) list"
    using that by (induction evs arbitrary: a) auto
  then have g: "gomap states" by (simp add: states_def)
  have eq: "map_of states = map_of (rev evs)" using m [of "[]"] by (simp add: states_def)
  then have ran: "snd ` set states = ran (map_of (rev evs))" using ran_distinct [OF g] by simp
  obtain s' where s': "run_merger send evs ([], s) = Ret (states, s')" "sig_state s' = view_state_of (Min (snd ` set states))"
    using run_merger_ok [OF assms(1) _ assms(3), of "[]" send] assms(2) by (auto simp: states_def)
  have fin: "finite (ran (map_of (rev evs)))" "ran (map_of (rev evs)) \<noteq> {}"
    using ran [symmetric] assms(2) eq by (auto simp: states_def)
  have range: "0 \<le> st \<and> st \<le> 5" if st: "st \<in> ran (map_of (rev evs))" for st
  proof -
    obtain i where "map_of (rev evs) i = Some st" using st by (auto simp: ran_def)
    then have "(i, st) \<in> set evs" using map_of_SomeD by fastforce
    then show ?thesis using assms(3) by auto
  qed
  have "view_state_of st = ViewStateRunning \<longleftrightarrow> st = PartitionRunning" for st
    by (auto simp: view_state_of_def view_states partition_states)
  moreover have "Min (ran (map_of (rev evs))) = PartitionRunning \<longleftrightarrow> (\<forall>st \<in> ran (map_of (rev evs)). st = PartitionRunning)"
  proof
    assume "Min (ran (map_of (rev evs))) = PartitionRunning"
    then show "\<forall>st \<in> ran (map_of (rev evs)). st = PartitionRunning"
      using Min_le [OF fin(1)] range by (auto simp: PartitionRunning_def intro: antisym)
  qed (use Min_in [OF fin] in blast)
  ultimately show ?thesis using s' eq ran by auto
qed

section \<open>After the view has stopped\<close>

lemma Run_end_partitions:
  "View_Run_end env v rerr = Ret (v', e) \<Longrightarrow> vw_partitions v' = [] \<and> sig_state (vw_state v') = ViewStateIdle"
  by (auto simp: View_Run_end_def View_close_def go_bind_eq_Ret Signal_SetState_def split: if_splits)

lemma Run_ends:
  assumes "View_Run env recover catchup done' v = Ret (Some (v', e))"
  shows "\<exists>v1 r. View_Run_end env v1 r = Ret (v', e)"
proof -
  have some: "\<exists>v1 r. View_Run_end env v1 r = Ret (v', e)"
    if "go_bind (View_Run_end env v1 r) (\<lambda>r. Ret (Some r)) = Ret (Some (v', e))" for v1 r
    using that by (auto simp: go_bind_eq_Ret)
  obtain x where x: "run_tables recover (vw_partitions v) = Ret x"
    using assms by (cases "run_tables recover (vw_partitions v)") (simp_all add: View_Run_def)
  obtain ps es where ps: "x = Some (ps, es)"
    using assms x by (cases x) (auto simp: View_Run_def)
  show ?thesis
  proof (cases "Errors_NilOrError (snd (ErrGroup_Wait es NewErrGroup)) \<noteq> None \<or> done'")
    case True
    then show ?thesis using assms x ps some by (auto simp: View_Run_def Let_def simp del: ErrGroup_Wait_errs split: if_splits)
  next
    case False
    obtain y where y: "run_tables catchup ps = Ret y"
      using assms x ps False by (cases "run_tables catchup ps") (simp_all add: View_Run_def)
    then show ?thesis using assms x ps some False by (cases y) (auto simp: View_Run_def Let_def)
  qed
qed

text \<open>A stopped view. When Run has returned, for whatever reason, the view has no partitions and is
  idle; every lookup reports that there are no partitions, whatever the storages held; yet Recovered
  returns true, as it does for a view none of whose partitions has recovered.\<close>

lemma view_recovered_after_run:
  assumes "View_Run env recover catchup done' v = Ret (Some (v', e))" and "hasher key = Inr w"
  shows "View_Recovered v' \<and> View_CurrentState v' = ViewStateIdle \<and>
    View_Get ops hasher v' key = Ret (Inl (Err ''no partitions found''))"
proof -
  obtain v1 r where "View_Run_end env v1 r = Ret (v', e)" using Run_ends [OF assms(1)] by blast
  from Run_end_partitions [OF this] show ?thesis
    using assms(2) by (simp add: View_Recovered_def View_CurrentState_def Signal_State_def View_Get_def View_find_def
        View_hash_def hash_partition_def)
qed

text \<open>Seek on the iterator of a view does not position its key. It returns whether there is an entry
  at or after the key, but Key and Value still return what they returned before; Next has to be called
  first.\<close>

lemma view_seek_leaves_entry:
  assumes "giter_Seek (merge_ops ops) i key = (i', b)"
  shows "giter_Key (merge_ops ops) i' = giter_Key (merge_ops ops) i \<and>
    giter_Value (merge_ops ops) i' = giter_Value (merge_ops ops) i"
proof -
  have loop: "mg_key (merge_build_loop ops f js m) = mg_key m \<and> mg_value (merge_build_loop ops f js m) = mg_value m" for f js m
    by (induction js arbitrary: m) (auto split: prod.splits simp: Let_def)
  show ?thesis
    using assms
    by (auto simp: giter_Seek_def giter_Key_def giter_Value_def merge_ops_def merge_Seek_def merge_Key_def merge_Value_def
        merge_buildHeap_def loop Let_def cong: option.case_cong split: prod.splits if_splits)
qed

section \<open>Samples\<close>

text \<open>A recovered view with three partitions, of which each holds one entry.\<close>

definition sample_partition :: "nat \<Rightarrow> string \<Rightarrow> bytes \<Rightarrow> memory PartitionTable" where
  "sample_partition i k b = (sample_table (fst (memory_Set NewMemory k (Some b))))\<lparr>pt_partition := int i,
     pt_state := (NewSignal [PartitionStopped, PartitionRunning])\<lparr>sig_state := PartitionRunning\<rparr>\<rparr>"

definition sample_view :: "memory View" where
  "sample_view = \<lparr>vw_topic = ''t'', vw_partitions = [sample_partition 0 ''a'' ''1'', sample_partition 1 ''c'' ''2'',
     sample_partition 2 ''b'' ''3''], vw_state = NewSignal [ViewStateIdle, ViewStateInitializing, ViewStateConnecting,
       ViewStateCatchUp, ViewStateRunning], vw_tableCodec = Some StringCodec\<rparr>"

lemma sample_hash: "fnv32a ''a'' = 0xE40C292C" "fnv32a ''rdklaij'' = 0x80000000"
  by (simp_all add: fnv32a_def of_char_def)

theorem view_partition_in_range_witness:
  "\<exists>h. View_hash DefaultHasher sample_view ''a'' = Ret (Inr h) \<and> 0 \<le> h \<and> h < 3"
  using view_partition_in_range [of DefaultHasher "''a''" "0xE40C292C" sample_view]
  by (auto simp: DefaultHasher_def sample_hash sample_view_def)

theorem view_least_hash_panics_witness:
  "View_Get memory_ops DefaultHasher sample_view ''rdklaij'' = Panic ''index out of range''"
  using view_least_hash_panics [of DefaultHasher "''rdklaij''" 3 sample_view memory_ops]
  by (simp add: DefaultHasher_def sample_hash sample_view_def)

theorem view_get_reads_partition_witness:
  "View_Get memory_ops DefaultHasher sample_view ''a'' = Ret (Inr (VString ''1'')) \<and>
   (\<exists>v'. View_Evict memory_ops DefaultHasher ''a'' sample_view = Ret (v', None) \<and>
      View_Get memory_ops DefaultHasher v' ''a'' = Ret (Inr VNil))"
proof -
  have "sint (0xE40C292C :: 32 word) = -468965076" by simp
  then have i: "nat (\<bar>sint (0xE40C292C :: 32 word)\<bar> mod int (length (vw_partitions sample_view))) = 0"
    by (simp add: sample_view_def)
  obtain px where px: "pt_st (sample_partition 0 ''a'' ''1'') = Some px" "px_Storage px = fst (memory_Set NewMemory ''a'' (Some ''1''))"
    by (simp add: sample_partition_def sample_table_def)
  show ?thesis
    using view_get_reads_partition [OF mem.kv_storage_axioms, where hasher = DefaultHasher and key = "''a''" and w = "0xE40C292C"
        and v = sample_view and t = "sample_partition 0 ''a'' ''1''" and px = px and cd = StringCodec] px(1)
    by (simp add: i DefaultHasher_def sample_hash px(2))
      (simp add: sample_view_def sample_partition_def pt_IsRecovered_def Signal_IsState_def memory_Set_def NewMemory_def
        memory_invar_def Let_def StringCodec_def String_Decode_def)
qed

theorem view_iteration_sorted_witness:
  "\<exists>i es. View_Iterator memiter_ops memory_Iterator sample_view = Ret (Inr i) \<and>
     collect (merge_ops memiter_ops) 4 i = Some es \<and> sorted (map fst es)"
proof -
  let ?ms = "map (\<lambda>p. px_Storage (the (pt_st p))) (vw_partitions sample_view)"
  have n: "Suc (sum_list (map (\<lambda>m. card (dom (mem_storage m))) ?ms)) = 4"
    by (simp add: sample_view_def sample_partition_def sample_table_def memory_Set_def NewMemory_def Let_def)
  have "\<exists>i es. View_Iterator memiter_ops memory_Iterator sample_view = Ret (Inr i) \<and>
    collect (merge_ops memiter_ops) (Suc (sum_list (map (\<lambda>m. card (dom (mem_storage m))) ?ms))) i = Some es \<and>
    sorted (map fst es) \<and>
    mset es = image_mset (\<lambda>(k, b). (k, Ret (codec_Decode StringCodec (Some b))))
      (\<Sum>m \<in># mset ?ms. mset_set {(k, b). mem_storage m k = Some b \<and> k \<noteq> offsetKey})"
    by (rule view_iteration_sorted)
      (auto simp: sample_view_def sample_partition_def sample_table_def memory_Set_def NewMemory_def Let_def
        pt_IsRecovered_def Signal_IsState_def memory_invar_def)
  then show ?thesis unfolding n by blast
qed

theorem view_state_is_lowest_witness:
  "\<exists>states s'. run_merger (\<lambda>_. True) [(0, PartitionRunning)] ([], vw_state sample_view) = Ret (states, s') \<and>
     sig_state s' = ViewStateRunning"
proof -
  have "view_signal_ok (vw_state sample_view)"
    by (auto simp: view_signal_ok_def sample_view_def sig_inv_def NewSignal_def)
  from view_state_is_lowest [OF this, of "[(0, PartitionRunning)]" "\<lambda>_. True"] show ?thesis
    by (auto simp: partition_states simp del: run_merger.simps)
qed

text \<open>An empty value reads as nil in an iteration. The buffer of the merge iterator stays nil as long as
  nothing has been appended to it; so an entry whose stored value is empty is returned as nil without
  being decoded, where Get decodes it.\<close>

lemma empty_value_iterates_as_nil:
  "\<exists>v i. vw_tableCodec v = Some StringCodec \<and>
     View_Get memory_ops DefaultHasher v ''k'' = Ret (Inr (VString [])) \<and>
     View_Iterator memiter_ops memory_Iterator v = Ret (Inr i) \<and>
     collect (merge_ops memiter_ops) 2 i = Some [(''k'', Ret (Inr VNil))]"
proof -
  let ?v = "sample_view\<lparr>vw_partitions := [sample_partition 0 ''k'' []]\<rparr>"
  have "vw_tableCodec ?v = Some StringCodec" by (simp add: sample_view_def)
  moreover have "View_Get memory_ops DefaultHasher ?v ''k'' = Ret (Inr (VString []))" by code_simp
  moreover have "case View_Iterator memiter_ops memory_Iterator ?v of
      Ret (Inr i) \<Rightarrow> collect (merge_ops memiter_ops) 2 i = Some [(''k'', Ret (Inr VNil))] | _ \<Rightarrow> False" by code_simp
  then obtain i where "View_Iterator memiter_ops memory_Iterator ?v = Ret (Inr i)"
    "collect (merge_ops memiter_ops) 2 i = Some [(''k'', Ret (Inr VNil))]"
    by (auto split: go.splits sum.splits)
  ultimately show ?thesis by blast
qed

end
