(* ===== verification/Goka_Topic_Manager.thy ===== *)
theory Goka_Topic_Manager
  imports Goka_Multierr Goka_Codec
begin

text \<open>
  The topic manager (\<open>topic_manager.go\<close>): it looks up the partitions of topics and creates missing ones.

  \<^item> The state \<open>'c\<close> stands for the Kafka cluster and what sarama's client knows of it; what sarama's client
    and cluster admin do is the record \<open>cluster\<close> of functions on it. Their documented behaviour is the
    predicate \<open>cluster_laws\<close>, a hypothesis of the theorems.
  \<^item> A configuration is an association list in the order in which Go ranges over the map.
  \<^item> Logging, which includes the warnings about a mismatch, is left out.
\<close>

section \<open>Topics\<close>

definition wrap16 :: "int \<Rightarrow> int" where
  "wrap16 x = signed_take_bit 15 x"

abbreviation int16 :: "int \<Rightarrow> bool" where
  "int16 x \<equiv> - (2 ^ 15) \<le> x \<and> x < 2 ^ 15"

lemma wrap16_id [goka_simps]: "int16 x \<Longrightarrow> wrap16 x = x"
  by (simp add: wrap16_def signed_take_bit_int_eq_self)

type_synonym topicConfig = "(string \<times> string) list"

record TopicDetail =
  NumPartitions :: int
  ReplicationFactor :: int
  ConfigEntries :: topicConfig

text \<open>\<open>DescribeTopics\<close> returns for each topic its partitions, and for each partition its replicas.\<close>

record 'c cluster =
  cl_RefreshMetadata :: "'c \<Rightarrow> 'c \<times> gerr option"
  cl_Topics :: "'c \<Rightarrow> string list result"
  cl_Partitions :: "'c \<Rightarrow> string \<Rightarrow> int list result"
  cl_GetOffset :: "'c \<Rightarrow> string \<Rightarrow> int \<Rightarrow> int \<Rightarrow> int result"
  cl_CreateTopic :: "string \<Rightarrow> TopicDetail \<Rightarrow> 'c \<Rightarrow> 'c \<times> gerr option"
  cl_isAtLeast_0_11 :: bool
  cl_DescribeConfig :: "'c \<Rightarrow> string \<Rightarrow> topicConfig result"
  cl_DescribeTopics :: "'c \<Rightarrow> string list \<Rightarrow> int list list list result"
  cl_Close :: "'c \<Rightarrow> 'c \<times> gerr option"

definition TMConfigMismatchBehaviorIgnore :: int where "TMConfigMismatchBehaviorIgnore = 0"
definition TMConfigMismatchBehaviorWarn :: int where "TMConfigMismatchBehaviorWarn = 1"
definition TMConfigMismatchBehaviorFail :: int where "TMConfigMismatchBehaviorFail = 2"

record TopicManagerConfig =
  tmc_Table_Replication :: int
  tmc_Table_CleanupPolicy :: string
  tmc_Stream_Replication :: int
  tmc_Stream_Retention :: int
  tmc_Stream_CleanupPolicy :: string
  tmc_MismatchBehavior :: int

definition streamCleanupPolicy :: "TopicManagerConfig \<Rightarrow> string" where
  "streamCleanupPolicy tmc = (if tmc_Stream_CleanupPolicy tmc \<noteq> '''' then tmc_Stream_CleanupPolicy tmc else ''delete'')"

definition tableCleanupPolicy :: "TopicManagerConfig \<Rightarrow> string" where
  "tableCleanupPolicy tmc = (if tmc_Table_CleanupPolicy tmc \<noteq> '''' then tmc_Table_CleanupPolicy tmc else ''compact'')"

text \<open>A duration counts nanoseconds.\<close>

definition NewTopicManagerConfig :: TopicManagerConfig where
  "NewTopicManagerConfig = \<lparr>tmc_Table_Replication = 2, tmc_Table_CleanupPolicy = '''', tmc_Stream_Replication = 2,
     tmc_Stream_Retention = 3600000000000, tmc_Stream_CleanupPolicy = '''',
     tmc_MismatchBehavior = TMConfigMismatchBehaviorIgnore\<rparr>"

section \<open>Creation\<close>

text \<open>A broker is given by the error of opening it and what \<open>Connected\<close> returns.\<close>

record Broker =
  br_Open :: "gerr option"
  br_Connected :: "bool result"

definition checkBroker :: "Broker \<Rightarrow> gerr option" where
  "checkBroker broker =
     (case br_Open broker of
        Some err \<Rightarrow> Some (Wrap ''error opening broker connection: %v'' err)
      | None \<Rightarrow>
          (case br_Connected broker of
             Inl err \<Rightarrow> Some (Wrap ''cannot connect to broker %s: %v'' err)
           | Inr connected \<Rightarrow> if \<not> connected then Some (Err ''cannot connect to broker %s: not connected'') else None))"

text \<open>A client is given by its brokers; the admin by the error of creating it.\<close>

definition newTopicManager ::
  "'b list option \<Rightarrow> TopicManagerConfig option \<Rightarrow> ('b \<Rightarrow> gerr option) \<Rightarrow> gerr option \<Rightarrow> TopicManagerConfig result" where
  "newTopicManager client topicManagerConfig check adminErr =
     (case client of
        None \<Rightarrow> Inl (Err ''cannot create topic manager with nil client'')
      | Some activeBrokers \<Rightarrow>
          (case topicManagerConfig of
             None \<Rightarrow> Inl (Err ''cannot create topic manager with nil config'')
           | Some cfg \<Rightarrow>
               (case activeBrokers of
                  [] \<Rightarrow> Inl (Err ''no brokers active in current client'')
                | broker # _ \<Rightarrow>
                    (case check broker of
                       Some err \<Rightarrow> Inl err
                     | None \<Rightarrow>
                         (case adminErr of
                            Some err \<Rightarrow> Inl (Wrap ''error creating cluster admin: %v'' err)
                          | None \<Rightarrow> Inr cfg)))))"

definition NewTopicManager ::
  "bool \<Rightarrow> Broker list result \<Rightarrow> TopicManagerConfig option \<Rightarrow> gerr option \<Rightarrow> TopicManagerConfig result" where
  "NewTopicManager isAtLeast_0_10 client topicManagerConfig adminErr =
     (if \<not> isAtLeast_0_10 then Inl (Err ''goka's topic manager needs kafka version v0.10.0.0 or higher to function. Version is %s'')
      else case client of
        Inl err \<Rightarrow> Inl (Wrap ''Error creating the kafka client: %v'' err)
      | Inr brokers \<Rightarrow> newTopicManager (Some brokers) topicManagerConfig checkBroker adminErr)"

section \<open>Operations\<close>

definition tm_Close :: "'c cluster \<Rightarrow> 'c \<Rightarrow> 'c \<times> gerr option" where
  "tm_Close ops c = (case cl_Close ops c of (c, e) \<Rightarrow> (c, Errors_NilOrError (Errors_Collect newErrors e)))"

definition tm_Partitions :: "'c cluster \<Rightarrow> string \<Rightarrow> 'c \<Rightarrow> 'c \<times> int list result" where
  "tm_Partitions ops topic c =
     (case cl_RefreshMetadata ops c of
        (c, Some err) \<Rightarrow> (c, Inl (Wrap ''error refreshing metadata %v'' err))
      | (c, None) \<Rightarrow>
          (c, case cl_Topics ops c of
                Inl err \<Rightarrow> Inl err
              | Inr topics \<Rightarrow> if topic \<in> set topics then cl_Partitions ops c topic else Inl ErrTopicNotFound))"

definition tm_GetOffset :: "'c cluster \<Rightarrow> string \<Rightarrow> int \<Rightarrow> int \<Rightarrow> 'c \<Rightarrow> int result" where
  "tm_GetOffset ops topic partitionID time c = cl_GetOffset ops c topic partitionID time"

definition tm_createTopic :: "'c cluster \<Rightarrow> string \<Rightarrow> int \<Rightarrow> int \<Rightarrow> topicConfig \<Rightarrow> 'c \<Rightarrow> 'c \<times> gerr option" where
  "tm_createTopic ops topic npar rfactor config c =
     (case cl_CreateTopic ops topic \<lparr>NumPartitions = wrap32 npar, ReplicationFactor = wrap16 rfactor,
          ConfigEntries = map_copy config []\<rparr> c of
        (c, e) \<Rightarrow> (c, map_option (Wrap ''error creating topic %s, npar=%d, rfactor=%d, config=%#v: %v'') e))"

definition handleConfigMismatch :: "TopicManagerConfig \<Rightarrow> string \<Rightarrow> gerr option" where
  "handleConfigMismatch tmc message =
     (if tmc_MismatchBehavior tmc = TMConfigMismatchBehaviorFail then Some (Err message) else None)"

definition adminSupported :: "'c cluster \<Rightarrow> bool" where
  "adminSupported ops = cl_isAtLeast_0_11 ops"

definition getTopicConfigMap :: "'c cluster \<Rightarrow> string \<Rightarrow> 'c \<Rightarrow> topicConfig result" where
  "getTopicConfigMap ops topic c =
     (case cl_DescribeConfig ops c topic of
        Inl err \<Rightarrow> Inl (Err ''Error getting config for topic %s'')
      | Inr cfg \<Rightarrow> Inr (map_copy cfg []))"

definition getTopicMinReplicas :: "'c cluster \<Rightarrow> string \<Rightarrow> 'c \<Rightarrow> nat result" where
  "getTopicMinReplicas ops topic c =
     (case cl_DescribeTopics ops c [topic] of
        Inl err \<Rightarrow> Inl (Err ''Error describing topic %s'')
      | Inr [parts] \<Rightarrow>
          Inr (fold (\<lambda>replicas replicasMin.
            if replicasMin = 0 \<or> length replicas < replicasMin then length replicas else replicasMin) parts 0)
      | Inr _ \<Rightarrow> Inl (Err ''Cannot find meta data for topic %s''))"

text \<open>The loop over the requested configuration: the message of the first mismatch.\<close>

fun check_config :: "topicConfig \<Rightarrow> topicConfig \<Rightarrow> string option" where
  "check_config cfgMap [] = None"
| "check_config cfgMap ((key, val) # config) =
     (case map_of cfgMap key of
        None \<Rightarrow> Some ''config for topic %s did not contain requested key %s''
      | Some entry \<Rightarrow>
          if entry \<noteq> val then Some ''unexpected config value for topic %s. Expected %s=%s. Got %s=%s''
          else check_config cfgMap config)"

definition check_topic ::
  "'c cluster \<Rightarrow> TopicManagerConfig \<Rightarrow> string \<Rightarrow> int \<Rightarrow> topicConfig \<Rightarrow> 'c \<Rightarrow> gerr option" where
  "check_topic ops tmc topic rfactor config c =
     (case getTopicConfigMap ops topic c of
        Inl err \<Rightarrow> Some err
      | Inr cfgMap \<Rightarrow>
          (case check_config cfgMap config of
             Some message \<Rightarrow> handleConfigMismatch tmc message
           | None \<Rightarrow>
               (case getTopicMinReplicas ops topic c of
                  Inl err \<Rightarrow> Some err
                | Inr topicMinReplicas \<Rightarrow>
                    if int topicMinReplicas \<noteq> rfactor
                    then handleConfigMismatch tmc ''unexpected replication factor for topic %s. Expected %d, got %d''
                    else None)))"

definition tm_ensureExists ::
  "'c cluster \<Rightarrow> TopicManagerConfig \<Rightarrow> string \<Rightarrow> int \<Rightarrow> int \<Rightarrow> topicConfig \<Rightarrow> 'c \<Rightarrow> 'c \<times> gerr option" where
  "tm_ensureExists ops tmc topic npar rfactor config c =
     (case tm_Partitions ops topic c of
        (c, r) \<Rightarrow>
          let failed = (case r of Inl err \<Rightarrow> if err \<noteq> ErrTopicNotFound then Some err else None | Inr _ \<Rightarrow> None);
              partitions = (case r of Inl _ \<Rightarrow> [] | Inr ps \<Rightarrow> ps)
          in case failed of
               Some err \<Rightarrow> (c, Some (Wrap ''error checking topic: %v'' err))
             | None \<Rightarrow>
                 if length partitions = 0 then tm_createTopic ops topic npar rfactor config c
                 else if int (length partitions) \<noteq> npar
                 then (c, handleConfigMismatch tmc ''partition count mismatch for topic %s. Need %d, but existing topic has %d'')
                 else (c, if adminSupported ops then check_topic ops tmc topic rfactor config c else None))"

definition EnsureStreamExists :: "'c cluster \<Rightarrow> TopicManagerConfig \<Rightarrow> string \<Rightarrow> int \<Rightarrow> 'c \<Rightarrow> 'c \<times> gerr option" where
  "EnsureStreamExists ops tmc topic npar =
     tm_ensureExists ops tmc topic npar (tmc_Stream_Replication tmc)
       [(''cleanup.policy'', streamCleanupPolicy tmc),
        (''retention.ms'', FormatInt (sgn (tmc_Stream_Retention tmc) * (\<bar>tmc_Stream_Retention tmc\<bar> div 1000000)))]"

definition EnsureTopicExists ::
  "'c cluster \<Rightarrow> TopicManagerConfig \<Rightarrow> string \<Rightarrow> int \<Rightarrow> int \<Rightarrow> topicConfig \<Rightarrow> 'c \<Rightarrow> 'c \<times> gerr option" where
  "EnsureTopicExists ops tmc topic npar rfactor config = tm_ensureExists ops tmc topic npar rfactor config"

definition EnsureTableExists :: "'c cluster \<Rightarrow> TopicManagerConfig \<Rightarrow> string \<Rightarrow> int \<Rightarrow> 'c \<Rightarrow> 'c \<times> gerr option" where
  "EnsureTableExists ops tmc topic npar =
     tm_ensureExists ops tmc topic npar (tmc_Table_Replication tmc) [(''cleanup.policy'', tableCleanupPolicy tmc)]"

section \<open>The interface\<close>

text \<open>The interface \<open>TopicManager\<close> of the source, and the implementation of this file.\<close>

record 'c TopicManager =
  tmi_EnsureTableExists :: "string \<Rightarrow> int \<Rightarrow> 'c \<Rightarrow> 'c \<times> gerr option"
  tmi_EnsureStreamExists :: "string \<Rightarrow> int \<Rightarrow> 'c \<Rightarrow> 'c \<times> gerr option"
  tmi_EnsureTopicExists :: "string \<Rightarrow> int \<Rightarrow> int \<Rightarrow> topicConfig \<Rightarrow> 'c \<Rightarrow> 'c \<times> gerr option"
  tmi_Partitions :: "string \<Rightarrow> 'c \<Rightarrow> 'c \<times> int list result"
  tmi_GetOffset :: "string \<Rightarrow> int \<Rightarrow> int \<Rightarrow> 'c \<Rightarrow> 'c \<times> int result"
  tmi_Close :: "'c \<Rightarrow> 'c \<times> gerr option"

definition topicManager :: "'c cluster \<Rightarrow> TopicManagerConfig \<Rightarrow> 'c TopicManager" where
  "topicManager ops tmc = \<lparr>tmi_EnsureTableExists = EnsureTableExists ops tmc, tmi_EnsureStreamExists = EnsureStreamExists ops tmc,
     tmi_EnsureTopicExists = EnsureTopicExists ops tmc, tmi_Partitions = tm_Partitions ops,
     tmi_GetOffset = (\<lambda>topic p time c. (c, tm_GetOffset ops topic p time c)), tmi_Close = tm_Close ops\<rparr>"

text \<open>What a processor relies on. \<open>parts\<close> are the partitions of the topics that exist: asking for them changes
  nothing; a topic that is ensured with the number of partitions of an existing one has that many partitions,
  numbered from zero; ensuring a topic changes no existing topic, and closing the manager changes none.\<close>

locale topic_manager =
  fixes tm :: "'c TopicManager" and parts :: "'c \<Rightarrow> string \<Rightarrow> int list option"
  assumes partitions: "tmi_Partitions tm t c = (c', r) \<Longrightarrow>
      parts c' = parts c \<and> (\<forall>ps. r = Inr ps \<longrightarrow> ps \<noteq> [] \<and> parts c t = Some ps)"
    and stream: "parts c t0 = Some ps \<Longrightarrow> tmi_EnsureStreamExists tm t (int (length ps)) c = (c', None) \<Longrightarrow>
      parts c' t = Some (map int [0..<length ps]) \<and> parts c \<subseteq>\<^sub>m parts c'"
    and table: "parts c t0 = Some ps \<Longrightarrow> tmi_EnsureTableExists tm t (int (length ps)) c = (c', None) \<Longrightarrow>
      parts c' t = Some (map int [0..<length ps]) \<and> parts c \<subseteq>\<^sub>m parts c'"
    and close: "parts (fst (tmi_Close tm c)) = parts c"

section \<open>Ensuring that a topic exists\<close>

text \<open>What Kafka and sarama document: refreshing the metadata or closing the client changes no topic; the topics that exist are
  listed, each with its partitions from zero, its configuration and the replicas of each partition; creating a
  topic either fails and changes nothing, or adds the topic with the requested number of partitions, replication
  factor and configuration. \<open>detail\<close> is what exists.\<close>

definition cluster_laws :: "'c cluster \<Rightarrow> ('c \<Rightarrow> string \<Rightarrow> TopicDetail option) \<Rightarrow> bool" where
  "cluster_laws ops detail \<longleftrightarrow>
     (\<forall>c. detail (fst (cl_Close ops c)) = detail c) \<and>
     (\<forall>c. snd (cl_RefreshMetadata ops c) = None \<and> detail (fst (cl_RefreshMetadata ops c)) = detail c) \<and>
     (\<forall>c. \<exists>ts. cl_Topics ops c = Inr ts \<and> set ts = dom (detail c)) \<and>
     (\<forall>c t d. detail c t = Some d \<longrightarrow>
        0 < NumPartitions d \<and> NumPartitions d < 2 ^ 31 \<and> 0 < ReplicationFactor d \<and> gomap (ConfigEntries d) \<and>
        cl_Partitions ops c t = Inr (map int [0..<nat (NumPartitions d)]) \<and>
        cl_DescribeConfig ops c t = Inr (ConfigEntries d) \<and>
        (\<exists>rs. cl_DescribeTopics ops c [t] = Inr [rs] \<and> length rs = nat (NumPartitions d) \<and>
           (\<forall>r \<in> set rs. length r = nat (ReplicationFactor d)))) \<and>
     (\<forall>c t d. detail c t = None \<longrightarrow>
        (case cl_CreateTopic ops t d c of
           (c', Some err) \<Rightarrow> detail c' = detail c
         | (c', None) \<Rightarrow> \<exists>d'. detail c' = (detail c)(t \<mapsto> d') \<and> NumPartitions d' = NumPartitions d \<and>
             ReplicationFactor d' = ReplicationFactor d \<and> map_of (ConfigEntries d) \<subseteq>\<^sub>m map_of (ConfigEntries d')))"

lemma laws_detail:
  assumes "cluster_laws ops detail" and "detail c t = Some d"
  shows "0 < NumPartitions d \<and> NumPartitions d < 2 ^ 31 \<and> 0 < ReplicationFactor d \<and> gomap (ConfigEntries d) \<and>
    cl_Partitions ops c t = Inr (map int [0..<nat (NumPartitions d)]) \<and>
    cl_DescribeConfig ops c t = Inr (ConfigEntries d) \<and>
    (\<exists>rs. cl_DescribeTopics ops c [t] = Inr [rs] \<and> length rs = nat (NumPartitions d) \<and>
       (\<forall>r \<in> set rs. length r = nat (ReplicationFactor d)))"
  using assms unfolding cluster_laws_def by blast

lemma Partitions_laws:
  assumes "cluster_laws ops detail"
  obtains c' where "tm_Partitions ops topic c =
      (c', case detail c topic of None \<Rightarrow> Inl ErrTopicNotFound | Some d \<Rightarrow> Inr (map int [0..<nat (NumPartitions d)]))"
    and "detail c' = detail c"
proof -
  obtain c' where c': "cl_RefreshMetadata ops c = (c', None)" "detail c' = detail c"
    using assms by (cases "cl_RefreshMetadata ops c") (auto simp: cluster_laws_def, metis fst_conv snd_conv)
  obtain ts where ts: "cl_Topics ops c' = Inr ts" "set ts = dom (detail c)"
    using assms c'(2) unfolding cluster_laws_def by metis
  have "cl_Partitions ops c' topic = Inr (map int [0..<nat (NumPartitions d)])" if "detail c topic = Some d" for d
    using laws_detail [OF assms, of c' topic d] c'(2) that by simp
  then have "tm_Partitions ops topic c =
      (c', case detail c topic of None \<Rightarrow> Inl ErrTopicNotFound | Some d \<Rightarrow> Inr (map int [0..<nat (NumPartitions d)]))"
    using c'(1) ts by (auto simp: tm_Partitions_def split: option.split)
  then show ?thesis using that c'(2) by blast
qed

lemma min_replicas_fold:
  assumes "0 < n" and "\<forall>r \<in> set rs. length r = n" and "m = 0 \<and> rs \<noteq> [] \<or> m = n"
  shows "fold (\<lambda>r m. if m = 0 \<or> length r < m then length r else m) rs m = n"
  using assms by (induction rs arbitrary: m) auto

lemma check_config_iff: "check_config cfg config = None \<longleftrightarrow> (\<forall>(k, v) \<in> set config. map_of cfg k = Some v)"
proof (induction cfg config rule: check_config.induct)
  case (2 cfgMap key val config)
  then show ?case by (cases "map_of cfgMap key") auto
qed simp

lemma check_topic_iff:
  assumes "cluster_laws ops detail" and "detail c topic = Some d" and "tmc_MismatchBehavior tmc = TMConfigMismatchBehaviorFail"
  shows "check_topic ops tmc topic rfactor config c = None \<longleftrightarrow>
    ReplicationFactor d = rfactor \<and> (\<forall>(k, v) \<in> set config. map_of (ConfigEntries d) k = Some v)"
proof -
  obtain rs where d: "0 < NumPartitions d" "0 < ReplicationFactor d" "gomap (ConfigEntries d)"
    "cl_DescribeConfig ops c topic = Inr (ConfigEntries d)" "cl_DescribeTopics ops c [topic] = Inr [rs]"
    "length rs = nat (NumPartitions d)" "\<forall>r \<in> set rs. length r = nat (ReplicationFactor d)"
    using laws_detail [OF assms(1,2)] by blast
  have "rs \<noteq> []" using d(1,6) by auto
  then have "getTopicMinReplicas ops topic c = Inr (nat (ReplicationFactor d))"
    using d(2,5,7) min_replicas_fold [of "nat (ReplicationFactor d)" rs 0] by (simp add: getTopicMinReplicas_def)
  moreover have "map_of (map_copy (ConfigEntries d) []) = map_of (ConfigEntries d)" using d(3) by (simp add: map_of_map_copy)
  then have "check_config (map_copy (ConfigEntries d) []) config = None \<longleftrightarrow> (\<forall>(k, v) \<in> set config. map_of (ConfigEntries d) k = Some v)"
    by (simp add: check_config_iff)
  ultimately show ?thesis
    using assms(3) d(2,4) by (auto simp: check_topic_def getTopicConfigMap_def handleConfigMismatch_def split: option.splits)
qed

lemma ensure_absent:
  assumes "cluster_laws ops detail" and "detail c topic = None"
  shows "\<exists>c1. detail c1 = detail c \<and> tm_ensureExists ops tmc topic npar rfactor config c = tm_createTopic ops topic npar rfactor config c1"
proof -
  obtain c1 where "tm_Partitions ops topic c = (c1, Inl ErrTopicNotFound)" "detail c1 = detail c"
    using Partitions_laws [OF assms(1), of topic c] assms(2) by (metis option.case)
  then show ?thesis by (auto simp: tm_ensureExists_def)
qed

lemma ensure_present:
  assumes "cluster_laws ops detail" and "detail c topic = Some d"
  shows "\<exists>c1. detail c1 = detail c \<and> tm_ensureExists ops tmc topic npar rfactor config c =
    (c1, if NumPartitions d \<noteq> npar
         then handleConfigMismatch tmc ''partition count mismatch for topic %s. Need %d, but existing topic has %d''
         else if adminSupported ops then check_topic ops tmc topic rfactor config c1 else None)"
proof -
  obtain c1 where "tm_Partitions ops topic c = (c1, Inr (map int [0..<nat (NumPartitions d)]))" "detail c1 = detail c"
    using Partitions_laws [OF assms(1), of topic c] assms(2) by (metis option.case)
  moreover have "0 < NumPartitions d" using laws_detail [OF assms] by simp
  ultimately show ?thesis by (auto simp: tm_ensureExists_def Let_def)
qed

lemma create_laws:
  assumes "cluster_laws ops detail" and "detail c topic = None" and "gomap config" and "int32 npar" and "int16 rfactor"
    and "tm_createTopic ops topic npar rfactor config c = (c', e)"
  shows "if e = None
    then \<exists>d. detail c' = (detail c)(topic \<mapsto> d) \<and> NumPartitions d = npar \<and> ReplicationFactor d = rfactor \<and>
      (\<forall>(k, v) \<in> set config. map_of (ConfigEntries d) k = Some v)
    else detail c' = detail c"
proof -
  let ?d = "\<lparr>NumPartitions = npar, ReplicationFactor = rfactor, ConfigEntries = map_copy config []\<rparr>"
  have "map_of (ConfigEntries ?d) = map_of config" using assms(3) by (simp add: map_of_map_copy)
  then have cfg: "\<forall>(k, v) \<in> set config. map_of (ConfigEntries d) k = Some v" if "map_of (ConfigEntries ?d) \<subseteq>\<^sub>m map_of (ConfigEntries d)" for d
    using that assms(3) by (auto simp: map_le_def) (metis domI map_of_eq_Some_iff)
  have w: "wrap32 npar = npar" "wrap16 rfactor = rfactor" using wrap32_id [OF assms(4)] wrap16_id [OF assms(5)] .
  obtain e0 where e0: "cl_CreateTopic ops topic ?d c = (c', e0)" "e = None \<longleftrightarrow> e0 = None"
    using assms(6) unfolding tm_createTopic_def w by (cases "cl_CreateTopic ops topic ?d c") auto
  note create = assms(1) [unfolded cluster_laws_def, THEN conjunct2, THEN conjunct2, THEN conjunct2, THEN conjunct2, rule_format, OF assms(2), of ?d]
  show ?thesis
  proof (cases e0)
    case None
    then obtain d where d: "detail c' = (detail c)(topic \<mapsto> d)" "NumPartitions d = npar" "ReplicationFactor d = rfactor"
      "map_of (ConfigEntries ?d) \<subseteq>\<^sub>m map_of (ConfigEntries d)"
      using create e0(1) by auto
    have "\<exists>d. detail c' = (detail c)(topic \<mapsto> d) \<and> NumPartitions d = npar \<and> ReplicationFactor d = rfactor \<and>
        (\<forall>(k, v) \<in> set config. map_of (ConfigEntries d) k = Some v)"
      using d(1-3) cfg [OF d(4)] by (intro exI [of _ d]) blast
    then show ?thesis using e0(2) None by simp
  next
    case (Some err)
    then show ?thesis using create e0 by (simp del: not_None_eq)
  qed
qed

lemma ensure_outcome:
  assumes laws: "cluster_laws ops detail" and config: "gomap config" "int32 npar" "int16 rfactor"
    and fail: "tmc_MismatchBehavior tmc = TMConfigMismatchBehaviorFail" and admin: "adminSupported ops"
    and run: "tm_ensureExists ops tmc topic npar rfactor config c = (c', e)"
  shows "(if e = None
      then \<exists>d. detail c' topic = Some d \<and> NumPartitions d = npar \<and> ReplicationFactor d = rfactor \<and>
             (\<forall>(k, v) \<in> set config. map_of (ConfigEntries d) k = Some v)
      else detail c' = detail c) \<and>
    detail c \<subseteq>\<^sub>m detail c' \<and> (\<forall>t. t \<noteq> topic \<longrightarrow> detail c' t = detail c t)"
proof (cases "detail c topic")
  case None
  then obtain c1 where c1: "detail c1 = detail c" "tm_createTopic ops topic npar rfactor config c1 = (c', e)"
    using ensure_absent [OF laws None, of tmc npar rfactor config] run by auto
  show ?thesis using create_laws [OF laws _ config c1(2)] c1(1) None by (auto simp: map_le_def split: if_splits)
next
  case (Some d)
  then obtain c1 where c1: "detail c1 = detail c" "c' = c1"
    "e = (if NumPartitions d \<noteq> npar
       then handleConfigMismatch tmc ''partition count mismatch for topic %s. Need %d, but existing topic has %d''
       else check_topic ops tmc topic rfactor config c1)"
    using ensure_present [OF laws Some, of tmc npar rfactor config] run admin by auto
  have ok: "e = None \<longrightarrow> NumPartitions d = npar \<and> ReplicationFactor d = rfactor \<and> (\<forall>(k, v) \<in> set config. map_of (ConfigEntries d) k = Some v)"
    using c1 check_topic_iff [OF laws _ fail, of c1 topic d] Some fail by (auto simp: handleConfigMismatch_def split: if_splits)
  have same: "detail c' = detail c" "detail c' topic = Some d" using c1 Some by simp_all
  have "e = None \<longrightarrow> (\<exists>d. detail c' topic = Some d \<and> NumPartitions d = npar \<and> ReplicationFactor d = rfactor \<and>
      (\<forall>(k, v) \<in> set config. map_of (ConfigEntries d) k = Some v))" using same(2) ok by blast
  then show ?thesis unfolding same(1) by (auto simp only: map_le_refl split: if_splits)
qed


text \<open>The topic manager keeps the contract of its interface, if mismatches make it fail.\<close>

lemma topicManager_contract:
  assumes laws: "cluster_laws ops detail" and fail: "tmc_MismatchBehavior tmc = TMConfigMismatchBehaviorFail"
    and admin: "adminSupported ops" and repl: "int16 (tmc_Stream_Replication tmc)" "int16 (tmc_Table_Replication tmc)"
  shows "topic_manager (topicManager ops tmc) (\<lambda>c t. map_option (\<lambda>d. map int [0..<nat (NumPartitions d)]) (detail c t))"
proof -
  let ?parts = "\<lambda>c t. map_option (\<lambda>d. map int [0..<nat (NumPartitions d)]) (detail c t)"
  have ensure: "?parts c' t = Some (map int [0..<length ps]) \<and> ?parts c \<subseteq>\<^sub>m ?parts c'"
    if ps: "?parts c t0 = Some ps" and "gomap config" "int16 rfactor"
      and run: "tm_ensureExists ops tmc t (int (length ps)) rfactor config c = (c', None)" for c t0 ps t c' config rfactor
  proof -
    obtain d where d: "detail c t0 = Some d" "length ps = nat (NumPartitions d)" using ps by auto
    then have "int32 (int (length ps))" using laws_detail [OF laws d(1)] by simp
    from ensure_outcome [OF laws that(2) this that(3) fail admin run] show ?thesis by (auto simp: map_le_def dom_def)
  qed
  show ?thesis
  proof
    fix t c c' r assume "tmi_Partitions (topicManager ops tmc) t c = (c', r)"
    moreover obtain c1 where "tm_Partitions ops t c =
        (c1, case detail c t of None \<Rightarrow> Inl ErrTopicNotFound | Some d \<Rightarrow> Inr (map int [0..<nat (NumPartitions d)]))" "detail c1 = detail c"
      using Partitions_laws [OF laws] by metis
    ultimately show "?parts c' = ?parts c \<and> (\<forall>ps. r = Inr ps \<longrightarrow> ps \<noteq> [] \<and> ?parts c t = Some ps)"
      using laws_detail [OF laws, of c t] by (auto simp: topicManager_def split: option.splits)
  next
    fix c t0 ps t c'
    assume ps: "?parts c t0 = Some ps" and "tmi_EnsureStreamExists (topicManager ops tmc) t (int (length ps)) c = (c', None)"
    then show "?parts c' t = Some (map int [0..<length ps]) \<and> ?parts c \<subseteq>\<^sub>m ?parts c'"
      using repl(1) by (intro ensure [OF ps]) (auto simp: topicManager_def EnsureStreamExists_def)
  next
    fix c t0 ps t c'
    assume ps: "?parts c t0 = Some ps" and "tmi_EnsureTableExists (topicManager ops tmc) t (int (length ps)) c = (c', None)"
    then show "?parts c' t = Some (map int [0..<length ps]) \<and> ?parts c \<subseteq>\<^sub>m ?parts c'"
      using repl(2) by (intro ensure [OF ps]) (auto simp: topicManager_def EnsureTableExists_def)
  next
    fix c
    have "detail (fst (cl_Close ops c)) = detail c" using laws unfolding cluster_laws_def by blast
    then show "?parts (fst (tmi_Close (topicManager ops tmc) c)) = ?parts c"
      by (simp add: topicManager_def tm_Close_def case_prod_unfold)
  qed
qed

section \<open>Samples\<close>

text \<open>A cluster that holds a list of topics.\<close>

definition sample_topics :: "(string \<times> TopicDetail) list \<Rightarrow> (string \<times> TopicDetail) list" where
  "sample_topics c = filter (\<lambda>(t, d). 0 < NumPartitions d \<and> NumPartitions d < 2 ^ 31 \<and> 0 < ReplicationFactor d \<and> gomap (ConfigEntries d)) c"

definition sample_cluster :: "(string \<times> TopicDetail) list cluster" where
  "sample_cluster = \<lparr>cl_RefreshMetadata = (\<lambda>c. (c, None)), cl_Topics = (\<lambda>c. Inr (map fst (sample_topics c))),
     cl_Partitions = (\<lambda>c t. case map_of (sample_topics c) t of None \<Rightarrow> Inl ErrTopicNotFound
       | Some d \<Rightarrow> Inr (map int [0..<nat (NumPartitions d)])),
     cl_GetOffset = (\<lambda>c t p time. Inr 0),
     cl_CreateTopic = (\<lambda>t d c. if sample_topics [(t, d)] = [] then (c, Some (Err ''invalid'')) else ((t, d) # c, None)),
     cl_isAtLeast_0_11 = True,
     cl_DescribeConfig = (\<lambda>c t. case map_of (sample_topics c) t of None \<Rightarrow> Inl ErrTopicNotFound | Some d \<Rightarrow> Inr (ConfigEntries d)),
     cl_DescribeTopics = (\<lambda>c ts. Inr (map (\<lambda>t. case map_of (sample_topics c) t of None \<Rightarrow> []
       | Some d \<Rightarrow> replicate (nat (NumPartitions d)) (replicate (nat (ReplicationFactor d)) 0)) ts)),
     cl_Close = (\<lambda>c. (c, None))\<rparr>"

definition sample_tmc :: TopicManagerConfig where
  "sample_tmc = NewTopicManagerConfig\<lparr>tmc_MismatchBehavior := TMConfigMismatchBehaviorFail\<rparr>"

lemma sample_cluster_laws: "cluster_laws sample_cluster (\<lambda>c. map_of (sample_topics c))"
  unfolding cluster_laws_def
proof (intro conjI allI impI)
  fix c t and d :: TopicDetail assume "map_of (sample_topics c) t = Some d"
  then have "0 < NumPartitions d \<and> NumPartitions d < 2 ^ 31 \<and> 0 < ReplicationFactor d \<and> gomap (ConfigEntries d)"
    by (auto dest!: map_of_SomeD simp: sample_topics_def)
  then show "0 < NumPartitions d" "NumPartitions d < 2 ^ 31" "0 < ReplicationFactor d" "gomap (ConfigEntries d)" by auto
qed (auto simp: sample_cluster_def dom_map_of_conv_image_fst sample_topics_def)


end
