(* ===== verification/Goka_Processor.thy ===== *)
theory Goka_Processor
  imports Goka_Partition_Processor Goka_View Goka_Topic_Manager
begin

text \<open>
  The processor (\<open>processor.go\<close>): the preparation of its topics, the partitions of a session of the
  consumer group, the tables it waits for, and access to the group table.

  \<^item> A processor holds a partition processor for each partition assigned to it, and for the standby
    partitions. The mutex \<open>mTables\<close> protects the map; operations are atomic.
  \<^item> What the builders and the topic manager answer is in the environment \<open>proc_env\<close>. The claims of a
    session are the list of its topics with their partitions, in the order in which Go ranges over them.
  \<^item> Goroutines that run partition processors are run one after the other: they do not share state.
\<close>

section \<open>The processor\<close>

definition ProcStateIdle :: int where "ProcStateIdle = 0"
definition ProcStateStarting :: int where "ProcStateStarting = 1"
definition ProcStateSetup :: int where "ProcStateSetup = 2"
definition ProcStateRunning :: int where "ProcStateRunning = 3"
definition ProcStateStopping :: int where "ProcStateStopping = 4"

type_synonym 's pproc = "('s, 's View) PartitionProcessor"

record 's Processor =
  pr_graph :: "ProcessCallback GroupGraph"
  pr_partitions :: "(int \<times> 's pproc) list"
  pr_lookupTables :: "(string \<times> 's View) list"
  pr_partitionCount :: int
  pr_state :: Signal
  pr_done :: bool
  pr_hotStandby :: bool
  pr_recoverAhead :: bool
  pr_nilHandling :: NilHandling
  pr_producerDefaultHeaders :: Headers

record 's proc_env =
  pe_table :: "'s table_env"
  pe_hasher :: hasher
  pe_backoffErr :: "gerr option"
  pe_Partitions :: "string \<Rightarrow> int list result"
  pe_order :: "string list \<Rightarrow> string list"

definition pr_SetState :: "'s proc_env \<Rightarrow> int \<Rightarrow> 's Processor \<Rightarrow> 's Processor go" where
  "pr_SetState env st g =
     go_bind (Signal_SetState (te_send (pe_table env)) st (pr_state g)) (\<lambda>s. Ret (g\<lparr>pr_state := s\<rparr>))"

subsection \<open>Topics\<close>

fun copartitioned_loop :: "'c TopicManager \<Rightarrow> string list \<Rightarrow> int \<Rightarrow> 'c \<Rightarrow> 'c \<times> int result" where
  "copartitioned_loop tm [] npar c = (c, Inr npar)"
| "copartitioned_loop tm (topic # topics) npar c =
     (case tmi_Partitions tm topic c of
        (c, Inl err) \<Rightarrow> (c, Inl (Wrap ''Error fetching partitions for topic %s: %v'' err))
      | (c, Inr partitions) \<Rightarrow>
          if \<exists>i < length partitions. int i \<noteq> partitions ! i
          then (c, Inl (Err ''Topic %s has partition gap: %v''))
          else let npar = (if npar = 0 then int (length partitions) else npar)
               in if int (length partitions) \<noteq> npar then (c, Inl (Err ''topics are not copartitioned!''))
                  else copartitioned_loop tm topics npar c)"

definition ensureCopartitioned :: "'c TopicManager \<Rightarrow> string list \<Rightarrow> 'c \<Rightarrow> 'c \<times> int result" where
  "ensureCopartitioned tm topics c = copartitioned_loop tm topics 0 c"

text \<open>The checks of \<open>prepareTopics\<close>, and their frame: the builder returns a topic manager, which is closed
  at the end.\<close>

definition prepare_with :: "'c TopicManager \<Rightarrow> 'cb GroupGraph \<Rightarrow> 'c \<Rightarrow> 'c \<times> int result" where
  "prepare_with tm gg c =
     (case ensureCopartitioned tm (Edges_Topics (GroupGraph_copartitioned gg)) c of
        (c, Inl err) \<Rightarrow> (c, Inl err)
      | (c, Inr npar) \<Rightarrow>
          (case (case GroupGraph_LoopStream gg of None \<Rightarrow> (c, None) | Some ls \<Rightarrow> tmi_EnsureStreamExists tm (td_name ls) npar c) of
             (c, Some err) \<Rightarrow> (c, Inl err)
           | (c, None) \<Rightarrow>
               (case (case GroupGraph_GroupTable gg of None \<Rightarrow> (c, None) | Some gt \<Rightarrow> tmi_EnsureTableExists tm (td_name gt) npar c) of
                  (c, Some err) \<Rightarrow> (c, Inl err)
                | (c, None) \<Rightarrow> (c, Inr npar))))"

definition prepareTopics :: "'c TopicManager result \<Rightarrow> 'cb GroupGraph \<Rightarrow> 'c \<Rightarrow> 'c \<times> int result" where
  "prepareTopics topicmgr gg c =
     (case topicmgr of
        Inl err \<Rightarrow> (c, Inl (Wrap ''Error creating topic manager: %v'' err))
      | Inr tm \<Rightarrow>
          (case prepare_with tm gg c of
             (c, r) \<Rightarrow>
               (case tmi_Close tm c of
                  (c, e) \<Rightarrow> (c, case (r, e) of (Inr npar, Some e) \<Rightarrow> Inl (Wrap ''Error closing topic manager: %v'' e) | _ \<Rightarrow> r))))"

subsection \<open>Creation\<close>

text \<open>\<open>newView\<close> stands for the call of \<open>NewView\<close> with the processor's options.\<close>

fun create_lookups :: "(string \<Rightarrow> Codec option \<Rightarrow> 's View result go) \<Rightarrow> topicDef list \<Rightarrow> (string \<times> 's View) list result go" where
  "create_lookups newView [] = Ret (Inr [])"
| "create_lookups newView (t # ts) =
     go_bind (newView (td_name t) (td_codec t)) (\<lambda>r.
       case r of
         Inl err \<Rightarrow> Ret (Inl (Wrap ''error creating view: %v'' err))
       | Inr view \<Rightarrow>
           go_bind (create_lookups newView ts) (\<lambda>r.
             case r of Inl err \<Rightarrow> Ret (Inl err) | Inr vs \<Rightarrow> Ret (Inr (map_copy vs [(td_name t, view)]))))"

definition NewProcessor ::
  "gerr option \<Rightarrow> int result \<Rightarrow> (string \<Rightarrow> Codec option \<Rightarrow> 's View result go) \<Rightarrow> bool \<Rightarrow> bool \<Rightarrow> NilHandling \<Rightarrow> Headers \<Rightarrow>
   ProcessCallback GroupGraph \<Rightarrow> 's Processor result go" where
  "NewProcessor optErr npar newView hotStandby recoverAhead nilHandling defaultHeaders gg =
     (case GroupGraph_Validate gg of Some err \<Rightarrow> Ret (Inl err) | None \<Rightarrow>
      case optErr of Some err \<Rightarrow> Ret (Inl (Wrap ''error applying options: %v'' err)) | None \<Rightarrow>
      case npar of Inl err \<Rightarrow> Ret (Inl err) | Inr n \<Rightarrow>
      go_bind (create_lookups newView (gg_crossTables gg)) (\<lambda>r.
        case r of Inl err \<Rightarrow> Ret (Inl err) | Inr lookups \<Rightarrow>
        go_bind (Signal_SetState (\<lambda>_. True) ProcStateIdle
            (NewSignal [ProcStateIdle, ProcStateStarting, ProcStateSetup, ProcStateRunning, ProcStateStopping])) (\<lambda>state.
          Ret (Inr \<lparr>pr_graph = gg, pr_partitions = [], pr_lookupTables = lookups, pr_partitionCount = n, pr_state = state,
            pr_done = False, pr_hotStandby = hotStandby, pr_recoverAhead = recoverAhead, pr_nilHandling = nilHandling,
            pr_producerDefaultHeaders = defaultHeaders\<rparr>))))"

subsection \<open>Access to the group table\<close>

definition pr_isStateless :: "'s Processor \<Rightarrow> bool" where
  "pr_isStateless g \<longleftrightarrow> GroupGraph_GroupTable (pr_graph g) = None"

definition pr_getPartProc :: "'s Processor \<Rightarrow> int \<Rightarrow> 's pproc option" where
  "pr_getPartProc g partition' = map_of (pr_partitions g) partition'"

definition pr_setPartProc :: "int \<Rightarrow> 's pproc option \<Rightarrow> 's Processor \<Rightarrow> 's Processor" where
  "pr_setPartProc partition' pproc g =
     g\<lparr>pr_partitions := (case pproc of None \<Rightarrow> map_del partition' (pr_partitions g)
                         | Some pp \<Rightarrow> map_put partition' pp (pr_partitions g))\<rparr>"

definition pr_hash :: "hasher \<Rightarrow> 's Processor \<Rightarrow> string \<Rightarrow> int result go" where
  "pr_hash hasher g key = hash_partition (Err ''can't hash with 0 partitions'') hasher (pr_partitionCount g) key"

text \<open>The storage of the partition: reading the nil table panics.\<close>

definition pr_find :: "hasher \<Rightarrow> 's Processor \<Rightarrow> string \<Rightarrow> 's storageProxy option result go" where
  "pr_find hasher g key =
     go_bind (pr_hash hasher g key) (\<lambda>r.
       case r of
         Inl err \<Rightarrow> Ret (Inl err)
       | Inr p \<Rightarrow>
           (case pr_getPartProc g p of
              None \<Rightarrow> Ret (Inl (Err ''this processor does not contain partition %v''))
            | Some pproc \<Rightarrow>
                (case pp_table pproc of None \<Rightarrow> nil_deref | Some t \<Rightarrow> Ret (Inr (pt_st t)))))"

definition pr_Get :: "'s storage_ops \<Rightarrow> hasher \<Rightarrow> 's Processor \<Rightarrow> string \<Rightarrow> gval result go" where
  "pr_Get ops hasher g key =
     (case GroupGraph_GroupTable (pr_graph g) of
        None \<Rightarrow> Ret (Inl (Err ''can't get a value from stateless processor''))
      | Some gt \<Rightarrow>
          go_bind (pr_find hasher g key) (\<lambda>r.
            case r of
              Inl err \<Rightarrow> Ret (Inl err)
            | Inr None \<Rightarrow> nil_deref
            | Inr (Some px) \<Rightarrow>
                (case st_Get ops (px_Storage px) key of
                   Inl err \<Rightarrow> Ret (Inl (Wrap ''error getting %s: %v'' err))
                 | Inr None \<Rightarrow> Ret (Inr VNil)
                 | Inr (Some data) \<Rightarrow>
                     (case td_codec gt of
                        None \<Rightarrow> nil_deref
                      | Some c \<Rightarrow>
                          (case codec_Decode c (Some data) of
                             Inl err \<Rightarrow> Ret (Inl (Wrap ''error decoding %s: %v'' err))
                           | Inr v \<Rightarrow> Ret (Inr v))))))"

section \<open>Sessions\<close>

fun findStateful_loop :: "(string \<Rightarrow> int list result) \<Rightarrow> topicDef list \<Rightarrow> int list result \<Rightarrow> int list result" where
  "findStateful_loop Partitions [] last' = last'"
| "findStateful_loop Partitions (e # es) last' =
     (case Partitions (td_name e) of
        Inl err \<Rightarrow> if err \<noteq> ErrTopicNotFound then Inl err else findStateful_loop Partitions es (Inl err)
      | Inr allPartitions \<Rightarrow>
          if 0 < length allPartitions then Inr allPartitions else findStateful_loop Partitions es (Inr allPartitions))"

text \<open>The loop keeps the error of the last topic it has looked at, also when that is the error for a
  topic that does not exist.\<close>

definition pr_findStatefulPartitions :: "'s proc_env \<Rightarrow> 's Processor \<Rightarrow> int list result" where
  "pr_findStatefulPartitions env g =
     findStateful_loop (pe_Partitions env) (chainEdges [gg_groupTable (pr_graph g), gg_inputTables (pr_graph g)]) (Inr [])"

definition pr_Recovered :: "'s Processor \<Rightarrow> bool" where
  "pr_Recovered g = Signal_IsState (pr_state g) ProcStateRunning"

text \<open>An assignment is nil before the first claim.\<close>

type_synonym Assignment = "(int \<times> int) list"

fun assignment_loop :: "int list list \<Rightarrow> Assignment option \<Rightarrow> Assignment option result" where
  "assignment_loop [] assignment = Inr assignment"
| "assignment_loop (claim # claims) assignment =
     (case assignment of
        None \<Rightarrow> assignment_loop claims (Some (fold (\<lambda>part. map_put part OffsetNewest) claim []))
      | Some a \<Rightarrow>
          if length claim \<noteq> length a then Inl (Err ''session claims are not copartitioned: %#v'')
          else if \<exists>part \<in> set claim. map_of a part = None
          then Inl (Err ''session claims are not copartitioned: %#v'')
          else assignment_loop claims assignment)"

definition pr_assignmentFromSession :: "(string \<times> int list) list \<Rightarrow> Assignment option result" where
  "pr_assignmentFromSession claims = assignment_loop (map snd claims) None"

definition pr_createPartitionProcessor ::
  "'s proc_env \<Rightarrow> int \<Rightarrow> PPRunMode \<Rightarrow> 's Processor \<Rightarrow> 's pproc result go" where
  "pr_createPartitionProcessor env partition' runMode g =
     (if pr_getPartProc g partition' \<noteq> None then Ret (Inl (Err ''processor [%s]: partition %d already exists''))
      else case pe_backoffErr env of
        Some err \<Rightarrow> Ret (Inl (Wrap ''processor [%s]: could not build backoff handler: %v'' err))
      | None \<Rightarrow>
          go_bind (newPartitionProcessor (pe_order env) (te_now (pe_table env)) partition' (pr_graph g)
              (pr_nilHandling g) (pr_producerDefaultHeaders g) runMode (Some (map_of (pr_lookupTables g)))) (\<lambda>pp.
            Ret (Inr pp)))"

fun pr_createActive :: "'s proc_env \<Rightarrow> int list \<Rightarrow> 's Processor \<Rightarrow> ('s Processor \<times> gerr option) go" where
  "pr_createActive env [] g = Ret (g, None)"
| "pr_createActive env (p # ps) g =
     go_bind (pr_createPartitionProcessor env p runModeActive g) (\<lambda>r.
       case r of
         Inl err \<Rightarrow> Ret (g, Some (Wrap ''Error creating partition processor for %s/%d: %v'' err))
       | Inr pproc \<Rightarrow> pr_createActive env ps (pr_setPartProc p (Some pproc) g))"

fun pr_createStandby :: "'s proc_env \<Rightarrow> int list \<Rightarrow> 's Processor \<Rightarrow> ('s Processor \<times> gerr option) go" where
  "pr_createStandby env [] g = Ret (g, None)"
| "pr_createStandby env (p # ps) g =
     (if pr_getPartProc g p \<noteq> None then pr_createStandby env ps g
      else go_bind (pr_createPartitionProcessor env p runModePassive g) (\<lambda>r.
        case r of
          Inl err \<Rightarrow> Ret (g, Some (Wrap ''Error creating partition processor for %s/%d: %v'' err))
        | Inr pproc \<Rightarrow> pr_createStandby env ps (pr_setPartProc p (Some pproc) g)))"

text \<open>Starting the partition processors; \<open>ctxDone\<close> and \<open>done\<close> say what each of them sees of the context.\<close>

fun pr_startAll ::
  "'s table_env \<Rightarrow> (int \<Rightarrow> string \<Rightarrow> bool \<times> bool) \<Rightarrow> (int \<Rightarrow> bool) \<Rightarrow> (int \<times> 's pproc) list \<Rightarrow>
   ((int \<times> 's pproc) list \<times> gerr option list) option go" where
  "pr_startAll env ctxDone done' [] = Ret (Some ([], []))"
| "pr_startAll env ctxDone done' ((p, pproc) # pps) =
     go_bind (pp_Start env (ctxDone p) (done' p) pproc) (\<lambda>r.
       case r of
         None \<Rightarrow> Ret None
       | Some (pproc, e) \<Rightarrow>
           go_bind (pr_startAll env ctxDone done' pps) (\<lambda>r.
             Ret (map_option (\<lambda>(pps, es). ((p, pproc) # pps, e # es)) r)))"

text \<open>The part of Setup between setting the states.\<close>

definition pr_setupPartitions ::
  "'s proc_env \<Rightarrow> (string \<times> int list) list \<Rightarrow> 's Processor \<Rightarrow> ('s Processor \<times> gerr option) go" where
  "pr_setupPartitions env claims g =
     (case pr_assignmentFromSession claims of
        Inl err \<Rightarrow> Ret (g, Some (Wrap ''Error verifying assignment from session: %v'' err))
      | Inr assignment \<Rightarrow>
          go_bind (pr_createActive env (map fst (case assignment of None \<Rightarrow> [] | Some a \<Rightarrow> a)) g) (\<lambda>(g, e).
            if e \<noteq> None \<or> \<not> pr_hotStandby g then Ret (g, e)
            else case pr_findStatefulPartitions env g of
                   Inl err \<Rightarrow> Ret (g, Some (Err ''Error finding partitions for standby''))
                 | Inr allPartitions \<Rightarrow> pr_createStandby env allPartitions g))"

definition pr_Setup ::
  "'s proc_env \<Rightarrow> (int \<Rightarrow> string \<Rightarrow> bool \<times> bool) \<Rightarrow> (int \<Rightarrow> bool) \<Rightarrow> (string \<times> int list) list \<Rightarrow> 's Processor \<Rightarrow>
   ('s Processor \<times> gerr option) option go" where
  "pr_Setup env ctxDone done' claims g =
     go_bind (pr_SetState env ProcStateSetup g) (\<lambda>g.
     go_bind (pr_setupPartitions env claims g) (\<lambda>(g, e).
       if e \<noteq> None then go_bind (pr_SetState env ProcStateRunning g) (\<lambda>g. Ret (Some (g, e)))
       else go_bind (pr_startAll (pe_table env) ctxDone done' (pr_partitions g)) (\<lambda>r.
         case r of
           None \<Rightarrow> Ret None
         | Some (pps, es) \<Rightarrow>
             go_bind (pr_SetState env ProcStateRunning (g\<lparr>pr_partitions := pps\<rparr>)) (\<lambda>g.
               Ret (Some (g, Errors_NilOrError (snd (ErrGroup_Wait es NewErrGroup))))))))"

text \<open>\<open>rs\<close> are the results of the runners of each partition.\<close>

fun pr_stopAll ::
  "'s table_env \<Rightarrow> (int \<Rightarrow> gerr option list) \<Rightarrow> (int \<times> 's pproc) list \<Rightarrow> gerr option list go" where
  "pr_stopAll env rs [] = Ret []"
| "pr_stopAll env rs ((p, pproc) # pps) =
     go_bind (pp_Stop env (rs p) pproc) (\<lambda>(pproc, e).
     go_bind (pr_stopAll env rs pps) (\<lambda>es.
       Ret (map_option (Wrap ''error stopping partition processor %d: %v'') e # es)))"

definition pr_Cleanup ::
  "'s proc_env \<Rightarrow> (int \<Rightarrow> gerr option list) \<Rightarrow> 's Processor \<Rightarrow> ('s Processor \<times> gerr option) go" where
  "pr_Cleanup env rs g =
     go_bind (pr_SetState env ProcStateStopping g) (\<lambda>g.
     go_bind (pr_stopAll (pe_table env) rs (pr_partitions g)) (\<lambda>es.
     go_bind (pr_SetState env ProcStateIdle (g\<lparr>pr_partitions := []\<rparr>)) (\<lambda>g.
       Ret (g, Errors_NilOrError (snd (ErrGroup_Wait es NewErrGroup))))))"

text \<open>What a claim's loop meets: a message with, if the input channel does not take it, the error that
  ends the partition processor (\<open>None\<close>: closed); the end of the messages; or such an error.\<close>

datatype claim_event = ClaimMessage ConsumerMessage "gerr option option" | ClaimClosed | ClaimErrors "gerr option"

fun claim_loop :: "claim_event list \<Rightarrow> ConsumerMessage list \<Rightarrow> (ConsumerMessage list \<times> gerr option) option" where
  "claim_loop [] input = None"
| "claim_loop (ClaimMessage msg None # evs) input = claim_loop evs (input @ [msg])"
| "claim_loop (ClaimMessage msg (Some err) # evs) input = Some (input, map_option ErrProcessing err)"
| "claim_loop (ClaimClosed # evs) input = Some (input, None)"
| "claim_loop (ClaimErrors err # evs) input = Some (input, map_option ErrProcessing err)"

definition pr_ConsumeClaim ::
  "int \<Rightarrow> claim_event list \<Rightarrow> 's Processor \<Rightarrow> (ConsumerMessage list \<times> gerr option) option" where
  "pr_ConsumeClaim partition' evs g =
     (if pr_getPartProc g partition' = None
      then Some ([], Some (Err ''No partition (%d) to handle input in topic %s''))
      else claim_loop evs [])"

definition pr_StatsWithContext ::
  "('s pproc \<Rightarrow> PartitionProcStats option) \<Rightarrow> ('s PartitionTable \<Rightarrow> TableStats option) \<Rightarrow> 's Processor \<Rightarrow> ProcessorStats" where
  "pr_StatsWithContext fetch fetchTable g =
     newProcessorStats\<lparr>prs_Group := map (\<lambda>(p, pproc). (p, fetch pproc)) (pr_partitions g),
       prs_Lookup := map (\<lambda>(t, view). (t, View_statsWithContext fetchTable view)) (pr_lookupTables g)\<rparr>"

section \<open>Starting up and running\<close>

text \<open>Recovering ahead: each partition processor is started in the mode that only recovers, and stopped.
  The outcome is the error that ends the loop, or the results of the goroutines.\<close>

fun recover_ahead ::
  "'s proc_env \<Rightarrow> (int \<Rightarrow> string \<Rightarrow> bool \<times> bool) \<Rightarrow> (int \<Rightarrow> bool) \<Rightarrow> (int \<Rightarrow> gerr option list) \<Rightarrow> int list \<Rightarrow> 's Processor \<Rightarrow>
   gerr option list result option go" where
  "recover_ahead env ctxDone done' rs [] g = Ret (Some (Inr []))"
| "recover_ahead env ctxDone done' rs (p # ps) g =
     go_bind (pr_createPartitionProcessor env p runModeRecoverOnly g) (\<lambda>r.
       case r of
         Inl err \<Rightarrow> Ret (Some (Inl (Wrap ''Error creating partition processor for recover-ahead %s/%d: %v'' err)))
       | Inr pproc \<Rightarrow>
           go_bind (pp_Start (pe_table env) (ctxDone p) (done' p) pproc) (\<lambda>r.
             case r of
               None \<Rightarrow> Ret None
             | Some (pproc, e) \<Rightarrow>
                 go_bind (if e \<noteq> None then Ret e
                          else go_bind (pp_Stop (pe_table env) (rs p) pproc) (\<lambda>(pproc, e). Ret e)) (\<lambda>e.
                 go_bind (recover_ahead env ctxDone done' rs ps g) (\<lambda>r.
                   Ret (map_option (map_sum id ((#) e)) r)))))"

text \<open>What ends the wait: the context, or the error group.\<close>

datatype wait_end = WaitContext | WaitGroupDone

definition pr_waitForStartupTables ::
  "'s proc_env \<Rightarrow> (int \<Rightarrow> string \<Rightarrow> bool \<times> bool) \<Rightarrow> (int \<Rightarrow> bool) \<Rightarrow> (int \<Rightarrow> gerr option list) \<Rightarrow> wait_end \<Rightarrow> 's Processor \<Rightarrow>
   gerr option option go" where
  "pr_waitForStartupTables env ctxDone done' rs ended g =
     go_bind (if pr_recoverAhead g
              then (case pr_findStatefulPartitions env g of
                      Inl err \<Rightarrow> Ret (Some (Inl (Wrap ''error finding dependent partitions: %w'' err)))
                    | Inr partitions \<Rightarrow> recover_ahead env ctxDone done' rs partitions g)
              else Ret (Some (Inr []))) (\<lambda>r.
       case r of
         None \<Rightarrow> Ret (case ended of
             WaitContext \<Rightarrow> Some (Some (Err ''context closed while waiting for startup tables to become ready''))
           | WaitGroupDone \<Rightarrow> None)
       | Some (Inl err) \<Rightarrow> Ret (Some (Some err))
       | Some (Inr es) \<Rightarrow>
           Ret (Some (case ended of
             WaitContext \<Rightarrow> Some (Err ''context closed while waiting for startup tables to become ready'')
           | WaitGroupDone \<Rightarrow>
               map_option (\<lambda>e. Multi (errs e)) (ErrGroup_WaitChan (map (\<lambda>_. None) (pr_lookupTables g) @ es) NewErrGroup))))"

text \<open>The rebalance loop: the consumer group's \<open>Consume\<close> returns, or the context is closed first.\<close>

datatype rebalance_event = Consumed "gerr option" | ContextDone "gerr option"

fun rebalance_loop :: "rebalance_event list \<Rightarrow> Errors \<Rightarrow> Errors option" where
  "rebalance_loop [] es = None"
| "rebalance_loop (Consumed (Some err) # evs) es = Some (Errors_Collect es (Some err))"
| "rebalance_loop (Consumed None # evs) es = rebalance_loop evs es"
| "rebalance_loop (ContextDone err # evs) es = Some (Errors_Collect es err)"

definition pr_rebalanceLoop :: "rebalance_event list \<Rightarrow> gerr option \<Rightarrow> gerr option option" where
  "pr_rebalanceLoop evs closeErr =
     map_option (\<lambda>es. Errors_NilOrError (Errors_Collect es closeErr)) (rebalance_loop evs newErrors)"

text \<open>\<open>errors.As\<close> for the error of a callback: it follows the chain of the errors wrapped with \<open>%w\<close>.\<close>

fun has_verb_w :: "string \<Rightarrow> bool" where
  "has_verb_w [] = False"
| "has_verb_w (c # cs) = (c = CHR 0x25 \<and> take 1 cs = ''w'' \<or> has_verb_w cs)"

fun as_errProcessing :: "gerr \<Rightarrow> gerr option" where
  "as_errProcessing (ErrProcessing e) = Some (ErrProcessing e)"
| "as_errProcessing (Wrap format e) = (if has_verb_w format then as_errProcessing e else None)"
| "as_errProcessing _ = None"

text \<open>The goroutine that watches the errors of the consumer group: an error arrives, the channel is closed,
  or the context is done; then the channel is drained and found closed.\<close>

datatype cg_event = CgError gerr | CgClosed | CgContextDone "gerr list"

fun watch_loop :: "cg_event list \<Rightarrow> gerr option option" where
  "watch_loop [] = None"
| "watch_loop (CgError err # evs) =
     (case as_errProcessing err of Some cbErr \<Rightarrow> Some (Some cbErr) | None \<Rightarrow> watch_loop evs)"
| "watch_loop (CgClosed # evs) = Some None"
| "watch_loop (CgContextDone drained # evs) = Some None"

text \<open>The goroutines of Run: the one that watches the consumer group, one for each lookup table with the
  result of the view's Run, and the rebalance loop.\<close>

datatype run_task =
  TaskWatch "cg_event list" | TaskLookup string "gerr option" | TaskRebalance "rebalance_event list" "gerr option"

fun task_result :: "run_task \<Rightarrow> gerr option option" where
  "task_result (TaskWatch evs) = watch_loop evs"
| "task_result (TaskLookup topic res) = Some (map_option (Wrap ''error running lookup table %s: %v'') res)"
| "task_result (TaskRebalance evs closeErr) = pr_rebalanceLoop evs closeErr"

text \<open>The builders' errors, the result of waiting for the startup tables, which Run ignores, and the
  goroutines in the order in which they return. Run has not returned (\<open>None\<close>) as long as it waits for one
  of them.\<close>

record run_params =
  rp_consumerGroup :: "gerr option"
  rp_consumer :: "gerr option"
  rp_topicmgr :: "gerr option"
  rp_producer :: "gerr option"
  rp_producerClose :: "gerr option"
  rp_startup :: "gerr option option"
  rp_tasks :: "run_task list"

definition pr_Run :: "'s proc_env \<Rightarrow> run_params \<Rightarrow> 's Processor \<Rightarrow> ('s Processor \<times> gerr option) option go" where
  "pr_Run env rp g =
     (if pr_done g then Ret (Some (g, Some (Err ''error running processor: it was already run and terminated. Run can only be called once'')))
      else go_bind (pr_SetState env ProcStateStarting g) (\<lambda>g.
        let g = g\<lparr>pr_done := True\<rparr>;
            leave = (\<lambda>es rerr. Ret (Some (g, Errors_NilOrError (Errors_Collect es rerr))))
        in case rp_consumerGroup rp of Some err \<Rightarrow> leave newErrors (Some (Wrap ''error creating Kafka consumer: %v'' err)) | None \<Rightarrow>
           case rp_consumer rp of Some err \<Rightarrow> leave newErrors (Some (Wrap ''Error creating consumer for brokers [%s]: %v'' err)) | None \<Rightarrow>
           case rp_topicmgr rp of Some err \<Rightarrow> leave newErrors (Some (Wrap ''Error creating topic manager for brokers [%s]: %v'' err)) | None \<Rightarrow>
           case rp_producer rp of Some err \<Rightarrow> leave newErrors (Some (Wrap ''error creating Kafka producer: %v'' err)) | None \<Rightarrow>
           if rp_startup rp = None \<or> (\<exists>t \<in> set (rp_tasks rp). task_result t = None) then Ret None
           else leave (Errors_Collect newErrors (map_option (Wrap ''error closing producer: %v'') (rp_producerClose rp)))
             (Errors_NilOrError (snd (ErrGroup_Wait (map (the \<circ> task_result) (rp_tasks rp)) NewErrGroup)))))"

section \<open>The topics of a processor\<close>

context topic_manager
begin

lemma copartitioned_ok:
  assumes "copartitioned_loop tm topics npar c = (c', Inr n)" and "npar \<noteq> 0 \<or> topics \<noteq> []"
  shows "parts c' = parts c \<and> (if npar = 0 then 0 < n else n = npar) \<and> (\<forall>t \<in> set topics. parts c t = Some (map int [0..<nat n]))"
  using assms
proof (induction topics arbitrary: npar c)
  case (Cons t ts)
  obtain c1 ps where ps: "tmi_Partitions tm t c = (c1, Inr ps)"
    using Cons.prems(1) by (auto split: prod.splits sum.splits)
  have p: "parts c1 = parts c" "ps \<noteq> []" "parts c t = Some ps" using partitions [OF ps] by auto
  have gapless: "\<forall>i < length ps. int i = ps ! i" using Cons.prems(1) ps by (auto split: if_splits)
  then have eq: "ps = map int [0..<length ps]" by (intro nth_equalityI) simp_all
  have len: "npar \<noteq> 0 \<longrightarrow> npar = int (length ps)" and rest: "copartitioned_loop tm ts (int (length ps)) c1 = (c', Inr n)"
    using Cons.prems(1) ps gapless by (auto simp: Let_def split: if_splits)
  have "parts c' = parts c \<and> n = int (length ps) \<and> (\<forall>t \<in> set ts. parts c t = Some (map int [0..<nat n]))"
    using Cons.IH [OF rest] p(1,2) by simp
  then show ?case using p(2,3) eq len by auto
qed simp

lemma prepared_with:
  assumes "prepare_with tm gg c = (c', Inr n)" and ne: "Edges_Topics (GroupGraph_copartitioned gg) \<noteq> []"
  shows "(\<forall>t \<in> set (Edges_Topics (GroupGraph_copartitioned gg)). parts c' t = Some (map int [0..<nat n])) \<and>
    (\<forall>l. GroupGraph_LoopStream gg = Some l \<longrightarrow> parts c' (td_name l) = Some (map int [0..<nat n])) \<and>
    (\<forall>t. GroupGraph_GroupTable gg = Some t \<longrightarrow> parts c' (td_name t) = Some (map int [0..<nat n])) \<and> parts c \<subseteq>\<^sub>m parts c'"
proof -
  let ?topics = "Edges_Topics (GroupGraph_copartitioned gg)"
  obtain c1 c2 where c1: "copartitioned_loop tm ?topics 0 c = (c1, Inr n)"
    and c2: "(case GroupGraph_LoopStream gg of None \<Rightarrow> (c1, None) | Some ls \<Rightarrow> tmi_EnsureStreamExists tm (td_name ls) n c1) = (c2, None)"
    and c3: "(case GroupGraph_GroupTable gg of None \<Rightarrow> (c2, None) | Some gt \<Rightarrow> tmi_EnsureTableExists tm (td_name gt) n c2) = (c', None)"
    using assms(1) unfolding prepare_with_def ensureCopartitioned_def
    by (auto split: prod.split_asm sum.split_asm option.split_asm)
  have p1: "parts c1 = parts c" "\<forall>t \<in> set ?topics. parts c t = Some (map int [0..<nat n])" "0 < n"
    using copartitioned_ok [OF c1] ne by simp_all
  have n: "n = int (length (map int [0..<nat n]))" using p1(3) by simp
  obtain t0 where t0: "t0 \<in> set ?topics" using ne hd_in_set by blast
  have t1: "parts c1 t0 = Some (map int [0..<nat n])" using p1 t0 by simp
  have p2: "(\<forall>l. GroupGraph_LoopStream gg = Some l \<longrightarrow> parts c2 (td_name l) = Some (map int [0..<nat n])) \<and> parts c1 \<subseteq>\<^sub>m parts c2"
    using c2 stream [OF t1, folded n] by (auto split: option.splits)
  then have t2: "parts c2 t0 = Some (map int [0..<nat n])" using t1 by (auto simp: map_le_def dom_def)
  have p3: "(\<forall>t. GroupGraph_GroupTable gg = Some t \<longrightarrow> parts c' (td_name t) = Some (map int [0..<nat n])) \<and> parts c2 \<subseteq>\<^sub>m parts c'"
    using c3 table [OF t2, folded n] by (auto split: option.splits)
  have "parts c' t = Some ps" if "parts c2 t = Some ps" for t ps using p3 that by (metis domI map_le_def)
  then show ?thesis using p1(1,2) p2 p3 by (auto simp: map_le_def dom_def)
qed

text \<open>A processor runs on copartitioned topics only: if the checks succeed with a number of partitions, then
  every topic that has to be copartitioned, the loop topic and the table topic have exactly the partitions from
  zero to that number.\<close>

lemma prepared_topics:
  assumes "prepareTopics (Inr tm) gg c = (c', Inr n)" and "Edges_Topics (GroupGraph_copartitioned gg) \<noteq> []"
  shows "(\<forall>t \<in> set (Edges_Topics (GroupGraph_copartitioned gg)). parts c' t = Some (map int [0..<nat n])) \<and>
    (\<forall>l. GroupGraph_LoopStream gg = Some l \<longrightarrow> parts c' (td_name l) = Some (map int [0..<nat n])) \<and>
    (\<forall>t. GroupGraph_GroupTable gg = Some t \<longrightarrow> parts c' (td_name t) = Some (map int [0..<nat n])) \<and> parts c \<subseteq>\<^sub>m parts c'"
proof -
  obtain c1 where c1: "prepare_with tm gg c = (c1, Inr n)" and "c' = fst (tmi_Close tm c1)"
    using assms(1) by (auto simp: prepareTopics_def split: prod.splits sum.splits option.splits)
  then have "parts c' = parts c1" by (simp add: close)
  then show ?thesis using prepared_with [OF c1 assms(2)] by simp
qed

end

section \<open>Assignments\<close>

lemma assignment_some:
  assumes "gomap a" and "\<forall>c \<in> set cs. distinct c"
  shows "assignment_loop cs (Some a) =
    (if \<forall>c \<in> set cs. set c = fst ` set a then Inr (Some a) else Inl (Err ''session claims are not copartitioned: %#v''))"
  using assms(2)
proof (induction cs)
  case (Cons c cs)
  have keys: "card (fst ` set a) = length a" using assms(1) by (metis distinct_card length_map set_map)
  have "length c = length a \<and> \<not> (\<exists>p \<in> set c. map_of a p = None) \<longleftrightarrow> set c = fst ` set a"
  proof
    assume c: "length c = length a \<and> \<not> (\<exists>p \<in> set c. map_of a p = None)"
    then have "set c \<subseteq> fst ` set a" by (auto simp: map_of_eq_None_iff)
    then show "set c = fst ` set a" using c keys Cons.prems distinct_card [of c] by (intro card_subset_eq) auto
  next
    assume "set c = fst ` set a"
    then show "length c = length a \<and> \<not> (\<exists>p \<in> set c. map_of a p = None)"
      using keys Cons.prems distinct_card [of c] by (auto simp: map_of_eq_None_iff)
  qed
  then have "length c \<noteq> length a \<or> (\<exists>p \<in> set c. map_of a p = None) \<longleftrightarrow> set c \<noteq> fst ` set a" by blast
  then have "assignment_loop (c # cs) (Some a) =
      (if set c \<noteq> fst ` set a then Inl (Err ''session claims are not copartitioned: %#v'') else assignment_loop cs (Some a))"
    by (cases "length c = length a") (simp_all split del: if_split)
  then show ?case using Cons.IH Cons.prems by simp
qed simp

lemma first_claim:
  fixes c :: "int list"
  assumes "distinct c"
  shows "gomap (fold (\<lambda>p. map_put p OffsetNewest) c [])" and "fst ` set (fold (\<lambda>p. map_put p OffsetNewest) c []) = set c"
    and "snd ` set (fold (\<lambda>p. map_put p OffsetNewest) c []) \<subseteq> {OffsetNewest}"
proof -
  have "gomap (fold (\<lambda>p. map_put p OffsetNewest) c a) \<and> fst ` set (fold (\<lambda>p. map_put p OffsetNewest) c a) = fst ` set a \<union> set c \<and>
      snd ` set (fold (\<lambda>p. map_put p OffsetNewest) c a) \<subseteq> snd ` set a \<union> {OffsetNewest}"
    if "gomap a" for a :: Assignment
    using that
  proof (induction c arbitrary: a)
    case (Cons p c)
    have "snd ` set (map_put p OffsetNewest a) \<subseteq> snd ` set a \<union> {OffsetNewest}"
      by (induction p OffsetNewest a rule: map_put.induct) auto
    then have "snd ` set (map_put p OffsetNewest a) \<union> {OffsetNewest} \<subseteq> snd ` set a \<union> {OffsetNewest}" by blast
    from subset_trans [OF _ this] show ?case using Cons.IH [of "map_put p OffsetNewest a"] Cons.prems by simp
  qed auto
  from this [of "[]"] show "gomap (fold (\<lambda>p. map_put p OffsetNewest) c [])"
    and "fst ` set (fold (\<lambda>p. map_put p OffsetNewest) c []) = set c"
    and "snd ` set (fold (\<lambda>p. map_put p OffsetNewest) c []) \<subseteq> {OffsetNewest}" by simp_all
qed

text \<open>An assignment is exactly what every topic claims. For a session whose claims list no partition
  twice, in whatever order its topics are visited, the assignment succeeds precisely if all topics claim
  the same partitions; it then consists of these partitions, each with the newest offset.\<close>

lemma assignment_is_copartitioned:
  assumes "claims \<noteq> []" and "\<forall>c \<in> set claims. distinct (snd c)"
  shows "case pr_assignmentFromSession claims of
      Inl err \<Rightarrow> \<exists>c d. c \<in> set claims \<and> d \<in> set claims \<and> set (snd c) \<noteq> set (snd d)
    | Inr None \<Rightarrow> False
    | Inr (Some a) \<Rightarrow> gomap a \<and> snd ` set a \<subseteq> {OffsetNewest} \<and> (\<forall>c \<in> set claims. set (snd c) = fst ` set a)"
proof -
  obtain c cs where c: "claims = c # cs" using assms(1) by (cases claims) auto
  have d: "distinct (snd c)" "\<forall>c \<in> set (map snd cs). distinct c" using assms(2) c by simp_all
  note first = first_claim [OF d(1)]
  show ?thesis
  proof (cases "\<forall>d \<in> set cs. set (snd d) = set (snd c)")
    case True
    then show ?thesis using assignment_some [OF first(1) d(2)] first c by (simp add: pr_assignmentFromSession_def)
  next
    case False
    then obtain d where "d \<in> set cs" "set (snd d) \<noteq> set (snd c)" by blast
    then have "\<exists>c d. c \<in> set claims \<and> d \<in> set claims \<and> set (snd c) \<noteq> set (snd d)"
      using c by (intro exI [of _ d] exI [of _ c]) simp
    moreover have "\<not> (\<forall>d \<in> set (map snd cs). set d = fst ` set (fold (\<lambda>p. map_put p OffsetNewest) (snd c) []))"
      using False first(2) by auto
    then have "pr_assignmentFromSession claims = Inl (Err ''session claims are not copartitioned: %#v'')"
      using assignment_some [OF first(1) d(2)] c unfolding pr_assignmentFromSession_def by (simp del: ball_simps)
    ultimately show ?thesis by simp
  qed
qed

section \<open>The partitions of a session\<close>

lemma newPartitionProcessor_fields:
  "newPartitionProcessor order now p gg nh hs runMode lookups = Ret pp \<Longrightarrow>
    pp_partition pp = p \<and> pp_runMode pp = runMode"
  by (auto simp: newPartitionProcessor_def Let_def go_bind_eq_Ret split: prod.splits)

lemma createPartitionProcessor_fields:
  "pr_createPartitionProcessor env p runMode g = Ret (Inr pp) \<Longrightarrow>
    pr_getPartProc g p = None \<and> pp_partition pp = p \<and> pp_runMode pp = runMode"
  by (auto simp: pr_createPartitionProcessor_def go_bind_eq_Ret dest: newPartitionProcessor_fields
      split: if_splits option.splits)

text \<open>The partition processors of a processor: each under its own number, those of the assignment \<open>A\<close>
  active and the others passive.\<close>

definition parts_ok :: "int set \<Rightarrow> (int \<times> 's pproc) list \<Rightarrow> bool" where
  "parts_ok A pps \<longleftrightarrow> gomap pps \<and> (\<forall>(p, pp) \<in> set pps. pp_partition pp = p \<and>
     pp_runMode pp = (if p \<in> A then runModeActive else runModePassive))"

lemma parts_ok_put:
  assumes "parts_ok A pps" and "pp_partition pp = p" and "pp_runMode pp = (if p \<in> A then runModeActive else runModePassive)"
  shows "parts_ok A (map_put p pp pps)"
proof -
  have "set (map_put p pp pps) \<subseteq> insert (p, pp) (set pps)" by (induction p pp pps rule: map_put.induct) auto
  then show ?thesis using assms unfolding parts_ok_def by auto
qed

lemma createActive_ok:
  assumes "pr_createActive env ps g = Ret (g', None)" and "parts_ok A (pr_partitions g)" and "set ps \<subseteq> A"
  shows "parts_ok A (pr_partitions g') \<and> fst ` set (pr_partitions g') = fst ` set (pr_partitions g) \<union> set ps \<and>
    pr_hotStandby g' = pr_hotStandby g \<and> pr_graph g' = pr_graph g"
  using assms
proof (induction ps arbitrary: g)
  case (Cons p ps)
  obtain pp where pp: "pr_createPartitionProcessor env p runModeActive g = Ret (Inr pp)"
    "pr_createActive env ps (pr_setPartProc p (Some pp) g) = Ret (g', None)"
    using Cons.prems(1) by (auto simp: go_bind_result_Ret)
  have "parts_ok A (map_put p pp (pr_partitions g))"
    using createPartitionProcessor_fields [OF pp(1)] Cons.prems by (intro parts_ok_put) auto
  with Cons.IH [OF pp(2)] Cons.prems(3) show ?case by (simp add: pr_setPartProc_def)
qed simp

lemma createStandby_ok:
  assumes "pr_createStandby env ps g = Ret (g', None)" and "parts_ok A (pr_partitions g)" and "A \<subseteq> fst ` set (pr_partitions g)"
  shows "parts_ok A (pr_partitions g') \<and> fst ` set (pr_partitions g') = fst ` set (pr_partitions g) \<union> set ps"
  using assms
proof (induction ps arbitrary: g)
  case (Cons p ps)
  show ?case
  proof (cases "pr_getPartProc g p")
    case None
    then obtain pp where pp: "pr_createPartitionProcessor env p runModePassive g = Ret (Inr pp)"
      "pr_createStandby env ps (pr_setPartProc p (Some pp) g) = Ret (g', None)"
      using Cons.prems(1) by (auto simp: go_bind_result_Ret)
    have "p \<notin> fst ` set (pr_partitions g)" using None by (simp add: pr_getPartProc_def map_of_eq_None_iff)
    then have "parts_ok A (map_put p pp (pr_partitions g))"
      using createPartitionProcessor_fields [OF pp(1)] Cons.prems by (intro parts_ok_put) auto
    with Cons.IH [OF pp(2)] Cons.prems(3) show ?thesis by (auto simp: pr_setPartProc_def)
  next
    case (Some pp)
    then have "p \<in> fst ` set (pr_partitions g)" by (metis map_of_eq_None_iff option.distinct(1) pr_getPartProc_def)
    then show ?thesis using Cons Some by auto
  qed
qed simp

lemma startAll_ok:
  assumes "pr_startAll env ctxDone done' pps = Ret (Some (pps', es))"
  shows "map fst pps' = map fst pps \<and> (parts_ok A pps \<longrightarrow> parts_ok A pps') \<and> (\<forall>(p, pp) \<in> set pps'. pp_Recovered pp)"
  using assms
proof (induction pps arbitrary: pps' es)
  case (Cons e pps)
  obtain p pp where e: "e = (p, pp)" by (cases e)
  obtain pp1 r pps1 es1 where s: "pp_Start env (ctxDone p) (done' p) pp = Ret (Some (pp1, r))"
    "pr_startAll env ctxDone done' pps = Ret (Some (pps1, es1))" "pps' = (p, pp1) # pps1"
    using Cons.prems e by (auto simp: go_bind_eq_Ret split: option.splits)
  from Cons.IH [OF s(2)] Start_fields [OF s(1)] s(3) e show ?case
    by (auto simp: parts_ok_def)
qed (simp add: parts_ok_def)

lemma Setup_success:
  assumes "pr_Setup env ctxDone done' claims g = Ret (Some (g', None))"
  obtains s g2 es pps s2 where "pr_setupPartitions env claims (g\<lparr>pr_state := s\<rparr>) = Ret (g2, None)"
    and "pr_startAll (pe_table env) ctxDone done' (pr_partitions g2) = Ret (Some (pps, es))"
    and "g' = g2\<lparr>pr_partitions := pps, pr_state := s2\<rparr>"
proof -
  obtain s g2 e where g2: "pr_setupPartitions env claims (g\<lparr>pr_state := s\<rparr>) = Ret (g2, e)"
    and rest: "(if e \<noteq> None then go_bind (pr_SetState env ProcStateRunning g2) (\<lambda>g. Ret (Some (g, e)))
       else go_bind (pr_startAll (pe_table env) ctxDone done' (pr_partitions g2)) (\<lambda>r.
         case r of None \<Rightarrow> Ret None
         | Some (pps, es) \<Rightarrow>
             go_bind (pr_SetState env ProcStateRunning (g2\<lparr>pr_partitions := pps\<rparr>)) (\<lambda>g.
               Ret (Some (g, Errors_NilOrError (snd (ErrGroup_Wait es NewErrGroup))))))) = Ret (Some (g', None))"
    using assms by (auto simp only: pr_Setup_def pr_SetState_def go_bind_eq_Ret go.inject prod.case)
  have e: "e = None" using rest by (auto simp: go_bind_eq_Ret split: if_splits)
  obtain pps es where pps: "pr_startAll (pe_table env) ctxDone done' (pr_partitions g2) = Ret (Some (pps, es))"
    and "go_bind (pr_SetState env ProcStateRunning (g2\<lparr>pr_partitions := pps\<rparr>)) (\<lambda>g.
      Ret (Some (g, Errors_NilOrError (snd (ErrGroup_Wait es NewErrGroup))))) = Ret (Some (g', None))"
    using rest e by (auto simp only: go_bind_option_Ret if_False if_True not_not refl prod.case go.inject option.distinct
        simp_thms split: prod.splits)
  then obtain s2 where "g' = g2\<lparr>pr_partitions := pps, pr_state := s2\<rparr>"
    by (auto simp: pr_SetState_def go_bind_eq_Ret)
  then show ?thesis using that g2 e pps by blast
qed

text \<open>C10: the setup of a session starts exactly the partitions it should. If Setup succeeds on a processor
  without partitions, the processor then has a partition processor for every assigned partition and, with
  hot standby, for every other partition of its tables, and no others; each is registered under its own
  number, started, and active if it is assigned, passive otherwise. So every claim of the session finds
  its partition processor.\<close>

theorem setup_starts_assigned_partitions:
  assumes "pr_partitions g = []" and "pr_Setup env ctxDone done' claims g = Ret (Some (g', None))"
    and a: "pr_assignmentFromSession claims = Inr (Some a)" and "A = fst ` set a"
    and "S = (if pr_hotStandby g then case pr_findStatefulPartitions env g of Inl _ \<Rightarrow> {} | Inr ps \<Rightarrow> set ps else {})"
  shows "fst ` set (pr_partitions g') = A \<union> S \<and> gomap (pr_partitions g') \<and>
    (\<forall>(p, pp) \<in> set (pr_partitions g'). pp_partition pp = p \<and> pp_Recovered pp \<and>
       pp_runMode pp = (if p \<in> A then runModeActive else runModePassive)) \<and>
    (\<forall>p \<in> A. pr_ConsumeClaim p evs g' = claim_loop evs [])"
proof -
  obtain s g2 es pps s2 where g2: "pr_setupPartitions env claims (g\<lparr>pr_state := s\<rparr>) = Ret (g2, None)"
    and pps: "pr_startAll (pe_table env) ctxDone done' (pr_partitions g2) = Ret (Some (pps, es))"
    and g': "g' = g2\<lparr>pr_partitions := pps, pr_state := s2\<rparr>"
    using Setup_success [OF assms(2)] .
  obtain g1 where g1: "pr_createActive env (map fst a) (g\<lparr>pr_state := s\<rparr>) = Ret (g1, None)"
    and rest: "if pr_hotStandby g1 then \<exists>ps. pr_findStatefulPartitions env g1 = Inr ps \<and> pr_createStandby env ps g1 = Ret (g2, None)
      else g2 = g1"
    using g2 a by (auto simp: pr_setupPartitions_def go_bind_eq_Ret split: if_splits sum.splits)
  have ok1: "parts_ok A (pr_partitions g1)" "fst ` set (pr_partitions g1) = A" "pr_hotStandby g1 = pr_hotStandby g"
    "pr_graph g1 = pr_graph g"
    using createActive_ok [OF g1, of A] assms(1,4) by (auto simp: parts_ok_def)
  have st: "pr_findStatefulPartitions env g1 = pr_findStatefulPartitions env g"
    using ok1(4) by (simp add: pr_findStatefulPartitions_def)
  have ok2: "parts_ok A (pr_partitions g2) \<and> fst ` set (pr_partitions g2) = A \<union> S"
  proof (cases "pr_hotStandby g")
    case True
    then obtain ps where "pr_findStatefulPartitions env g = Inr ps" "pr_createStandby env ps g1 = Ret (g2, None)"
      using rest ok1(3) st by auto
    then show ?thesis using createStandby_ok [of env ps g1 g2 A] ok1 assms(5) True by simp
  next
    case False
    then show ?thesis using rest ok1 assms(5) by simp
  qed
  have "fst ` set pps = fst ` set (pr_partitions g2)"
    using startAll_ok [OF pps] by (simp only: set_map [symmetric])
  then have ok: "parts_ok A pps" "fst ` set pps = A \<union> S" "\<forall>(p, pp) \<in> set pps. pp_Recovered pp"
    using startAll_ok [OF pps, of A] ok2 by simp_all
  then have "map_of pps p \<noteq> None" if "p \<in> A" for p using that by (auto simp: map_of_eq_None_iff)
  then have "\<forall>p \<in> A. pr_ConsumeClaim p evs g' = claim_loop evs []"
    unfolding g' pr_ConsumeClaim_def pr_getPartProc_def by (intro ballI) (simp del: not_None_eq)
  then show ?thesis using ok g' by (auto simp: parts_ok_def)
qed

section \<open>Waiting at startup\<close>

lemma map_filter_none [simp]: "List.map_filter id (map (\<lambda>_. None) xs) = []"
  by (induction xs) (simp_all add: List.map_filter_simps)


section \<open>Reading the group table\<close>

text \<open>C14: a processor and a view of its group table agree. If they have the same number of partitions, hasher
  and codec, and the key's partition is started in the processor, recovered in the view and holds the same
  value for the key, then Get returns a value from the processor exactly if it returns it from the view.\<close>

theorem processor_view_agree:
  assumes "pr_partitionCount g = int (length (vw_partitions v))"
    and "GroupGraph_GroupTable (pr_graph g) = Some gt" and "td_codec gt = vw_tableCodec v"
    and "View_find hasher v key = Ret (Inr i)"
    and "pr_getPartProc g (int i) = Some pp" and "pp_table pp = Some t" and "pt_st t = Some px"
    and "pt_IsRecovered (vw_partitions v ! i)" and "pt_st (vw_partitions v ! i) = Some qx"
    and "st_Get ops (px_Storage px) key = st_Get ops (px_Storage qx) key"
  shows "pr_Get ops hasher g key = Ret (Inr x) \<longleftrightarrow> View_Get ops hasher v key = Ret (Inr x)"
proof -
  obtain h where h: "View_hash hasher v key = Ret (Inr h)" "h = int i"
    using assms(4) by (auto simp: View_find_def go_bind_result_Ret split: if_splits)
  have "pr_hash hasher g key = Ret (Inr (int i))"
    using h assms(1) by (auto simp: pr_hash_def View_hash_def hash_partition_def Let_def split: sum.splits if_splits)
  then have "pr_find hasher g key = Ret (Inr (Some px))" using assms(5-7) by (simp add: pr_find_def)
  moreover have "pt_Get ops key (vw_partitions v ! i) = Ret (st_Get ops (px_Storage px) key)"
    using assms(8-10) by (simp add: pt_Get_def pt_readyToRead_def pt_with_def pt_IsRecovered_def
        pt_CurrentState_def Signal_IsState_def Signal_State_def)
  ultimately show ?thesis
    using assms(2-4) by (auto simp: pr_Get_def View_Get_def split: sum.splits option.splits)
qed

section \<open>Samples\<close>

text \<open>A processor with hot standby for a group table of three partitions.\<close>

definition sample_group :: "ProcessCallback GroupGraph" where
  "sample_group = (case DefineGroup ''g'' [Some (Input ''in'' (Some StringCodec) (Some sample_callback)),
       Some (Output ''out'' (Some StringCodec)), Some (Persist (Some StringCodec))] of
     Ret g \<Rightarrow> g | Panic m \<Rightarrow> undefined)"

definition sample_proc_env :: "memory proc_env" where
  "sample_proc_env = \<lparr>pe_table = sample_cx_env\<lparr>te_builder := (\<lambda>t p. Inr NewMemory)\<rparr>, pe_hasher = DefaultHasher,
     pe_backoffErr = None, pe_Partitions = (\<lambda>t. Inr [0, 1, 2]), pe_order = id\<rparr>"

definition sample_proc :: "memory Processor" where
  "sample_proc = (case NewProcessor None (Inr 3) (\<lambda>t c. Ret (Inl (Err ''unused''))) True False NilIgnore None sample_group of
     Ret (Inr g) \<Rightarrow> g | _ \<Rightarrow> undefined)"

theorem setup_starts_assigned_partitions_witness:
  "\<exists>g'. pr_Setup sample_proc_env (\<lambda>p t. (False, False)) (\<lambda>p. False) [(''in'', [0, 2])] sample_proc = Ret (Some (g', None)) \<and>
     fst ` set (pr_partitions g') = {0, 1, 2}"
proof -
  let ?r = "pr_Setup sample_proc_env (\<lambda>p t. (False, False)) (\<lambda>p. False) [(''in'', [0, 2])] sample_proc"
  have "case ?r of Ret (Some (_, None)) \<Rightarrow> True | _ \<Rightarrow> False" by code_simp
  then obtain g' where r: "?r = Ret (Some (g', None))" by (auto split: go.splits option.splits)
  have a: "pr_assignmentFromSession [(''in'', [0, 2])] = Inr (Some [(0, OffsetNewest), (2, OffsetNewest)])" by code_simp
  have p: "pr_partitions sample_proc = []" by code_simp
  have h: "pr_hotStandby sample_proc" and f: "pr_findStatefulPartitions sample_proc_env sample_proc = Inr [0, 1, 2]" by code_simp+
  show ?thesis using setup_starts_assigned_partitions [OF p r a refl refl] r h f by (simp add: insert_commute)
qed


definition sample_proc_running :: "memory Processor" where
  "sample_proc_running = (case newPartitionProcessor id 0 0 sample_group NilIgnore None runModeActive None of
     Ret pp \<Rightarrow> pr_setPartProc 0 (Some (pp\<lparr>pp_table := Some (sample_partition 0 ''a'' ''1'')\<rparr>)) sample_proc
   | Panic m \<Rightarrow> undefined)"

lemma sample_proc_graph: "pr_graph sample_proc = sample_group"
proof -
  have "GroupGraph_Validate sample_group = None" and "length (gg_crossTables sample_group) = 0"
    and "case Signal_SetState (\<lambda>_. True) ProcStateIdle
      (NewSignal [ProcStateIdle, ProcStateStarting, ProcStateSetup, ProcStateRunning, ProcStateStopping]) of
      Ret _ \<Rightarrow> True | _ \<Rightarrow> False" by code_simp+
  then show ?thesis by (auto simp: sample_proc_def NewProcessor_def split: go.splits)
qed

theorem processor_view_agree_witness:
  "pr_Get memory_ops DefaultHasher sample_proc_running ''a'' = Ret (Inr (VString ''1''))"
proof -
  have "case newPartitionProcessor id 0 0 sample_group NilIgnore None runModeActive None :: memory pproc go of
      Ret _ \<Rightarrow> True | _ \<Rightarrow> False" by code_simp
  then obtain p0 where p0: "newPartitionProcessor id 0 0 sample_group NilIgnore None runModeActive None = Ret (p0 :: memory pproc)"
    by (auto split: go.splits)
  then obtain pp where pp: "pr_getPartProc sample_proc_running (int 0) = Some pp" "pp_table pp = Some (sample_partition 0 ''a'' ''1'')"
    by (simp add: sample_proc_running_def pr_getPartProc_def pr_setPartProc_def)
  have gt: "GroupGraph_GroupTable (pr_graph sample_proc_running) = Some \<lparr>td_name = ''g-table'', td_codec = Some StringCodec\<rparr>"
    "td_codec \<lparr>td_name = ''g-table'', td_codec = Some StringCodec\<rparr> = vw_tableCodec sample_view"
    using p0 by (simp_all add: sample_proc_running_def pr_setPartProc_def sample_proc_graph sample_view_def sample_group_def
        DefineGroup_def Input_def Output_def Persist_def define_input_def validateInputTopic_def Let_def GroupGraph_GroupTable_def
        GroupTable_name_def tableName_def tableSuffix_def)
  obtain px where px: "pt_st (sample_partition 0 ''a'' ''1'') = Some px" by (simp add: sample_partition_def sample_table_def)
  have v: "vw_partitions sample_view ! 0 = sample_partition 0 ''a'' ''1''" by (simp add: sample_view_def)
  have n: "pr_partitionCount sample_proc_running = int (length (vw_partitions sample_view))"
    and f: "View_find DefaultHasher sample_view ''a'' = Ret (Inr 0)"
    and g: "View_Get memory_ops DefaultHasher sample_view ''a'' = Ret (Inr (VString ''1''))"
    and r: "pt_IsRecovered (sample_partition 0 ''a'' ''1'')" by code_simp+
  show ?thesis
    using processor_view_agree [OF n gt f pp px, of px memory_ops "VString ''1''"] px v r g by simp
qed

end
