(* ===== verification/Goka_Float.thy ===== *)
theory Goka_Float
  imports Complex_Main "HOL-Library.Log_Nat"
begin

text \<open>
  Go's \<open>float64\<close>, as far as the code computes with it: non-negative numbers in the normal range. A value is
  the rational number it represents; \<open>float64\<close> rounds a number to the nearest representable one, ties to the
  even significand, as every operation of IEEE 754 does with its exact result. The significand has 53 bits.
  Overflow to infinity, subnormal numbers and the sign are out of the range of this model.
\<close>

definition round_even :: "rat \<Rightarrow> int" where
  "round_even y =
     (let f = \<lfloor>y\<rfloor>; r = y - of_int f
      in if r < 1 / 2 \<or> r = 1 / 2 \<and> even f then f else f + 1)"

definition pow2 :: "int \<Rightarrow> rat" where
  "pow2 e = (if 0 \<le> e then 2 ^ nat e else 1 / 2 ^ nat (- e))"

text \<open>The binary exponent of a positive number, that is, the floor of its logarithm.\<close>

definition exponent :: "rat \<Rightarrow> int" where
  "exponent x =
     (if 1 \<le> x then int (floorlog 2 (nat \<lfloor>x\<rfloor>)) - 1
      else - int (floorlog 2 (nat (\<lceil>1 / x\<rceil> - 1))))"

definition float64 :: "rat \<Rightarrow> rat" where
  "float64 x =
     (if x = 0 then 0
      else let ulp = pow2 (exponent x - 52) in of_int (round_even (x / ulp)) * ulp)"

section \<open>Rounding\<close>

lemma round_even_error: "\<bar>of_int (round_even y) - y\<bar> \<le> 1 / 2"
proof -
  have y: "of_int \<lfloor>y\<rfloor> \<le> y" "y < of_int \<lfloor>y\<rfloor> + 1" by linarith+
  show ?thesis
  proof (cases "y - of_int \<lfloor>y\<rfloor> < 1 / 2 \<or> y - of_int \<lfloor>y\<rfloor> = 1 / 2 \<and> even \<lfloor>y\<rfloor>")
    case True
    then have "round_even y = \<lfloor>y\<rfloor>" by (simp add: round_even_def Let_def)
    then show ?thesis using True y by linarith
  next
    case False
    then have "round_even y = \<lfloor>y\<rfloor> + 1" by (simp add: round_even_def Let_def)
    then show ?thesis using False y by (cases "y - of_int \<lfloor>y\<rfloor> = 1 / 2") auto
  qed
qed

lemma round_even_of_int [simp]: "round_even (of_int n) = n"
  by (simp add: round_even_def)

lemma round_even_mono:
  assumes "x \<le> y"
  shows "round_even x \<le> round_even y"
proof (cases "\<lfloor>x\<rfloor> = \<lfloor>y\<rfloor>")
  case True
  then show ?thesis using assms by (auto simp: round_even_def Let_def)
next
  case False
  then have "\<lfloor>x\<rfloor> + 1 \<le> \<lfloor>y\<rfloor>" using assms floor_mono [of x y] by linarith
  then show ?thesis by (auto simp: round_even_def Let_def)
qed

lemma pow2_pos [simp]: "0 < pow2 e"
  by (simp add: pow2_def)

lemma pow2_powi: "pow2 e = 2 powi e"
  by (simp add: pow2_def power_int_def field_simps)

lemma pow2_add: "pow2 (a + b) = pow2 a * pow2 b"
  by (simp add: pow2_powi power_int_add)

lemma pow2_mono: "a \<le> b \<Longrightarrow> pow2 a \<le> pow2 b"
  by (simp add: pow2_powi power_int_increasing)

lemma pow2_of_nat: "pow2 (int n) = of_int (2 ^ n)"
  by (simp add: pow2_def)

lemma exponent_bounds:
  assumes "0 < x"
  shows "pow2 (exponent x) \<le> x \<and> x < pow2 (exponent x + 1)"
proof (cases "1 \<le> x")
  case True
  define n k where "n = nat \<lfloor>x\<rfloor>" and "k = floorlog 2 n"
  have n: "0 < n" "of_nat n \<le> x" "x < of_nat n + 1" using True by (simp_all add: n_def) linarith
  have k: "2 ^ (k - 1) \<le> n" "n < 2 ^ k" "0 < k"
    using floorlog_bounds [of n 2] n(1) by (auto simp: k_def floorlog_eq_zero_iff intro: gr0I)
  have "pow2 (int k - 1) = of_nat (2 ^ (k - 1))" using k(3) pow2_of_nat [of "k - 1"] by (simp add: of_nat_diff)
  moreover have "(of_nat (2 ^ (k - 1)) :: rat) \<le> of_nat n" using k(1) by (simp only: of_nat_le_iff)
  moreover have "(of_nat n + 1 :: rat) \<le> of_nat (2 ^ k)" using k(2) by (metis Suc_leI of_nat_Suc of_nat_le_iff add.commute)
  moreover have "pow2 (int k) = of_nat (2 ^ k)" by (simp add: pow2_of_nat)
  moreover have "exponent x = int k - 1" using True by (simp add: exponent_def n_def k_def)
  ultimately show ?thesis using n(2,3) by (metis diff_add_cancel order.strict_trans2 order.trans)
next
  case False
  define n k where "n = nat (\<lceil>1 / x\<rceil> - 1)" and "k = floorlog 2 n"
  have y: "1 < 1 / x" using False assms by (simp add: field_simps)
  then have "2 \<le> \<lceil>1 / x\<rceil>" by (simp add: le_ceiling_iff)
  then have n: "0 < n" "of_nat n < 1 / x" "1 / x \<le> of_nat n + 1" by (simp_all add: n_def) linarith+
  have k: "2 ^ (k - 1) \<le> n" "n < 2 ^ k" "0 < k"
    using floorlog_bounds [of n 2] n(1) by (auto simp: k_def floorlog_eq_zero_iff intro: gr0I)
  have "(of_nat (2 ^ (k - 1)) :: rat) \<le> of_nat n" using k(1) by (simp only: of_nat_le_iff)
  then have lo: "2 ^ (k - 1) < 1 / x" using n(2) by (metis of_nat_numeral of_nat_power order.strict_trans1)
  have "(of_nat n + 1 :: rat) \<le> of_nat (2 ^ k)" using k(2) by (metis Suc_leI of_nat_Suc of_nat_le_iff add.commute)
  then have hi: "1 / x \<le> 2 ^ k" using n(3) by (metis of_nat_numeral of_nat_power order.trans)
  have "pow2 (- int k) = 1 / 2 ^ k" "pow2 (- int k + 1) = 1 / 2 ^ (k - 1)"
    using k(3) by (auto simp: pow2_def nat_diff_distrib Suc_le_eq split: if_splits)
  moreover have "exponent x = - int k" using False by (simp add: exponent_def n_def k_def)
  moreover have "1 / 2 ^ k \<le> x" "x < 1 / 2 ^ (k - 1)" using lo hi assms by (simp_all add: field_simps)
  ultimately show ?thesis by simp
qed

section \<open>Properties of the rounding\<close>

lemma float64_nonneg: "0 \<le> x \<Longrightarrow> 0 \<le> float64 x"
proof (cases "x = 0")
  case False
  assume "0 \<le> x"
  then have "0 \<le> round_even (x / pow2 (exponent x - 52))"
    using round_even_mono [of 0 "x / pow2 (exponent x - 52)"] round_even_of_int [of 0] by (simp add: less_imp_le)
  then show ?thesis using False by (simp add: float64_def Let_def less_imp_le)
qed (simp add: float64_def)

text \<open>The relative error is at most half a unit in the last place.\<close>

lemma float64_error:
  assumes "0 \<le> x"
  shows "\<bar>float64 x - x\<bar> \<le> x / 2 ^ 53"
proof (cases "x = 0")
  case False
  define u where "u = pow2 (exponent x - 52)"
  have u: "0 < u" by (simp add: u_def)
  have "float64 x - x = (of_int (round_even (x / u)) - x / u) * u"
    using False u by (simp add: float64_def Let_def u_def [symmetric] field_simps)
  then have "\<bar>float64 x - x\<bar> \<le> 1 / 2 * u"
    using mult_right_mono [OF round_even_error [of "x / u"], of u] u by (simp add: abs_mult)
  moreover have "u = pow2 (exponent x) / 2 ^ 52" using pow2_add [of "exponent x" "- 52"] by (simp add: u_def pow2_def)
  moreover have "pow2 (exponent x) \<le> x" using exponent_bounds [of x] assms False by simp
  ultimately show ?thesis by (simp add: field_simps)
qed (simp add: float64_def)

lemma float64_scale:
  assumes "0 < x" and "e = exponent x"
  shows "float64 x = of_int (round_even (x / pow2 (e - 52))) * pow2 (e - 52)"
    and "pow2 e \<le> float64 x" and "float64 x \<le> pow2 (e + 1)"
proof -
  show f: "float64 x = of_int (round_even (x / pow2 (e - 52))) * pow2 (e - 52)" using assms by (simp add: float64_def Let_def)
  have p: "pow2 e = of_int (2 ^ 52) * pow2 (e - 52)" "pow2 (e + 1) = of_int (2 ^ 53) * pow2 (e - 52)"
    using pow2_add [of 52 "e - 52"] pow2_add [of 53 "e - 52"] pow2_of_nat [of 52] pow2_of_nat [of 53]
    by (simp_all add: add.commute)
  have "of_int (2 ^ 52) \<le> x / pow2 (e - 52)" "x / pow2 (e - 52) \<le> of_int (2 ^ 53)"
    using exponent_bounds [OF assms(1)] p assms(2) by (simp_all add: pos_le_divide_eq pos_divide_le_eq less_imp_le)
  then have "2 ^ 52 \<le> round_even (x / pow2 (e - 52))" "round_even (x / pow2 (e - 52)) \<le> 2 ^ 53"
    using round_even_mono round_even_of_int by metis+
  then have "(of_int (2 ^ 52) :: rat) \<le> of_int (round_even (x / pow2 (e - 52)))"
    "(of_int (round_even (x / pow2 (e - 52))) :: rat) \<le> of_int (2 ^ 53)" by (simp_all only: of_int_le_iff)
  then show "pow2 e \<le> float64 x" "float64 x \<le> pow2 (e + 1)"
    unfolding f p by (simp_all only: mult_right_mono less_imp_le [OF pow2_pos])
qed

lemma float64_mono:
  assumes "0 \<le> x" and "x \<le> y"
  shows "float64 x \<le> float64 y"
proof (cases "x = 0")
  case True
  then show ?thesis using float64_nonneg [of y] assms by (simp add: float64_def)
next
  case False
  then have pos: "0 < x" "0 < y" using assms by simp_all
  show ?thesis
  proof (cases "exponent x = exponent y")
    case True
    have "x / pow2 (exponent x - 52) \<le> y / pow2 (exponent x - 52)" using assms by (simp add: divide_right_mono less_imp_le)
    from round_even_mono [OF this] show ?thesis
      using float64_scale(1) [OF pos(1) refl] float64_scale(1) [OF pos(2) refl] True
      by (simp add: mult_right_mono less_imp_le)
  next
    case False
    have "pow2 (exponent x) < pow2 (exponent y + 1)"
      using exponent_bounds [OF pos(1)] exponent_bounds [OF pos(2)] assms(2) by linarith
    then have "exponent x < exponent y + 1" using pow2_mono [of "exponent y + 1" "exponent x"] by linarith
    then have "pow2 (exponent x + 1) \<le> pow2 (exponent y)" using False by (intro pow2_mono) simp
    then show ?thesis using float64_scale(3) [OF pos(1) refl] float64_scale(2) [OF pos(2) refl] by linarith
  qed
qed

text \<open>Integers of at most 53 bits are represented exactly.\<close>

lemma float64_of_nat:
  assumes "n < 2 ^ 53"
  shows "float64 (of_nat n) = of_nat n"
proof (cases "n = 0")
  case False
  define e where "e = exponent (of_nat n)"
  have b: "pow2 e \<le> of_nat n" using exponent_bounds [of "of_nat n"] False by (simp add: e_def)
  have "(of_nat n :: rat) < of_nat (2 ^ 53)" using assms by (simp only: of_nat_less_iff)
  then have "pow2 e < pow2 53" using b by (simp add: pow2_def)
  then have "e < 53" using pow2_mono [of 53 e] by linarith
  then have "pow2 (52 - e) = of_int (2 ^ nat (52 - e))" by (simp add: pow2_def)
  moreover have "1 / pow2 (e - 52) = pow2 (52 - e)" using pow2_add [of "e - 52" "52 - e"] pow2_of_nat [of 0]
    by (intro inverse_unique [unfolded inverse_eq_divide]) simp
  ultimately have r: "of_nat n / pow2 (e - 52) = of_int (int n * 2 ^ nat (52 - e))" by (simp add: divide_inverse)
  then have "round_even (of_nat n / pow2 (e - 52)) = int n * 2 ^ nat (52 - e)" by (simp only: round_even_of_int)
  then have "of_int (round_even (of_nat n / pow2 (e - 52))) = of_nat n / pow2 (e - 52)" using r by simp
  then show ?thesis
    using float64_scale(1) [of "of_nat n" e] False less_imp_neq [OF pow2_pos [of "e - 52"]] by (simp add: e_def)
qed (simp add: float64_def)

end
