(* ===== verification/Goka_Copartition.thy ===== *)
theory Goka_Copartition
  imports Goka_Prelude Goka_Float
begin

text \<open>
  The rebalance strategy (\<open>copartition_strategy.go\<close>): how the leader of a consumer group assigns partitions
  to its members.

  \<^item> The members with the topics they request, and the topics with their partitions, are association lists in
    the order in which Go ranges over the maps.
  \<^item> A plan is a type \<open>'p\<close> of sarama with the operation \<open>add\<close>; its laws are hypotheses of the theorems.
  \<^item> The bounds of the members' ranges are computed with \<open>float64\<close>. Go permits an implementation to fuse the
    multiplication and the addition into one operation with a single rounding, which compilers do on some
    architectures; \<open>fused\<close> says whether it does.
\<close>

record copartitioningStrategy =
  failOnInconsistentTopics :: bool

definition CopartitioningStrategy :: copartitioningStrategy where
  "CopartitioningStrategy = \<lparr>failOnInconsistentTopics = False\<rparr>"

definition StrictCopartitioningStrategy :: copartitioningStrategy where
  "StrictCopartitioningStrategy = \<lparr>failOnInconsistentTopics = True\<rparr>"

definition partitionsEqual :: "int list \<Rightarrow> int list \<Rightarrow> bool" where
  "partitionsEqual a b \<longleftrightarrow> length a = length b \<and> (\<forall>p \<in> set b. p \<in> set a)"

definition topicsEqual :: "string list \<Rightarrow> string list \<Rightarrow> bool" where
  "topicsEqual a b \<longleftrightarrow> length a = length b \<and> (\<forall>p \<in> set b. p \<in> set a)"

fun collect_topics :: "(string \<times> int list) list \<Rightarrow> string list \<Rightarrow> int list \<Rightarrow> (string list \<times> int list) result" where
  "collect_topics [] allTopics allPartitions = Inr (allTopics, allPartitions)"
| "collect_topics ((topic, topicPartitions) # topics) allTopics allPartitions =
     (if allPartitions = [] then collect_topics topics (allTopics @ [topic]) topicPartitions
      else if \<not> partitionsEqual allPartitions topicPartitions
      then Inl (Err ''Error balancing. Not all topics are copartitioned.'')
      else collect_topics topics (allTopics @ [topic]) allPartitions)"

fun collect_members ::
  "copartitioningStrategy \<Rightarrow> string list \<Rightarrow> (string \<times> string list) list \<Rightarrow> string list \<Rightarrow> string list result" where
  "collect_members s allTopics [] allMembers = Inr allMembers"
| "collect_members s allTopics ((memberID, topics) # members) allMembers =
     (if \<not> topicsEqual allTopics topics \<and> failOnInconsistentTopics s
      then Inl (Err ''Error balancing. Not all members request the same list of topics.'')
      else collect_members s allTopics members (allMembers @ [memberID]))"

text \<open>\<open>int(math.Floor(pos*step + 0.5))\<close>.\<close>

definition range_bound :: "bool \<Rightarrow> rat \<Rightarrow> rat \<Rightarrow> int" where
  "range_bound fused pos step =
     \<lfloor>if fused then float64 (pos * step + 1 / 2) else float64 (float64 (pos * step) + 1 / 2)\<rfloor>"

text \<open>Slicing panics out of range. (Go's limit is the capacity of the slice, which is at least its length; the
  bounds are shown to stay within the length.)\<close>

fun plan_members ::
  "('p \<Rightarrow> string \<Rightarrow> string \<Rightarrow> int list \<Rightarrow> 'p) \<Rightarrow> bool \<Rightarrow> rat \<Rightarrow> int list \<Rightarrow> (string \<Rightarrow> string list) \<Rightarrow> nat \<Rightarrow> string list \<Rightarrow> 'p \<Rightarrow> 'p go" where
  "plan_members add fused step allPartitions topicsOf idx [] plan = Ret plan"
| "plan_members add fused step allPartitions topicsOf idx (memberID # ms) plan =
     (let pos = float64 (of_nat idx);
          min = range_bound fused pos step;
          max = range_bound fused (float64 (pos + 1)) step;
          topics = topicsOf memberID
      in if topics \<noteq> [] \<and> \<not> (0 \<le> min \<and> min \<le> max \<and> max \<le> int (length allPartitions))
         then Panic ''slice bounds out of range''
         else plan_members add fused step allPartitions topicsOf (Suc idx) ms
           (fold (\<lambda>topic plan. add plan memberID topic (take (nat max - nat min) (drop (nat min) allPartitions))) topics plan))"

definition Plan ::
  "('p \<Rightarrow> string \<Rightarrow> string \<Rightarrow> int list \<Rightarrow> 'p) \<Rightarrow> 'p \<Rightarrow> bool \<Rightarrow> copartitioningStrategy \<Rightarrow> (string \<times> string list) list \<Rightarrow>
   (string \<times> int list) list \<Rightarrow> 'p result go" where
  "Plan add noPlan fused s members topics =
     (case collect_topics topics [] [] of
        Inl err \<Rightarrow> Ret (Inl err)
      | Inr (allTopics, allPartitions) \<Rightarrow>
          (case collect_members s allTopics members [] of
             Inl err \<Rightarrow> Ret (Inl err)
           | Inr allMembers \<Rightarrow>
               let step = float64 (float64 (of_nat (length allPartitions)) / float64 (of_nat (length allMembers)))
               in go_bind (plan_members add fused step (sort allPartitions)
                      (\<lambda>m. case map_of members m of None \<Rightarrow> [] | Some ts \<Rightarrow> ts) 0 (sort allMembers) noPlan) (\<lambda>plan.
                    Ret (Inr plan))))"

section \<open>The bounds of the ranges\<close>

lemma float64_half [simp]: "float64 (1 / 2) = 1 / 2"
  by code_simp

lemma range_bound_0 [simp]: "range_bound fused 0 step = 0"
proof -
  have "float64 0 = 0" by (simp add: float64_def)
  then show ?thesis by (simp add: range_bound_def floor_eq_iff)
qed

lemma range_bound_mono:
  assumes "0 \<le> x" and "x \<le> y" and "0 \<le> step"
  shows "range_bound fused x step \<le> range_bound fused y step"
proof -
  have m: "0 \<le> x * step" "x * step \<le> y * step" using assms by (simp_all add: mult_right_mono)
  have "float64 (x * step + 1 / 2) \<le> float64 (y * step + 1 / 2)" using m by (intro float64_mono) simp_all
  moreover have "float64 (float64 (x * step) + 1 / 2) \<le> float64 (float64 (y * step) + 1 / 2)"
    using float64_mono [OF m] float64_nonneg [OF m(1)] by (intro float64_mono) simp_all
  ultimately show ?thesis by (simp add: range_bound_def floor_mono)
qed

lemma near_half:
  fixes a c p :: rat
  assumes "\<bar>a - p\<bar> \<le> p / 2 ^ 51" and "\<bar>c - (a + 1 / 2)\<bar> \<le> (a + 1 / 2) / 2 ^ 53" and "0 \<le> p" and "p < 2 ^ 31"
  shows "p \<le> c \<and> c < p + 1"
  using assms unfolding abs_le_iff by simp

lemma error_twice:
  fixes a b p :: rat
  assumes "\<bar>a - p\<bar> \<le> p / 2 ^ 53" and "\<bar>b - a\<bar> \<le> a / 2 ^ 53" and "0 \<le> p"
  shows "\<bar>b - p\<bar> \<le> p / 2 ^ 51"
  using assms unfolding abs_le_iff by simp

text \<open>Despite the rounding of the quotient, the last bound is the number of partitions.\<close>

lemma range_bound_last:
  assumes "0 < M" and "P < 2 ^ 31" and "step = float64 (of_nat P / of_nat M)"
  shows "range_bound fused (of_nat M) step = int P"
proof -
  define a where "a = of_nat M * step"
  have q: "\<bar>step - of_nat P / of_nat M\<bar> \<le> of_nat P / of_nat M / 2 ^ 53" unfolding assms(3) by (rule float64_error) simp
  have "a - of_nat P = of_nat M * (step - of_nat P / of_nat M)" using assms(1) by (simp add: a_def field_simps)
  then have "\<bar>a - of_nat P\<bar> \<le> of_nat M * (of_nat P / of_nat M / 2 ^ 53)"
    using mult_left_mono [OF q, of "of_nat M"] by (simp only: abs_mult abs_of_nat of_nat_0_le_iff)
  then have a: "\<bar>a - of_nat P\<bar> \<le> of_nat P / 2 ^ 53" using assms(1) by simp
  have "(of_nat P :: rat) < of_nat (2 ^ 31)" using assms(2) by (simp only: of_nat_less_iff)
  then have P: "0 \<le> (of_nat P :: rat)" "(of_nat P :: rat) < 2 ^ 31" by simp_all
  have "0 \<le> step" unfolding assms(3) by (rule float64_nonneg) simp
  then have a0: "0 \<le> a" by (simp add: a_def)
  have e1: "\<bar>float64 a - a\<bar> \<le> a / 2 ^ 53" "0 \<le> float64 a" using float64_error [OF a0] float64_nonneg [OF a0] .
  have e2: "\<bar>float64 (a + 1 / 2) - (a + 1 / 2)\<bar> \<le> (a + 1 / 2) / 2 ^ 53" using a0 by (intro float64_error) simp
  have e3: "\<bar>float64 (float64 a + 1 / 2) - (float64 a + 1 / 2)\<bar> \<le> (float64 a + 1 / 2) / 2 ^ 53" using e1 by (intro float64_error) simp
  have "of_nat P \<le> float64 (a + 1 / 2) \<and> float64 (a + 1 / 2) < of_nat P + 1"
    using near_half [OF _ e2 P] error_twice [OF a _ P(1), of a] a0 by simp
  moreover have "of_nat P \<le> float64 (float64 a + 1 / 2) \<and> float64 (float64 a + 1 / 2) < of_nat P + 1"
    using near_half [OF error_twice [OF a e1(1) P(1)] e3 P] .
  ultimately show ?thesis by (simp add: range_bound_def a_def [symmetric] floor_eq_iff)
qed

section \<open>The plan\<close>

lemma partitionsEqual_iff:
  assumes "distinct a" and "distinct b"
  shows "partitionsEqual a b \<longleftrightarrow> set a = set b"
proof
  assume e: "partitionsEqual a b"
  then have "set b \<subseteq> set a" "card (set a) = card (set b)" using assms by (auto simp: partitionsEqual_def distinct_card)
  then show "set a = set b" using card_subset_eq [of "set a" "set b"] by simp
next
  assume "set a = set b"
  then show "partitionsEqual a b" using assms distinct_card [of a] distinct_card [of b] by (simp add: partitionsEqual_def)
qed

lemma collect_topics_ok:
  assumes "\<forall>(t, ps) \<in> set topics. distinct ps \<and> set ps = S" and "S \<noteq> {}" and "distinct parts" and "parts = [] \<or> set parts = S"
    and "parts \<noteq> [] \<or> topics \<noteq> []"
  shows "\<exists>qs. collect_topics topics ts parts = Inr (ts @ map fst topics, qs) \<and> distinct qs \<and> set qs = S"
  using assms
proof (induction topics arbitrary: ts parts)
  case (Cons e topics)
  obtain t ps where e: "e = (t, ps)" by (cases e)
  have ps: "distinct ps" "set ps = S" "ps \<noteq> []" using Cons.prems(1,2) e by auto
  show ?case
  proof (cases "parts = []")
    case True
    then show ?thesis using Cons.IH [of ps "ts @ [t]"] Cons.prems ps e by auto
  next
    case False
    then have "partitionsEqual parts ps" using partitionsEqual_iff Cons.prems ps by simp
    then show ?thesis using Cons.IH [of parts "ts @ [t]"] Cons.prems False e by auto
  qed
qed auto

lemma collect_members_ok:
  assumes "failOnInconsistentTopics s \<longrightarrow> (\<forall>(m, ts) \<in> set members. topicsEqual allTopics ts)"
  shows "collect_members s allTopics members ms = Inr (ms @ map fst members)"
  using assms by (induction members arbitrary: ms) auto

text \<open>The range of the member with a given index.\<close>

definition plan_range :: "bool \<Rightarrow> rat \<Rightarrow> int list \<Rightarrow> nat \<Rightarrow> int list" where
  "plan_range fused step parts i =
     (let b = (\<lambda>i. nat (range_bound fused (of_nat i) step)) in take (b (Suc i) - b i) (drop (b i) parts))"

lemma slices_concat:
  assumes "b 0 = (0 :: nat)" and "\<And>i. b i \<le> b (Suc i)"
  shows "concat (map (\<lambda>i. take (b (Suc i) - b i) (drop (b i) xs)) [0..<n]) = take (b n) xs"
proof (induction n)
  case (Suc n)
  then show ?case using assms(2) [of n] by (simp add: take_add [symmetric])
qed (simp add: assms(1))

lemma fold_add_get:
  assumes get: "\<And>p m t ps m' t'. get (add p m t ps) m' t' = (if m' = m \<and> t' = t then get p m t @ ps else get p m' t' :: int list)"
    and "distinct ts"
  shows "get (fold (\<lambda>t p. add p m t r) ts p) m' t' = get p m' t' @ (if m' = m \<and> t' \<in> set ts then r else [])"
  using assms(2) by (induction ts arbitrary: p) (auto simp: get)

lemma plan_members_ok:
  assumes get: "\<And>p m t ps m' t'. get (add p m t ps) m' t' = (if m' = m \<and> t' = t then get p m t @ ps else get p m' t' :: int list)"
    and "distinct ms" and "\<forall>m \<in> set ms. distinct (topicsOf m)" and "0 \<le> step" and "idx + length ms \<le> M" and "M < 2 ^ 31"
    and "range_bound fused (of_nat M) step \<le> int (length parts)"
  shows "\<exists>q. plan_members add fused step parts topicsOf idx ms p = Ret q \<and> (\<forall>m. m \<notin> set ms \<longrightarrow> get q m = get p m) \<and>
    (\<forall>k < length ms. \<forall>t. get q (ms ! k) t =
       get p (ms ! k) t @ (if t \<in> set (topicsOf (ms ! k)) then plan_range fused step parts (idx + k) else []))"
  using assms(2,3,5)
proof (induction ms arbitrary: idx p)
  case (Cons m ms)
  let ?r = "plan_range fused step parts idx"
  let ?p = "fold (\<lambda>t p. add p m t ?r) (topicsOf m) p"
  have i: "idx < M" using Cons.prems(3) by simp
  have f: "float64 (of_nat idx) = of_nat idx" "float64 (of_nat idx + 1) = of_nat (Suc idx)"
    using float64_of_nat [of idx] float64_of_nat [of "Suc idx"] i assms(6) by (simp_all add: add.commute)
  have b: "0 \<le> range_bound fused (of_nat idx) step"
    "range_bound fused (of_nat idx) step \<le> range_bound fused (of_nat (Suc idx)) step"
    "range_bound fused (of_nat (Suc idx)) step \<le> int (length parts)"
    using range_bound_mono [of 0 "of_nat idx" step fused] range_bound_mono [of "of_nat idx" "of_nat (Suc idx)" step fused]
      range_bound_mono [of "of_nat (Suc idx)" "of_nat M" step fused] assms(4,7) i by simp_all
  have "plan_members add fused step parts topicsOf idx (m # ms) p = plan_members add fused step parts topicsOf (Suc idx) ms ?p"
    using b by (simp add: f Let_def plan_range_def)
  moreover obtain q where q: "plan_members add fused step parts topicsOf (Suc idx) ms ?p = Ret q" "\<forall>m. m \<notin> set ms \<longrightarrow> get q m = get ?p m"
    "\<forall>k < length ms. \<forall>t. get q (ms ! k) t =
       get ?p (ms ! k) t @ (if t \<in> set (topicsOf (ms ! k)) then plan_range fused step parts (Suc idx + k) else [])"
    using Cons.IH [of "Suc idx" ?p] Cons.prems by auto
  moreover have g: "get ?p m' t = get p m' t @ (if m' = m \<and> t \<in> set (topicsOf m) then ?r else [])" for m' t
    using fold_add_get [OF get, of "topicsOf m"] Cons.prems(2) by simp
  moreover have "get q ((m # ms) ! k) t = get p ((m # ms) ! k) t @
      (if t \<in> set (topicsOf ((m # ms) ! k)) then plan_range fused step parts (idx + k) else [])" if "k < length (m # ms)" for k t
    using that q(2,3) Cons.prems(1) by (cases k) (auto simp: g)
  moreover have "get q m' = get p m'" if "m' \<notin> set (m # ms)" for m'
    using that q(2) by (auto simp: g fun_eq_iff)
  ultimately show ?case by auto
qed simp

lemma Plan_ranges:
  assumes get: "\<And>p m t ps m' t'. get (add p m t ps) m' t' = (if m' = m \<and> t' = t then get p m t @ ps else get p m' t' :: int list)"
    and noPlan: "\<And>m t. get noPlan m t = []"
    and topics: "topics \<noteq> []" "\<forall>(t, ps) \<in> set topics. distinct ps \<and> set ps = set parts"
    and parts: "distinct parts" "parts \<noteq> []" "length parts < 2 ^ 31"
    and members: "gomap members" "\<forall>(m, ts) \<in> set members. distinct ts" "members \<noteq> []" "length members < 2 ^ 31"
    and strict: "failOnInconsistentTopics s \<longrightarrow> (\<forall>(m, ts) \<in> set members. topicsEqual (map fst topics) ts)"
  shows "\<exists>plan step. Plan add noPlan fused s members topics = Ret (Inr plan) \<and>
    concat (map (plan_range fused step (sort parts)) [0..<length members]) = sort parts \<and>
    (\<forall>k < length members. \<forall>t. get plan (sort (map fst members) ! k) t =
       (if t \<in> set (the (map_of members (sort (map fst members) ! k))) then plan_range fused step (sort parts) k else []))"
proof -
  obtain qs where qs: "collect_topics topics [] [] = Inr (map fst topics, qs)" "distinct qs" "set qs = set parts"
    using collect_topics_ok [OF topics(2), of "[]" "[]"] parts topics(1) by auto
  then have sorted: "sort qs = sort parts" "length qs = length parts"
    using parts(1) by (metis sorted_list_of_set_sort_remdups distinct_remdups_id, metis distinct_card)
  define step where "step = float64 (of_nat (length parts) / of_nat (length members))"
  define topicsOf where "topicsOf = (\<lambda>m. case map_of members m of None \<Rightarrow> [] | Some ts \<Rightarrow> ts)"
  have "float64 (of_nat (length parts)) = of_nat (length parts)" "float64 (of_nat (length members)) = of_nat (length members)"
    using parts(3) members(4) by (simp_all add: float64_of_nat)
  then have plan: "Plan add noPlan fused s members topics =
      go_bind (plan_members add fused step (sort parts) topicsOf 0 (sort (map fst members)) noPlan) (\<lambda>plan. Ret (Inr plan))"
    using qs(1) sorted collect_members_ok [OF strict] by (simp add: Plan_def step_def topicsOf_def Let_def)
  have step: "0 \<le> step" unfolding step_def by (rule float64_nonneg) simp
  have last': "range_bound fused (of_nat (length members)) step = int (length (sort parts))"
    using range_bound_last [of "length members" "length parts" step fused] members(3) parts(3) by (simp add: step_def)
  have "\<forall>m \<in> set (sort (map fst members)). distinct (topicsOf m)"
    using members(2) by (auto simp: topicsOf_def dest!: map_of_SomeD split: option.splits)
  then obtain q where q: "plan_members add fused step (sort parts) topicsOf 0 (sort (map fst members)) noPlan = Ret q"
    "\<forall>k < length members. \<forall>t. get q (sort (map fst members) ! k) t =
       (if t \<in> set (topicsOf (sort (map fst members) ! k)) then plan_range fused step (sort parts) k else [])"
    using plan_members_ok [OF get, of "sort (map fst members)" topicsOf step 0 "length members" fused "sort parts" noPlan]
      members(1,4) step last' by (auto simp: noPlan)
  let ?rs = "map (plan_range fused step (sort parts)) [0..<length members]"
  have "concat ?rs = take (nat (range_bound fused (of_nat (length members)) step)) (sort parts)"
    unfolding plan_range_def Let_def
    using range_bound_mono step by (intro slices_concat) (simp_all add: nat_mono)
  then have "concat ?rs = sort parts" using last' by simp
  moreover have "topicsOf (sort (map fst members) ! k) = the (map_of members (sort (map fst members) ! k))" if "k < length members" for k
  proof -
    have "sort (map fst members) ! k \<in> set (sort (map fst members))" using that by (intro nth_mem) simp
    then show ?thesis by (auto simp: topicsOf_def split: option.split) (metis domI domIff dom_map_of_conv_image_fst image_eqI fst_conv)
  qed
  ultimately show ?thesis using plan q by (intro exI [of _ q] exI [of _ step]) simp
qed

text \<open>C8: the plan assigns every partition once, and to each member the same partitions of all its topics. If
  the topics have the same partitions and, for the strict strategy, all members request all topics, the plan
  succeeds: it cuts the sorted partitions into one range for each member in the order of the member ids, and
  gives each member its range of each topic it requests. This holds with the rounding errors of the range
  bounds, fused or not.\<close>

theorem plan_covers_partitions:
  assumes get: "\<And>p m t ps m' t'. get (add p m t ps) m' t' = (if m' = m \<and> t' = t then get p m t @ ps else get p m' t' :: int list)"
    and noPlan: "\<And>m t. get noPlan m t = []"
    and topics: "topics \<noteq> []" "\<forall>(t, ps) \<in> set topics. distinct ps \<and> set ps = set parts"
    and parts: "distinct parts" "parts \<noteq> []" "length parts < 2 ^ 31"
    and members: "gomap members" "\<forall>(m, ts) \<in> set members. distinct ts" "members \<noteq> []" "length members < 2 ^ 31"
    and strict: "failOnInconsistentTopics s \<longrightarrow> (\<forall>(m, ts) \<in> set members. topicsEqual (map fst topics) ts)"
  shows "\<exists>plan rs. Plan add noPlan fused s members topics = Ret (Inr plan) \<and>
    length rs = length members \<and> concat rs = sort parts \<and>
    (\<forall>k < length members. \<forall>t. get plan (sort (map fst members) ! k) t =
       (if t \<in> set (the (map_of members (sort (map fst members) ! k))) then rs ! k else []))"
proof -
  obtain plan step where "Plan add noPlan fused s members topics = Ret (Inr plan)"
    "concat (map (plan_range fused step (sort parts)) [0..<length members]) = sort parts"
    "\<forall>k < length members. \<forall>t. get plan (sort (map fst members) ! k) t =
       (if t \<in> set (the (map_of members (sort (map fst members) ! k))) then plan_range fused step (sort parts) k else [])"
    using Plan_ranges [OF assms, of fused] by blast
  then show ?thesis by (intro exI [of _ plan] exI [of _ "map (plan_range fused step (sort parts)) [0..<length members]"]) simp
qed

definition sample_add :: "(string \<Rightarrow> string \<Rightarrow> int list) \<Rightarrow> string \<Rightarrow> string \<Rightarrow> int list \<Rightarrow> string \<Rightarrow> string \<Rightarrow> int list" where
  "sample_add p m t ps = p(m := (p m)(t := p m t @ ps))"

theorem plan_covers_partitions_witness:
  "\<exists>plan rs. Plan sample_add (\<lambda>m t. []) False CopartitioningStrategy [(''b'', [''x'']), (''a'', [''y'', ''x''])]
       [(''x'', [2, 0, 1]), (''y'', [0, 1, 2])] = Ret (Inr plan) \<and>
     concat rs = [0, 1, 2] \<and> plan ''a'' ''x'' = rs ! 0 \<and> plan ''a'' ''y'' = rs ! 0 \<and> plan ''b'' ''x'' = rs ! 1 \<and> plan ''b'' ''y'' = []"
proof -
  let ?ms = "[(''b'', [''x'']), (''a'', [''y'', ''x''])]" and ?ts = "[(''x'', [2, 0, 1 :: int]), (''y'', [0, 1, 2])]"
  have s: "sort (map fst ?ms) = [''a'', ''b'']" by code_simp
  have p: "sort [2, 0, 1 :: int] = [0, 1, 2]" by code_simp
  have e: "set [0, 1, 2 :: int] = set [2, 0, 1]" by auto
  have "\<exists>plan rs. Plan sample_add (\<lambda>m t. []) False CopartitioningStrategy ?ms ?ts = Ret (Inr plan) \<and>
     length rs = length ?ms \<and> concat rs = sort [2, 0, 1] \<and>
     (\<forall>k < length ?ms. \<forall>t. plan (sort (map fst ?ms) ! k) t = (if t \<in> set (the (map_of ?ms (sort (map fst ?ms) ! k))) then rs ! k else []))"
    using e by (intro plan_covers_partitions) (auto simp: sample_add_def CopartitioningStrategy_def)
  then obtain plan rs where pl: "Plan sample_add (\<lambda>m t. []) False CopartitioningStrategy ?ms ?ts = Ret (Inr plan)" "concat rs = [0, 1, 2]"
    "\<forall>k < 2. \<forall>t. plan ([''a'', ''b''] ! k) t = (if t \<in> set (the (map_of ?ms ([''a'', ''b''] ! k))) then rs ! k else [])"
    unfolding s p by auto
  from pl(3) [rule_format, of 0] pl(3) [rule_format, of 1] pl(1,2) show ?thesis by auto
qed

end
