(* ===== verification/Goka_Tester.thy ===== *)
theory Goka_Tester
  imports Goka_Processor
begin

text \<open>
  The tester (directory \<open>tester\<close>), which takes the place of Kafka in tests: the message queues and their
  trackers, the mocked topic manager, the consumers of partitions, and the sessions of a consumer group.

  \<^item> A queue is reached by its topic, also where the source holds a pointer to it: the tester never removes a
    queue, so both denote the same one.
  \<^item> Mutex-protected methods are atomic. Messages sent on an unbuffered channel are returned as the list of
    what the receiver gets.
  \<^item> A codec is compared by its dynamic type, the parameter \<open>typeOf\<close>.
\<close>

section \<open>Queues\<close>

record message =
  tmsg_offset :: int
  tmsg_key :: string
  tmsg_value :: slice
  tmsg_headers :: Headers

definition message_saramaHeaders :: "message \<Rightarrow> RecordHeader list" where
  "message_saramaHeaders m = map (\<lambda>(k, v). \<lparr>rh_Key = k, rh_Value = v\<rparr>) (hdr_entries (tmsg_headers m))"

record queue =
  qu_topic :: string
  qu_messages :: "message list"
  qu_hwm :: int

definition newQueue :: "string \<Rightarrow> queue" where
  "newQueue topic = \<lparr>qu_topic = topic, qu_messages = [], qu_hwm = 0\<rparr>"

definition queue_Hwm :: "queue \<Rightarrow> int" where
  "queue_Hwm q = qu_hwm q"

definition queue_push :: "string \<Rightarrow> slice \<Rightarrow> Headers \<Rightarrow> queue \<Rightarrow> queue \<times> int" where
  "queue_push key val hdr q =
     (let offset = qu_hwm q
      in (q\<lparr>qu_messages := qu_messages q @ [\<lparr>tmsg_offset = offset, tmsg_key = key, tmsg_value = val, tmsg_headers = hdr\<rparr>],
            qu_hwm := wrap64 (qu_hwm q + 1)\<rparr>, offset))"

definition queue_message :: "int \<Rightarrow> queue \<Rightarrow> message go" where
  "queue_message offset q =
     (if 0 \<le> offset \<and> offset < int (length (qu_messages q)) then Ret (qu_messages q ! nat offset)
      else Panic ''index out of range'')"

definition queue_messagesFromOffset :: "int \<Rightarrow> queue \<Rightarrow> message list go" where
  "queue_messagesFromOffset offset q =
     (if 0 \<le> offset \<and> offset \<le> int (length (qu_messages q)) then Ret (drop (nat offset) (qu_messages q))
      else Panic ''slice bounds out of range'')"

definition queue_size :: "queue \<Rightarrow> nat" where
  "queue_size q = length (qu_messages q)"

section \<open>Consumers of partitions\<close>

record partConsumerMock =
  pcm_hwm :: int
  pcm_queue :: string

definition to_consumer_message :: "string \<Rightarrow> message \<Rightarrow> ConsumerMessage" where
  "to_consumer_message topic msg =
     \<lparr>msg_Key = Some (tmsg_key msg), msg_Value = tmsg_value msg, msg_Topic = topic, msg_Partition = 0, msg_Offset = tmsg_offset msg,
      msg_Headers = message_saramaHeaders msg, msg_Timestamp = None\<rparr>"

text \<open>What \<open>catchup\<close> sends: every message is followed by a nil.\<close>

fun pcm_send :: "string \<Rightarrow> message list \<Rightarrow> partConsumerMock \<Rightarrow> partConsumerMock \<times> ConsumerMessage option list" where
  "pcm_send topic [] pcm = (pcm, [])"
| "pcm_send topic (msg # msgs) pcm =
     (case pcm_send topic msgs (pcm\<lparr>pcm_hwm := wrap64 (tmsg_offset msg + 1)\<rparr>) of
        (pcm, sent) \<Rightarrow> (pcm, Some (to_consumer_message topic msg) # None # sent))"

definition pcm_catchup :: "queue \<Rightarrow> partConsumerMock \<Rightarrow> (partConsumerMock \<times> ConsumerMessage option list \<times> nat) go" where
  "pcm_catchup q pcm =
     go_bind (queue_messagesFromOffset (pcm_hwm pcm) q) (\<lambda>msgs.
       case pcm_send (qu_topic q) msgs pcm of (pcm, sent) \<Rightarrow> Ret (pcm, sent, length msgs))"

record consumerMock =
  cm_requiredTopics :: "string list"
  cm_partConsumers :: "(string \<times> partConsumerMock) list"

definition newConsumerMock :: consumerMock where
  "newConsumerMock = \<lparr>cm_requiredTopics = [], cm_partConsumers = []\<rparr>"

definition cm_requirePartConsumer :: "string \<Rightarrow> consumerMock \<Rightarrow> consumerMock" where
  "cm_requirePartConsumer topic cm = cm\<lparr>cm_requiredTopics := List.insert topic (cm_requiredTopics cm)\<rparr>"

definition cm_doCheck :: "consumerMock \<Rightarrow> bool" where
  "cm_doCheck cm \<longleftrightarrow> (\<forall>topic \<in> set (cm_requiredTopics cm). map_of (cm_partConsumers cm) topic \<noteq> None)"

definition cm_ConsumePartition :: "string \<Rightarrow> int \<Rightarrow> consumerMock \<Rightarrow> consumerMock \<times> partConsumerMock result" where
  "cm_ConsumePartition topic offset cm =
     (if map_of (cm_partConsumers cm) topic \<noteq> None then (cm, Inl (Err ''Got duplicate consume partition for topic %s''))
      else let cons = \<lparr>pcm_hwm = offset, pcm_queue = topic\<rparr>
           in (cm\<lparr>cm_partConsumers := map_put topic cons (cm_partConsumers cm)\<rparr>, Inr cons))"

text \<open>Closing a partition consumer: the function \<open>closer\<close>.\<close>

definition cm_close :: "string \<Rightarrow> consumerMock \<Rightarrow> consumerMock \<times> gerr option" where
  "cm_close topic cm =
     (if map_of (cm_partConsumers cm) topic = None then (cm, Some (Err ''partition consumer seems already closed''))
      else (cm\<lparr>cm_partConsumers := map_del topic (cm_partConsumers cm)\<rparr>, None))"

section \<open>Sessions of a consumer group\<close>

text \<open>A session holds for each topic its claim and the offset to continue from; the keys of the messages that
  have been pushed and not marked; and the counter of the wait group, which panics below zero.\<close>

record cgSession =
  cgs_generation :: int
  cgs_claims :: "string list"
  cgs_queues :: "(string \<times> int) list"
  cgs_waitingMessages :: "string list"
  cgs_wg :: int

definition newCgSession :: "int \<Rightarrow> string list \<Rightarrow> cgSession" where
  "newCgSession generation topics =
     \<lparr>cgs_generation = generation, cgs_claims = remdups topics, cgs_queues = fold (\<lambda>topic. map_put topic 0) topics [],
      cgs_waitingMessages = [], cgs_wg = 0\<rparr>"

definition cgs_Claims :: "cgSession \<Rightarrow> (string \<times> int list) list" where
  "cgs_Claims cgs = map (\<lambda>topic. (topic, [0])) (cgs_claims cgs)"

definition makeMsgKey :: "string \<Rightarrow> int \<Rightarrow> string" where
  "makeMsgKey topic offset = topic @ ''-'' @ FormatInt offset"

definition wg_Add :: "int \<Rightarrow> cgSession \<Rightarrow> cgSession go" where
  "wg_Add delta cgs =
     (if cgs_wg cgs + delta < 0 then Panic ''sync: negative WaitGroup counter''
      else Ret (cgs\<lparr>cgs_wg := cgs_wg cgs + delta\<rparr>))"

definition setHwmIfNewer :: "int \<Rightarrow> int \<Rightarrow> int" where
  "setHwmIfNewer hwm old = (if old < hwm then hwm else old)"

definition cgs_MarkOffset :: "string \<Rightarrow> int \<Rightarrow> cgSession \<Rightarrow> cgSession go" where
  "cgs_MarkOffset topic offset cgs =
     (let msgKey = makeMsgKey topic offset
      in go_bind (if msgKey \<notin> set (cgs_waitingMessages cgs) then Ret cgs
                  else go_bind (wg_Add (- 1) cgs) (\<lambda>cgs.
                    Ret (cgs\<lparr>cgs_waitingMessages := removeAll msgKey (cgs_waitingMessages cgs)\<rparr>))) (\<lambda>cgs.
           case map_of (cgs_queues cgs) topic of
             None \<Rightarrow> nil_deref
           | Some hwm \<Rightarrow> Ret (cgs\<lparr>cgs_queues := map_put topic (setHwmIfNewer (wrap64 (offset + 1)) hwm) (cgs_queues cgs)\<rparr>)))"

text \<open>Pushing a message to a claim; \<open>closed\<close> says that the context is closed before a receiver takes it.\<close>

definition cgs_pushMessageToClaim :: "bool \<Rightarrow> string \<Rightarrow> message \<Rightarrow> cgSession \<Rightarrow> (cgSession \<times> ConsumerMessage option) go" where
  "cgs_pushMessageToClaim closed topic msg cgs =
     (let msgKey = makeMsgKey topic (tmsg_offset msg)
      in if msgKey \<in> set (cgs_waitingMessages cgs) then Panic ''There's a duplicate message offset in the same topic/partition''
         else go_bind (wg_Add 1 (cgs\<lparr>cgs_waitingMessages := msgKey # cgs_waitingMessages cgs\<rparr>)) (\<lambda>cgs.
           if closed then go_bind (wg_Add (- 1) cgs) (\<lambda>cgs. Ret (cgs, None))
           else Ret (cgs, Some (to_consumer_message topic msg))))"

text \<open>Catching up runs beside the processor, which marks the messages it has received, and beside the
  producers. The control state of \<open>catchupAndWait\<close>: pushing the rest of what has been read from a queue, with
  the topics still to read and the number of messages pushed; waiting for the marks; or returned, with the
  reason. \<open>ct_sent\<close> is what the claims have received of each topic. A slice is never longer than the largest
  \<open>int\<close>.\<close>

datatype catchup_pc =
    CatchupPushing string "message list" "string list" nat
  | CatchupWaiting nat
  | CatchupReturned nat bool

record catchup_state =
  ct_queues :: "string \<Rightarrow> queue"
  ct_session :: cgSession
  ct_sent :: "string \<Rightarrow> message list"
  ct_pc :: catchup_pc

inductive catchup_step :: "catchup_state \<Rightarrow> catchup_state \<Rightarrow> bool" where
  start: "ct_pc s = CatchupReturned n True \<Longrightarrow> mset (topic # topics) = mset (map fst (cgs_queues (ct_session s))) \<Longrightarrow>
    map_of (cgs_queues (ct_session s)) topic = Some hwm \<Longrightarrow>
    queue_messagesFromOffset hwm (ct_queues s topic) = Ret msgs \<Longrightarrow>
    catchup_step s (s\<lparr>ct_pc := CatchupPushing topic msgs topics 0\<rparr>)"
| read: "ct_pc s = CatchupPushing topic' [] (topic # topics) n \<Longrightarrow>
    map_of (cgs_queues (ct_session s)) topic = Some hwm \<Longrightarrow>
    queue_messagesFromOffset hwm (ct_queues s topic) = Ret msgs \<Longrightarrow>
    catchup_step s (s\<lparr>ct_pc := CatchupPushing topic msgs topics n\<rparr>)"
| push: "ct_pc s = CatchupPushing topic (msg # msgs) topics n \<Longrightarrow>
    cgs_pushMessageToClaim False topic msg (ct_session s) = Ret (cgs, Some m) \<Longrightarrow>
    catchup_step s (s\<lparr>ct_pc := CatchupPushing topic msgs topics (Suc n), ct_session := cgs,
      ct_sent := (ct_sent s)(topic := ct_sent s topic @ [msg])\<rparr>)"
| wait: "ct_pc s = CatchupPushing topic [] [] n \<Longrightarrow> catchup_step s (s\<lparr>ct_pc := CatchupWaiting n\<rparr>)"
| return': "ct_pc s = CatchupWaiting n \<Longrightarrow> cgs_wg (ct_session s) = 0 \<Longrightarrow>
    catchup_step s (s\<lparr>ct_pc := CatchupReturned n True\<rparr>)"
| cancel: "ct_pc s = CatchupWaiting n \<Longrightarrow> catchup_step s (s\<lparr>ct_pc := CatchupReturned 0 False\<rparr>)"
| mark: "msg \<in> set (ct_sent s topic) \<Longrightarrow> cgs_MarkOffset topic (tmsg_offset msg) (ct_session s) = Ret cgs \<Longrightarrow>
    catchup_step s (s\<lparr>ct_session := cgs\<rparr>)"
| produce: "int (length (qu_messages (ct_queues s topic))) < 2 ^ 63 - 1 \<Longrightarrow>
    catchup_step s (s\<lparr>ct_queues := (ct_queues s)(topic := fst (queue_push key val hdr (ct_queues s topic)))\<rparr>)"

section \<open>The tester\<close>

record client =
  tc_consumerGroup :: bool
  tc_consumer :: consumerMock

record Tester =
  tt_clients :: "(string \<times> client) list"
  tt_codecs :: "string \<rightharpoonup> Codec option"
  tt_queues :: "string \<rightharpoonup> queue"
  tt_storages :: "(string \<times> memory) list"

definition New :: Tester where
  "New = \<lparr>tt_clients = [], tt_codecs = Map.empty, tt_queues = Map.empty, tt_storages = []\<rparr>"

text \<open>The queue for a topic, and the tester that has it.\<close>

definition tt_queue :: "Tester \<Rightarrow> string \<Rightarrow> queue" where
  "tt_queue tt topic = (case tt_queues tt topic of None \<Rightarrow> newQueue topic | Some q \<Rightarrow> q)"

definition getOrCreateQueue :: "string \<Rightarrow> Tester \<Rightarrow> Tester" where
  "getOrCreateQueue topic tt = tt\<lparr>tt_queues := (tt_queues tt)(topic \<mapsto> tt_queue tt topic)\<rparr>"

definition tt_nextClient :: "Tester \<Rightarrow> Tester \<times> string" where
  "tt_nextClient tt =
     (let clientID = ''client-'' @ FormatInt (int (length (tt_clients tt)))
      in (tt\<lparr>tt_clients := map_put clientID \<lparr>tc_consumerGroup = False, tc_consumer = newConsumerMock\<rparr> (tt_clients tt)\<rparr>, clientID))"

definition codecForTopic :: "string \<Rightarrow> Tester \<Rightarrow> Codec option go" where
  "codecForTopic topic tt =
     (case tt_codecs tt topic of None \<Rightarrow> Panic ''no codec for topic %s registered'' | Some c \<Rightarrow> Ret c)"

definition registerCodec :: "(Codec option \<Rightarrow> string) \<Rightarrow> string \<Rightarrow> Codec option \<Rightarrow> Tester \<Rightarrow> Tester go" where
  "registerCodec typeOf topic codec tt =
     (let tt = getOrCreateQueue topic tt
      in case tt_codecs tt topic of
           Some existingCodec \<Rightarrow>
             if typeOf codec \<noteq> typeOf existingCodec
             then Panic ''There are different codecs for the same topic. This is messed up (%#v, %#v)''
             else Ret (tt\<lparr>tt_codecs := (tt_codecs tt)(topic \<mapsto> codec)\<rparr>)
         | None \<Rightarrow> Ret (tt\<lparr>tt_codecs := (tt_codecs tt)(topic \<mapsto> codec)\<rparr>))"

fun register_all :: "(Codec option \<Rightarrow> string) \<Rightarrow> topicDef list \<Rightarrow> Tester \<Rightarrow> Tester go" where
  "register_all typeOf [] tt = Ret tt"
| "register_all typeOf (t # ts) tt = go_bind (registerCodec typeOf (td_name t) (td_codec t) tt) (register_all typeOf ts)"

definition RegisterGroupGraph :: "(Codec option \<Rightarrow> string) \<Rightarrow> 'cb GroupGraph \<Rightarrow> Tester \<Rightarrow> (Tester \<times> string) go" where
  "RegisterGroupGraph typeOf gg tt =
     (case tt_nextClient tt of
        (tt, clientID) \<Rightarrow>
          let tt = (if GroupGraph_GroupTable gg \<noteq> None \<or> 0 < length (gg_inputStreams gg)
                    then tt\<lparr>tt_clients := map_put clientID
                      ((the (map_of (tt_clients tt) clientID))\<lparr>tc_consumerGroup := True\<rparr>) (tt_clients tt)\<rparr>
                    else tt)
          in go_bind (register_all typeOf
               ((case GroupGraph_GroupTable gg of None \<Rightarrow> [] | Some t \<Rightarrow> [t]) @ gg_inputStreams gg @ gg_outputStreams gg @
                gg_inputTables gg @ (case GroupGraph_LoopStream gg of None \<Rightarrow> [] | Some t \<Rightarrow> [t]) @ gg_crossTables gg) tt) (\<lambda>tt.
             Ret (tt, clientID)))"

definition RegisterView :: "(Codec option \<Rightarrow> string) \<Rightarrow> string \<Rightarrow> Codec option \<Rightarrow> Tester \<Rightarrow> (Tester \<times> string) go" where
  "RegisterView typeOf table c tt =
     go_bind (registerCodec typeOf table c tt) (\<lambda>tt.
       case tt_nextClient tt of
         (tt, clientID) \<Rightarrow>
           let cl = the (map_of (tt_clients tt) clientID)
           in Ret (tt\<lparr>tt_clients := map_put clientID (cl\<lparr>tc_consumer := cm_requirePartConsumer table (tc_consumer cl)\<rparr>)
                (tt_clients tt)\<rparr>, clientID))"

definition RegisterEmitter :: "(Codec option \<Rightarrow> string) \<Rightarrow> string \<Rightarrow> Codec option \<Rightarrow> Tester \<Rightarrow> Tester go" where
  "RegisterEmitter typeOf topic codec tt = registerCodec typeOf topic codec tt"

definition ConsumerGroupBuilder :: "string \<Rightarrow> Tester \<Rightarrow> unit result" where
  "ConsumerGroupBuilder clientID tt =
     (case map_of (tt_clients tt) clientID of
        None \<Rightarrow> Inl (Err ''cannot create consumergroup because no client registered with ID: %s'')
      | Some cl \<Rightarrow> if \<not> tc_consumerGroup cl then Inl (Err ''Did not expect a group graph'') else Inr ())"

definition ConsumerBuilder :: "string \<Rightarrow> Tester \<Rightarrow> consumerMock result" where
  "ConsumerBuilder clientID tt =
     (case map_of (tt_clients tt) clientID of
        None \<Rightarrow> Inl (Err ''cannot create sarama consumer because no client registered with ID: %s'')
      | Some cl \<Rightarrow> Inr (tc_consumer cl))"

definition pushMessage :: "string \<Rightarrow> string \<Rightarrow> slice \<Rightarrow> Headers \<Rightarrow> Tester \<Rightarrow> Tester \<times> int" where
  "pushMessage topic key data hdr tt =
     (case queue_push key data hdr (tt_queue tt topic) of
        (q, offset) \<Rightarrow> (tt\<lparr>tt_queues := (tt_queues tt)(topic \<mapsto> q)\<rparr>, offset))"

text \<open>The options of an emit are the header maps passed with \<open>WithHeaders\<close>, copied into one map; without
  options it stays nil.\<close>

definition WithHeaders :: "Headers \<Rightarrow> Headers \<Rightarrow> Headers" where
  "WithHeaders hdr opts = Some (map_copy (hdr_entries hdr) (case opts of None \<Rightarrow> [] | Some hs \<Rightarrow> hs))"

definition applyEmitOptions :: "Headers list \<Rightarrow> Headers" where
  "applyEmitOptions options = fold WithHeaders options None"

text \<open>The promise that is returned has been finished without an error.\<close>

definition handleEmit :: "string \<Rightarrow> string \<Rightarrow> slice \<Rightarrow> Headers list \<Rightarrow> Tester \<Rightarrow> Tester \<times> int" where
  "handleEmit topic key val options tt = pushMessage topic key val (applyEmitOptions options) tt"

definition mock_EmitWithHeaders :: "string \<Rightarrow> string \<Rightarrow> slice \<Rightarrow> Headers \<Rightarrow> Tester \<Rightarrow> Tester \<times> int" where
  "mock_EmitWithHeaders topic key val header tt = handleEmit topic key val [header] tt"

definition mock_Emit :: "string \<Rightarrow> string \<Rightarrow> slice \<Rightarrow> Tester \<Rightarrow> Tester \<times> int" where
  "mock_Emit topic key val tt = handleEmit topic key val [] tt"

text \<open>The part of \<open>Consume\<close> between waiting for the start and waiting for the clients. A nil pointer of a typed
  message counts as nil; \<open>VNil\<close> stands for both.\<close>

definition tt_Consume :: "string \<Rightarrow> string \<Rightarrow> gval \<Rightarrow> Headers list \<Rightarrow> Tester \<Rightarrow> Tester go" where
  "tt_Consume topic key msg options tt =
     (if msg = VNil then Ret (fst (pushMessage topic key None (applyEmitOptions options) tt))
      else go_bind (codecForTopic topic tt) (\<lambda>codec.
        case codec of
          None \<Rightarrow> nil_deref
        | Some c \<Rightarrow>
            (case codec_Encode c msg of
               Inl err \<Rightarrow> Panic ''Error encoding value %v: %v''
             | Inr data \<Rightarrow> Ret (fst (pushMessage topic key data (applyEmitOptions options) tt)))))"

subsection \<open>Tables\<close>

text \<open>\<open>Fatalf\<close> of the test ends the goroutine: it is modelled as a panic with its message.\<close>

definition getOrCreateStorage :: "string \<Rightarrow> Tester \<Rightarrow> Tester \<times> memory" where
  "getOrCreateStorage table tt =
     (case map_of (tt_storages tt) table of
        Some st \<Rightarrow> (tt, st)
      | None \<Rightarrow> (tt\<lparr>tt_storages := map_put table NewMemory (tt_storages tt)\<rparr>, NewMemory))"

definition TableValue :: "string \<Rightarrow> string \<Rightarrow> Tester \<Rightarrow> gval go" where
  "TableValue table key tt =
     (case map_of (tt_storages tt) table of
        None \<Rightarrow> Panic ''topic %s does not exist''
      | Some st \<Rightarrow>
          (case memory_Get st key of
             Inl err \<Rightarrow> Panic ''Error getting table value from storage (table=%s, key=%s): %v''
           | Inr None \<Rightarrow> Ret VNil
           | Inr item \<Rightarrow>
               go_bind (codecForTopic table tt) (\<lambda>codec.
                 case codec of
                   None \<Rightarrow> nil_deref
                 | Some c \<Rightarrow>
                     (case codec_Decode c item of
                        Inl err \<Rightarrow> Panic ''error decoding value from storage (table=%s, key=%s, value=%v): %v''
                      | Inr val \<Rightarrow> Ret val))))"

definition SetTableValue :: "string \<Rightarrow> string \<Rightarrow> gval \<Rightarrow> Tester \<Rightarrow> Tester go" where
  "SetTableValue table key val tt =
     (case getOrCreateStorage table tt of
        (tt, st) \<Rightarrow>
          go_bind (codecForTopic table tt) (\<lambda>codec.
            case codec of
              None \<Rightarrow> nil_deref
            | Some c \<Rightarrow>
                (case codec_Encode c val of
                   Inl err \<Rightarrow> Panic ''error decoding value from storage (table=%s, key=%s, value=%v): %v''
                 | Inr data \<Rightarrow>
                     (case memory_Set st key data of
                        (st, Some err) \<Rightarrow> Panic ''Error setting key %s in storage %s: %v''
                      | (st, None) \<Rightarrow> Ret (tt\<lparr>tt_storages := map_put table st (tt_storages tt)\<rparr>)))))"

text \<open>The iterator of the in-memory storage runs over the keys it had when it was created.\<close>

definition ClearValues :: "Tester \<Rightarrow> Tester" where
  "ClearValues tt = tt\<lparr>tt_storages := map (\<lambda>(topic, st). (topic, fold (\<lambda>k st. fst (memory_Delete st k)) (mem_keys st) st)) (tt_storages tt)\<rparr>"

definition GetTableKeys :: "string \<Rightarrow> Tester \<Rightarrow> string list go" where
  "GetTableKeys table tt =
     (case map_of (tt_storages tt) table of None \<Rightarrow> Panic ''topic %s does not exist'' | Some st \<Rightarrow> Ret (mem_keys st))"

subsection \<open>Queue trackers\<close>

record QueueTracker =
  qt_topic :: string
  qt_nextOffset :: int

definition NewQueueTracker :: "string \<Rightarrow> Tester \<Rightarrow> Tester \<times> QueueTracker" where
  "NewQueueTracker topic tt =
     (getOrCreateQueue topic tt, \<lparr>qt_topic = topic, qt_nextOffset = qu_hwm (tt_queue tt topic)\<rparr>)"

definition NextRawWithHeaders :: "Tester \<Rightarrow> QueueTracker \<Rightarrow> (QueueTracker \<times> (Headers \<times> string \<times> slice) option) go" where
  "NextRawWithHeaders tt mt =
     (let q = tt_queue tt (qt_topic mt)
      in if int (queue_size q) \<le> qt_nextOffset mt then Ret (mt, None)
         else go_bind (queue_message (qt_nextOffset mt) q) (\<lambda>msg.
           Ret (mt\<lparr>qt_nextOffset := wrap64 (qt_nextOffset mt + 1)\<rparr>, Some (tmsg_headers msg, tmsg_key msg, tmsg_value msg))))"

definition NextRaw :: "Tester \<Rightarrow> QueueTracker \<Rightarrow> (QueueTracker \<times> (string \<times> slice) option) go" where
  "NextRaw tt mt = go_bind (NextRawWithHeaders tt mt) (\<lambda>(mt, r). Ret (mt, map_option snd r))"

definition NextWithHeaders :: "Tester \<Rightarrow> QueueTracker \<Rightarrow> (QueueTracker \<times> (Headers \<times> string \<times> gval) option) go" where
  "NextWithHeaders tt mt =
     go_bind (NextRawWithHeaders tt mt) (\<lambda>(mt, r).
       case r of
         None \<Rightarrow> Ret (mt, None)
       | Some (hdr, key, msgRaw) \<Rightarrow>
           go_bind (codecForTopic (qt_topic mt) tt) (\<lambda>codec.
             case codec of
               None \<Rightarrow> nil_deref
             | Some c \<Rightarrow>
                 (case codec_Decode c msgRaw of
                    Inl err \<Rightarrow> Panic ''Error decoding message: %v''
                  | Inr val \<Rightarrow> Ret (mt, Some (hdr, key, val)))))"

definition Next :: "Tester \<Rightarrow> QueueTracker \<Rightarrow> (QueueTracker \<times> (string \<times> gval) option) go" where
  "Next tt mt = go_bind (NextWithHeaders tt mt) (\<lambda>(mt, r). Ret (mt, map_option snd r))"

definition qt_Seek :: "int \<Rightarrow> QueueTracker \<Rightarrow> QueueTracker" where
  "qt_Seek offset mt = mt\<lparr>qt_nextOffset := offset\<rparr>"

definition qt_Hwm :: "Tester \<Rightarrow> QueueTracker \<Rightarrow> int" where
  "qt_Hwm tt mt = queue_Hwm (tt_queue tt (qt_topic mt))"

section \<open>The mocked topic manager\<close>

definition mock_EnsureTableExists :: "string \<Rightarrow> int \<Rightarrow> Tester \<Rightarrow> Tester \<times> gerr option" where
  "mock_EnsureTableExists topic npar tt =
     (if npar \<noteq> 1 then (tt, Some (Err ''Mock only supports 1 partition'')) else (getOrCreateQueue topic tt, None))"

definition mock_EnsureStreamExists :: "string \<Rightarrow> int \<Rightarrow> Tester \<Rightarrow> Tester \<times> gerr option" where
  "mock_EnsureStreamExists topic npar tt = (getOrCreateQueue topic tt, None)"

definition mock_EnsureTopicExists :: "string \<Rightarrow> int \<Rightarrow> int \<Rightarrow> topicConfig \<Rightarrow> Tester \<Rightarrow> Tester \<times> gerr option" where
  "mock_EnsureTopicExists topic npar rfactor config tt = (getOrCreateQueue topic tt, None)"

definition mock_Partitions :: "string \<Rightarrow> Tester \<Rightarrow> Tester \<times> int list result" where
  "mock_Partitions topic tt = (tt, Inr [0])"

definition mock_GetOffset :: "string \<Rightarrow> int \<Rightarrow> int \<Rightarrow> Tester \<Rightarrow> Tester \<times> int result" where
  "mock_GetOffset topicName partitionID time tt =
     (getOrCreateQueue topicName tt,
      if time = OffsetOldest then Inr 0
      else if time = OffsetNewest then Inr (queue_Hwm (tt_queue tt topicName))
      else Inl (Err ''only oldest and newest are supported in the mock''))"

definition MockTopicManager :: "Tester TopicManager" where
  "MockTopicManager = \<lparr>tmi_EnsureTableExists = mock_EnsureTableExists, tmi_EnsureStreamExists = mock_EnsureStreamExists,
     tmi_EnsureTopicExists = mock_EnsureTopicExists, tmi_Partitions = mock_Partitions, tmi_GetOffset = mock_GetOffset,
     tmi_Close = (\<lambda>tt. (tt, None))\<rparr>"

text \<open>For the mock, every topic exists, with one partition.\<close>

interpretation mock: topic_manager MockTopicManager "\<lambda>tt t. Some [0]"
  by unfold_locales (auto simp: MockTopicManager_def mock_Partitions_def mock_EnsureStreamExists_def mock_EnsureTableExists_def)

section \<open>The queues keep the offsets\<close>

definition queue_ok :: "queue \<Rightarrow> bool" where
  "queue_ok q \<longleftrightarrow> qu_hwm q = int (length (qu_messages q)) \<and> int (length (qu_messages q)) < 2 ^ 63 \<and>
     (\<forall>i < length (qu_messages q). tmsg_offset (qu_messages q ! i) = int i)"

lemma queue_ok_new [simp]: "queue_ok (newQueue topic)"
  by (simp add: queue_ok_def newQueue_def)

lemma queue_push_ok:
  assumes "queue_ok q" and "int (length (qu_messages q)) < 2 ^ 63 - 1"
  shows "queue_ok (fst (queue_push key val hdr q)) \<and>
    qu_messages (fst (queue_push key val hdr q)) = qu_messages q @
      [\<lparr>tmsg_offset = int (length (qu_messages q)), tmsg_key = key, tmsg_value = val, tmsg_headers = hdr\<rparr>]"
  using assms by (auto simp: queue_ok_def queue_push_def Let_def nth_append wrap64_id)

section \<open>Keys of messages\<close>

lemma append_sep_inj:
  assumes "xs @ c # ds = ys @ c # es" and "c \<notin> set ds" and "c \<notin> set es"
  shows "xs = ys \<and> ds = es"
proof -
  have "takeWhile (\<lambda>x. x \<noteq> c) (rev (zs @ c # fs)) = rev fs" if "c \<notin> set fs" for zs fs
    using that by (simp, subst takeWhile_append2) auto
  then have "rev ds = rev es" using assms by metis
  then show ?thesis using assms(1) by simp
qed

lemma makeMsgKey_inj:
  assumes "makeMsgKey t (int i) = makeMsgKey t' (int j)" and "int i < 2 ^ 63" and "int j < 2 ^ 63"
  shows "t = t' \<and> i = j"
proof -
  have digits: "CHR ''-'' \<notin> set (FormatInt (int k))" for k
    using format_nat_digits [of "CHR ''-''" k] by (auto simp: FormatInt_def)
  from append_sep_inj [of t "CHR ''-''" "FormatInt (int i)" t' "FormatInt (int j)"] assms(1) digits
  have "t = t' \<and> FormatInt (int i) = FormatInt (int j)" by (simp add: makeMsgKey_def)
  moreover have "ParseInt (FormatInt (int i)) = Inr (int i)" "ParseInt (FormatInt (int j)) = Inr (int j)"
    using assms(2,3) by (intro ParseInt_FormatInt; linarith)+
  ultimately show ?thesis by (metis sum.inject(2) of_nat_eq_iff)
qed

section \<open>Sessions deliver every message once\<close>

abbreviation ct_msgs :: "catchup_state \<Rightarrow> string \<Rightarrow> message list" where
  "ct_msgs s t \<equiv> qu_messages (ct_queues s t)"

text \<open>What a claim has received is a prefix of the queue; the offset to continue from is in that prefix, and all
  messages after it are waiting; and only received messages are waiting.\<close>

definition session_ok :: "catchup_state \<Rightarrow> bool" where
  "session_ok s \<longleftrightarrow>
     (\<forall>t. queue_ok (ct_queues s t) \<and> ct_sent s t = take (length (ct_sent s t)) (ct_msgs s t)) \<and>
     distinct (cgs_waitingMessages (ct_session s)) \<and> cgs_wg (ct_session s) = int (length (cgs_waitingMessages (ct_session s))) \<and>
     (\<forall>t h. map_of (cgs_queues (ct_session s)) t = Some h \<longrightarrow> 0 \<le> h \<and> h \<le> int (length (ct_sent s t)) \<and>
        (\<forall>i. h \<le> int i \<and> i < length (ct_sent s t) \<longrightarrow> makeMsgKey t (int i) \<in> set (cgs_waitingMessages (ct_session s)))) \<and>
     (\<forall>k \<in> set (cgs_waitingMessages (ct_session s)). \<exists>t i. k = makeMsgKey t (int i) \<and> i < length (ct_sent s t)) \<and>
     (\<forall>t. map_of (cgs_queues (ct_session s)) t = None \<longrightarrow> ct_sent s t = [])"

definition caught_up :: "catchup_state \<Rightarrow> string \<Rightarrow> bool" where
  "caught_up s t \<longleftrightarrow> map_of (cgs_queues (ct_session s)) t = Some (int (length (ct_sent s t)))"

definition pc_ok :: "catchup_state \<Rightarrow> bool" where
  "pc_ok s \<longleftrightarrow>
     (case ct_pc s of
        CatchupPushing t msgs ts n \<Rightarrow> t \<notin> set ts \<and> distinct ts \<and> (\<forall>t' \<in> set ts. caught_up s t') \<and>
          map_of (cgs_queues (ct_session s)) t \<noteq> None \<and> (\<exists>k. msgs = take k (drop (length (ct_sent s t)) (ct_msgs s t)))
      | CatchupReturned n True \<Rightarrow> cgs_waitingMessages (ct_session s) = []
      | _ \<Rightarrow> True)"

lemma sent_offset:
  assumes "session_ok s" and "msg \<in> set (ct_sent s t)"
  obtains i where "i < length (ct_sent s t)" and "tmsg_offset msg = int i" and "int (length (ct_sent s t)) < 2 ^ 63"
proof -
  have q: "queue_ok (ct_queues s t)" "ct_sent s t = take (length (ct_sent s t)) (ct_msgs s t)"
    using assms(1) by (simp_all add: session_ok_def)
  obtain i where i: "i < length (ct_sent s t)" "msg = ct_sent s t ! i" using assms(2) by (metis in_set_conv_nth)
  have le: "length (ct_sent s t) \<le> length (ct_msgs s t)" using q(2) by (metis length_take min.cobounded1)
  then have "msg = ct_msgs s t ! i" using i q(2) by (metis nth_take)
  then have "tmsg_offset msg = int i" using q(1) i le by (simp add: queue_ok_def)
  then show ?thesis using that i(1) le q(1) by (simp add: queue_ok_def)
qed

lemma setHwmIfNewer_max: "setHwmIfNewer hwm old = max old hwm"
  by (simp add: setHwmIfNewer_def max_def)

lemma MarkOffset_result:
  assumes "session_ok s" and "msg \<in> set (ct_sent s t)" and "cgs_MarkOffset t (tmsg_offset msg) (ct_session s) = Ret cgs"
  obtains i h where "i < length (ct_sent s t)" and "int (length (ct_sent s t)) < 2 ^ 63"
    and "map_of (cgs_queues (ct_session s)) t = Some h"
    and "cgs_queues cgs = map_put t (max h (int i + 1)) (cgs_queues (ct_session s))"
    and "cgs_waitingMessages cgs = removeAll (makeMsgKey t (int i)) (cgs_waitingMessages (ct_session s))"
    and "cgs_wg cgs = int (length (cgs_waitingMessages cgs))"
proof -
  obtain i where i: "i < length (ct_sent s t)" "tmsg_offset msg = int i" "int (length (ct_sent s t)) < 2 ^ 63"
    using sent_offset [OF assms(1,2)] .
  have w: "wrap64 (int i + 1) = int i + 1" using i by (intro wrap64_id) simp
  have d: "distinct (cgs_waitingMessages (ct_session s))" "cgs_wg (ct_session s) = int (length (cgs_waitingMessages (ct_session s)))"
    using assms(1) by (simp_all add: session_ok_def)
  let ?k = "makeMsgKey t (int i)"
  have len: "length (removeAll ?k (cgs_waitingMessages (ct_session s))) =
      length (cgs_waitingMessages (ct_session s)) - (if ?k \<in> set (cgs_waitingMessages (ct_session s)) then 1 else 0)"
    using d(1) by (simp add: distinct_remove1_removeAll [symmetric] length_remove1)
  have pos: "?k \<in> set (cgs_waitingMessages (ct_session s)) \<Longrightarrow> 0 < length (cgs_waitingMessages (ct_session s))" by auto
  obtain h where h: "map_of (cgs_queues (ct_session s)) t = Some h"
    using assms(3) by (cases "map_of (cgs_queues (ct_session s)) t")
      (auto simp: cgs_MarkOffset_def wg_Add_def Let_def go_bind_eq_Ret nil_deref_def split: if_splits)
  show ?thesis
  proof (rule that [OF i(1,3) h])
    show "cgs_queues cgs = map_put t (max h (int i + 1)) (cgs_queues (ct_session s))"
      using assms(3) h i(2) w by (auto simp: cgs_MarkOffset_def wg_Add_def Let_def go_bind_eq_Ret setHwmIfNewer_max split: if_splits)
    show "cgs_waitingMessages cgs = removeAll ?k (cgs_waitingMessages (ct_session s))"
      using assms(3) h i(2) by (auto simp: cgs_MarkOffset_def wg_Add_def Let_def go_bind_eq_Ret split: if_splits)
    then show "cgs_wg cgs = int (length (cgs_waitingMessages cgs))"
      using assms(3) h i(2) d(2) len pos
      by (auto simp: cgs_MarkOffset_def wg_Add_def Let_def go_bind_eq_Ret of_nat_diff Suc_le_eq split: if_splits)
  qed
qed

lemma mark_ok:
  assumes inv: "session_ok s" "pc_ok s" and "msg \<in> set (ct_sent s t)" and "cgs_MarkOffset t (tmsg_offset msg) (ct_session s) = Ret cgs"
  shows "session_ok (s\<lparr>ct_session := cgs\<rparr>) \<and> pc_ok (s\<lparr>ct_session := cgs\<rparr>)"
proof -
  obtain i h where i: "i < length (ct_sent s t)" "int (length (ct_sent s t)) < 2 ^ 63" "map_of (cgs_queues (ct_session s)) t = Some h"
    and cgs: "cgs_queues cgs = map_put t (max h (int i + 1)) (cgs_queues (ct_session s))"
      "cgs_waitingMessages cgs = removeAll (makeMsgKey t (int i)) (cgs_waitingMessages (ct_session s))"
      "cgs_wg cgs = int (length (cgs_waitingMessages cgs))"
    using MarkOffset_result [OF inv(1) assms(3,4)] .
  have small: "int (length (ct_sent s t')) < 2 ^ 63" for t'
  proof -
    have "queue_ok (ct_queues s t')" "length (ct_sent s t') \<le> length (ct_msgs s t')"
      using inv(1) unfolding session_ok_def by (auto, metis length_take min.cobounded1)
    then show ?thesis by (simp add: queue_ok_def)
  qed
  have keep: "makeMsgKey t' (int j) \<in> set (cgs_waitingMessages cgs)"
    if "makeMsgKey t' (int j) \<in> set (cgs_waitingMessages (ct_session s))" "j < length (ct_sent s t')" "t' \<noteq> t \<or> j \<noteq> i" for t' j
    using makeMsgKey_inj [of t' j t i] that small [of t'] i(1,2) cgs(2) by auto
  have hwm: "map_of (cgs_queues cgs) t' = Some h' \<Longrightarrow> 0 \<le> h' \<and> h' \<le> int (length (ct_sent s t')) \<and>
      (\<forall>j. h' \<le> int j \<and> j < length (ct_sent s t') \<longrightarrow> makeMsgKey t' (int j) \<in> set (cgs_waitingMessages cgs))" for t' h'
    using inv(1) i(1,3) keep unfolding session_ok_def cgs(1) by (auto split: if_splits)
  have "session_ok (s\<lparr>ct_session := cgs\<rparr>)"
    using inv(1) hwm cgs i(3) unfolding session_ok_def by (auto simp: distinct_removeAll)
  moreover have "caught_up (s\<lparr>ct_session := cgs\<rparr>) t'" if "caught_up s t'" for t'
    using that i(1,3) cgs(1) by (auto simp: caught_up_def)
  then have "pc_ok (s\<lparr>ct_session := cgs\<rparr>)"
    using inv(2) cgs by (auto simp: pc_ok_def split: catchup_pc.splits bool.splits)
  ultimately show ?thesis by blast
qed

lemma produce_ok:
  assumes "session_ok s" "pc_ok s" and "int (length (ct_msgs s topic)) < 2 ^ 63 - 1"
    and "s' = s\<lparr>ct_queues := (ct_queues s)(topic := fst (queue_push key val hdr (ct_queues s topic)))\<rparr>"
  shows "session_ok s' \<and> pc_ok s'"
proof -
  have q: "queue_ok (ct_queues s t)" and sent: "ct_sent s t = take (length (ct_sent s t)) (ct_msgs s t)" for t
    using assms(1) by (simp_all add: session_ok_def)
  have le: "length (ct_sent s t) \<le> length (ct_msgs s t)" for t using sent [of t] by (metis length_take min.cobounded1)
  obtain m where p: "queue_ok (ct_queues s' topic)" "ct_msgs s' topic = ct_msgs s topic @ [m]"
    using queue_push_ok [OF q assms(3)] assms(4) by simp
  have other: "ct_queues s' t = ct_queues s t" if "t \<noteq> topic" for t using that assms(4) by simp
  have same: "ct_sent s' = ct_sent s" "ct_session s' = ct_session s" "ct_pc s' = ct_pc s" using assms(4) by simp_all
  have "queue_ok (ct_queues s' t) \<and> ct_sent s t = take (length (ct_sent s t)) (ct_msgs s' t)" for t
    using p other [of t] q [of t] sent [of t] le [of t] by (cases "t = topic") simp_all
  then have "session_ok s'" using assms(1) unfolding session_ok_def same by blast
  moreover have "\<exists>k. msgs = take k (drop (length (ct_sent s t)) (ct_msgs s' t))" if "msgs = take k (drop (length (ct_sent s t)) (ct_msgs s t))" for msgs k t
  proof (cases "t = topic")
    case True
    then show ?thesis using that p(2) le [of topic]
      by (intro exI [of _ "min k (length (ct_msgs s topic) - length (ct_sent s topic))"]) (simp add: take_drop min_def)
  qed (use that other in auto)
  then have "pc_ok s'" using assms(2) unfolding pc_ok_def same caught_up_def by (auto split: catchup_pc.splits bool.splits)
  ultimately show ?thesis by blast
qed

lemma read_ok:
  assumes "session_ok s" and "caught_up s t" and "map_of (cgs_queues (ct_session s)) t = Some hwm"
    and "queue_messagesFromOffset hwm (ct_queues s t) = Ret msgs"
    and "t \<notin> set ts" "distinct ts" "\<forall>t' \<in> set ts. caught_up s t'"
  shows "session_ok (s\<lparr>ct_pc := CatchupPushing t msgs ts n\<rparr>) \<and> pc_ok (s\<lparr>ct_pc := CatchupPushing t msgs ts n\<rparr>)"
proof -
  have "msgs = drop (length (ct_sent s t)) (ct_msgs s t)"
    using assms(2-4) by (auto simp: caught_up_def queue_messagesFromOffset_def split: if_splits)
  then have "\<exists>k. msgs = take k (drop (length (ct_sent s t)) (ct_msgs s t))" by (metis take_all_iff order_refl)
  then show ?thesis using assms(1,3,5-7) by (simp add: session_ok_def pc_ok_def caught_up_def)
qed

text \<open>A message that is about to be pushed is the first one that the claim has not received; its key is not
  waiting, so pushing it does not panic.\<close>

lemma push_result:
  assumes "session_ok s" "pc_ok s" and "ct_pc s = CatchupPushing t (msg # msgs) ts n"
  shows "tmsg_offset msg = int (length (ct_sent s t))" and "length (ct_sent s t) < length (ct_msgs s t)"
    and "msg = ct_msgs s t ! length (ct_sent s t)"
    and "cgs_pushMessageToClaim False t msg (ct_session s) = Ret ((ct_session s)\<lparr>
      cgs_waitingMessages := makeMsgKey t (int (length (ct_sent s t))) # cgs_waitingMessages (ct_session s),
      cgs_wg := cgs_wg (ct_session s) + 1\<rparr>, Some (to_consumer_message t msg))"
    and "makeMsgKey t (int (length (ct_sent s t))) \<notin> set (cgs_waitingMessages (ct_session s))"
proof -
  let ?d = "length (ct_sent s t)"
  have q: "queue_ok (ct_queues s t')" and sent: "ct_sent s t' = take (length (ct_sent s t')) (ct_msgs s t')" for t'
    using assms(1) by (simp_all add: session_ok_def)
  obtain k where k: "take k (drop ?d (ct_msgs s t)) = msg # msgs" using assms(2,3) by (auto simp: pc_ok_def)
  obtain ys where ys: "drop ?d (ct_msgs s t) = msg # ys" using k by (cases "drop ?d (ct_msgs s t)"; cases k) auto
  then show lt: "?d < length (ct_msgs s t)" by (metis drop_all linorder_not_le list.discI)
  show "msg = ct_msgs s t ! ?d" using ys hd_drop_conv_nth [OF lt] by simp
  then show off: "tmsg_offset msg = int ?d" using q [of t] lt by (simp add: queue_ok_def)
  have small: "int (length (ct_sent s t')) < 2 ^ 63" for t'
    using q [of t'] sent [of t'] by (metis length_take min.cobounded1 queue_ok_def of_nat_le_iff order_le_less_trans)
  show new: "makeMsgKey t (int ?d) \<notin> set (cgs_waitingMessages (ct_session s))"
  proof
    assume "makeMsgKey t (int ?d) \<in> set (cgs_waitingMessages (ct_session s))"
    then obtain t' i where "makeMsgKey t (int ?d) = makeMsgKey t' (int i)" "i < length (ct_sent s t')"
      using assms(1) unfolding session_ok_def by blast
    moreover have "int i < 2 ^ 63" using calculation(2) small [of t'] by linarith
    ultimately show False using makeMsgKey_inj [of t ?d t' i] small [of t] by auto
  qed
  have "0 \<le> cgs_wg (ct_session s)" using assms(1) by (simp add: session_ok_def)
  then show "cgs_pushMessageToClaim False t msg (ct_session s) = Ret ((ct_session s)\<lparr>
      cgs_waitingMessages := makeMsgKey t (int ?d) # cgs_waitingMessages (ct_session s),
      cgs_wg := cgs_wg (ct_session s) + 1\<rparr>, Some (to_consumer_message t msg))"
    using new off by (simp add: cgs_pushMessageToClaim_def wg_Add_def Let_def)
qed

lemma push_ok:
  assumes inv: "session_ok s" "pc_ok s" and pc: "ct_pc s = CatchupPushing t (msg # msgs) ts n"
    and "cgs_pushMessageToClaim False t msg (ct_session s) = Ret (cgs, Some m)"
    and s': "s' = s\<lparr>ct_pc := CatchupPushing t msgs ts (Suc n), ct_session := cgs, ct_sent := (ct_sent s)(t := ct_sent s t @ [msg])\<rparr>"
  shows "session_ok s' \<and> pc_ok s'"
proof -
  let ?d = "length (ct_sent s t)"
  note r = push_result [OF inv pc]
  have cgs: "cgs_waitingMessages cgs = makeMsgKey t (int ?d) # cgs_waitingMessages (ct_session s)"
    "cgs_wg cgs = cgs_wg (ct_session s) + 1" "cgs_queues cgs = cgs_queues (ct_session s)"
    using assms(4) r(4) by auto
  have sent: "ct_sent s' t = take (Suc ?d) (ct_msgs s t)"
    using inv(1) r(2,3) s' by (simp add: session_ok_def take_Suc_conv_app_nth)
  have pcs: "t \<notin> set ts" "distinct ts" "\<forall>t' \<in> set ts. caught_up s t'" "map_of (cgs_queues (ct_session s)) t \<noteq> None"
    using inv(2) pc by (simp_all add: pc_ok_def)
  obtain k where k: "msg # msgs = take k (drop ?d (ct_msgs s t))" using inv(2) pc by (auto simp: pc_ok_def)
  have "session_ok s'"
    unfolding session_ok_def
  proof (intro conjI allI impI ballI)
    fix t' show "queue_ok (ct_queues s' t')" using inv(1) s' by (simp add: session_ok_def)
    show "ct_sent s' t' = take (length (ct_sent s' t')) (ct_msgs s' t')"
      using inv(1) sent s' r(2) by (cases "t' = t") (simp_all add: session_ok_def min_def)
    show "ct_sent s' t' = []" if "map_of (cgs_queues (ct_session s')) t' = None"
      using that pcs(4) inv(1) s' cgs(3) by (cases "t' = t") (simp_all add: session_ok_def)
  next
    show "distinct (cgs_waitingMessages (ct_session s'))" "cgs_wg (ct_session s') = int (length (cgs_waitingMessages (ct_session s')))"
      using inv(1) r(5) s' cgs by (simp_all add: session_ok_def)
  next
    fix t' h i assume h: "map_of (cgs_queues (ct_session s')) t' = Some h"
    then have h': "map_of (cgs_queues (ct_session s)) t' = Some h" using s' cgs(3) by simp
    then show "0 \<le> h" using inv(1) by (auto simp: session_ok_def)
    from h' have le: "h \<le> int (length (ct_sent s t'))" using inv(1) unfolding session_ok_def by blast
    then show "h \<le> int (length (ct_sent s' t'))" using s' by (cases "t' = t") simp_all
    assume i: "h \<le> int i \<and> i < length (ct_sent s' t')"
    have "i < length (ct_sent s t') \<Longrightarrow> makeMsgKey t' (int i) \<in> set (cgs_waitingMessages (ct_session s))"
      using inv(1) h' i unfolding session_ok_def by blast
    then show "makeMsgKey t' (int i) \<in> set (cgs_waitingMessages (ct_session s'))"
      using i s' cgs(1) by (cases "t' = t") (auto simp: less_Suc_eq)
  next
    fix k assume "k \<in> set (cgs_waitingMessages (ct_session s'))"
    then consider "k = makeMsgKey t (int ?d)" | "k \<in> set (cgs_waitingMessages (ct_session s))" using s' cgs(1) by auto
    then show "\<exists>t i. k = makeMsgKey t (int i) \<and> i < length (ct_sent s' t)"
    proof cases
      case 1
      then show ?thesis using s' by (intro exI [of _ t] exI [of _ ?d]) simp
    next
      case 2
      then obtain t' i where "k = makeMsgKey t' (int i)" "i < length (ct_sent s t')" using inv(1) unfolding session_ok_def by blast
      then show ?thesis using s' by (intro exI [of _ t'] exI [of _ i]) auto
    qed
  qed
  moreover have "\<exists>k. msgs = take k (drop (Suc ?d) (ct_msgs s t))"
    using k Cons_nth_drop_Suc [OF r(2), symmetric] by (cases k) auto
  then have "pc_ok s'" using pcs s' cgs(3) by (auto simp: pc_ok_def caught_up_def)
  ultimately show ?thesis by blast
qed

lemma session_ok_pc [simp]: "session_ok (s\<lparr>ct_pc := pc\<rparr>) = session_ok s"
  by (simp add: session_ok_def)

lemma returned_caught_up:
  assumes "session_ok s" and "cgs_waitingMessages (ct_session s) = []" and "map_of (cgs_queues (ct_session s)) t = Some h"
  shows "h = int (length (ct_sent s t))"
proof (rule ccontr)
  assume "h \<noteq> int (length (ct_sent s t))"
  then have "0 \<le> h" "h < int (length (ct_sent s t))" using assms(1,3) by (force simp: session_ok_def)+
  then have "makeMsgKey t (int (nat h)) \<in> set (cgs_waitingMessages (ct_session s))"
    using assms(1,3) unfolding session_ok_def by (metis int_nat_eq nat_less_iff order_refl)
  then show False using assms(2) by simp
qed

lemma step_ok:
  assumes "catchup_step s s'" and "session_ok s \<and> pc_ok s \<and> gomap (cgs_queues (ct_session s))"
  shows "session_ok s' \<and> pc_ok s' \<and> gomap (cgs_queues (ct_session s'))"
  using assms
proof (induction rule: catchup_step.induct)
  case (start s n topic topics hwm msgs)
  then have ok: "session_ok s" "cgs_waitingMessages (ct_session s) = []" by (simp_all add: pc_ok_def)
  have "distinct (topic # topics)" using start by (metis mset_eq_imp_distinct_iff)
  moreover have "caught_up s t" if "t \<in> set (topic # topics)" for t
  proof -
    have "t \<in> fst ` set (cgs_queues (ct_session s))" using that start(2) by (metis set_mset_mset set_map)
    then obtain h where "map_of (cgs_queues (ct_session s)) t = Some h" by (metis map_of_eq_None_iff option.exhaust)
    then show ?thesis using returned_caught_up [OF ok] by (simp add: caught_up_def)
  qed
  ultimately show ?case using read_ok [OF ok(1) _ start(3,4)] start.prems by simp
next
  case (read s topic' topic topics n hwm msgs)
  then show ?case using read_ok [of s topic hwm msgs topics n] by (simp add: pc_ok_def)
next
  case (push s topic msg msgs topics n cgs m)
  then show ?case using push_ok [of s topic msg msgs topics n cgs m] push_result(4) [of s topic msg msgs topics n] by auto
next
  case (wait s topic n)
  then show ?case by (simp add: pc_ok_def)
next
  case (return' s n)
  then have "cgs_waitingMessages (ct_session s) = []" by (simp add: session_ok_def)
  then show ?case using return' by (simp add: pc_ok_def)
next
  case (cancel s n)
  then show ?case by (simp add: pc_ok_def)
next
  case (mark msg s topic cgs)
  then have "gomap (cgs_queues cgs)" using MarkOffset_result [of s msg topic cgs] by (metis gomap_map_put)
  then show ?case using mark_ok [of s msg topic cgs] mark by simp
next
  case (produce s topic key val hdr)
  then show ?case using produce_ok [of s topic _ key val hdr] by simp
qed

lemma fold_zero:
  "map_of (fold (\<lambda>topic. map_put topic (0 :: int)) ts m) t = Some h \<Longrightarrow> h = 0 \<or> map_of m t = Some h"
  "gomap m \<Longrightarrow> gomap (fold (\<lambda>topic. map_put topic (0 :: int)) ts m)"
proof (induction ts arbitrary: m)
  case (Cons a ts)
  { case 1
    then have "h = 0 \<or> map_of (map_put a 0 m) t = Some h" using Cons.IH(1) [of "map_put a 0 m"] by (simp only: fold_simps)
    then show ?case by (auto split: if_splits)
  next
    case 2
    then show ?case using Cons.IH(2) by simp
  }
qed simp_all


section \<open>Trackers\<close>

fun next_n :: "nat \<Rightarrow> Tester \<Rightarrow> QueueTracker \<Rightarrow> (QueueTracker \<times> (Headers \<times> string \<times> slice) option list) go" where
  "next_n 0 tt mt = Ret (mt, [])"
| "next_n (Suc n) tt mt =
     go_bind (NextRawWithHeaders tt mt) (\<lambda>(mt, r). go_bind (next_n n tt mt) (\<lambda>(mt, rs). Ret (mt, r # rs)))"

definition push_all :: "string \<Rightarrow> (Headers \<times> string \<times> slice) list \<Rightarrow> Tester \<Rightarrow> Tester" where
  "push_all topic ms tt = fold (\<lambda>(hdr, key, val) tt. fst (pushMessage topic key val hdr tt)) ms tt"

abbreviation message_data :: "message \<Rightarrow> Headers \<times> string \<times> slice" where
  "message_data m \<equiv> (tmsg_headers m, tmsg_key m, tmsg_value m)"

lemma push_all_queue:
  assumes "queue_ok (tt_queue tt topic)" and "int (length (qu_messages (tt_queue tt topic))) + int (length ms) < 2 ^ 63"
  shows "queue_ok (tt_queue (push_all topic ms tt) topic) \<and> map message_data (qu_messages (tt_queue (push_all topic ms tt) topic)) =
    map message_data (qu_messages (tt_queue tt topic)) @ ms"
  using assms
proof (induction ms arbitrary: tt)
  case (Cons m ms)
  obtain hdr key val where m: "m = (hdr, key, val)" by (cases m)
  let ?tt = "fst (pushMessage topic key val hdr tt)"
  have "tt_queue ?tt topic = fst (queue_push key val hdr (tt_queue tt topic))"
    by (simp add: pushMessage_def tt_queue_def split: prod.splits)
  with queue_push_ok [OF Cons.prems(1), of key val hdr] Cons.prems(2)
  have q: "queue_ok (tt_queue ?tt topic)" "map message_data (qu_messages (tt_queue ?tt topic)) = map message_data (qu_messages (tt_queue tt topic)) @ [m]"
    "length (qu_messages (tt_queue ?tt topic)) = Suc (length (qu_messages (tt_queue tt topic)))" using m by simp_all
  have "push_all topic (m # ms) tt = push_all topic ms ?tt" using m by (simp add: push_all_def)
  then show ?case using Cons.IH [OF q(1)] q(2,3) Cons.prems(2) by simp
qed (simp add: push_all_def)

lemma next_n_reads:
  assumes "queue_ok (tt_queue tt (qt_topic mt))" and "qt_nextOffset mt = int k"
    and "k + n \<le> length (qu_messages (tt_queue tt (qt_topic mt)))"
  shows "next_n n tt mt = Ret (mt\<lparr>qt_nextOffset := int (k + n)\<rparr>,
    map (Some \<circ> message_data) (take n (drop k (qu_messages (tt_queue tt (qt_topic mt))))))"
  using assms
proof (induction n arbitrary: k mt)
  case (Suc n)
  let ?ms = "qu_messages (tt_queue tt (qt_topic mt))"
  have lt: "k < length ?ms" "int (length ?ms) < 2 ^ 63" using Suc.prems by (simp_all add: queue_ok_def)
  then have k: "k < length ?ms" "wrap64 (int k + 1) = int (Suc k)" using wrap64_id [of "int k + 1"] by simp_all
  have "NextRawWithHeaders tt mt = Ret (mt\<lparr>qt_nextOffset := int (Suc k)\<rparr>, Some (message_data (?ms ! k)))"
    using k Suc.prems(2) by (simp add: NextRawWithHeaders_def queue_size_def queue_message_def Let_def)
  moreover have "drop k ?ms = ?ms ! k # drop (Suc k) ?ms" using k(1) by (simp add: Cons_nth_drop_Suc)
  ultimately show ?case using Suc.IH [of "mt\<lparr>qt_nextOffset := int (Suc k)\<rparr>" "Suc k"] Suc.prems by simp
qed simp

text \<open>C26: a tracker reads what is pushed after its creation. If messages are pushed to a topic after a tracker
  for it has been created, its next calls return exactly these messages, with their headers and in the order in
  which they were pushed, and then report that there is none.\<close>

theorem tracker_reads_pushed:
  assumes "queue_ok (tt_queue tt topic)" and "int (length (qu_messages (tt_queue tt topic))) + int (length ms) < 2 ^ 63"
    and "NewQueueTracker topic tt = (tt1, mt)"
  shows "\<exists>mt'. next_n (length ms) (push_all topic ms tt1) mt = Ret (mt', map Some ms) \<and>
    NextRawWithHeaders (push_all topic ms tt1) mt' = Ret (mt', None)"
proof -
  let ?n = "length (qu_messages (tt_queue tt topic))" and ?tt = "push_all topic ms tt1"
  have t: "tt_queue tt1 topic = tt_queue tt topic" "qt_topic mt = topic" "qt_nextOffset mt = int ?n"
    using assms(1,3) by (auto simp: NewQueueTracker_def getOrCreateQueue_def tt_queue_def queue_ok_def)
  have q: "queue_ok (tt_queue ?tt topic)" "map message_data (qu_messages (tt_queue ?tt topic)) = map message_data (qu_messages (tt_queue tt topic)) @ ms"
    using push_all_queue [of tt1 topic ms] assms(1,2) t(1) by simp_all
  have len: "length (qu_messages (tt_queue ?tt topic)) = ?n + length ms" using arg_cong [OF q(2), of length] by simp
  have "map (Some \<circ> message_data) (take (length ms) (drop ?n (qu_messages (tt_queue ?tt topic)))) =
      map Some (take (length ms) (drop ?n (map message_data (qu_messages (tt_queue ?tt topic)))))"
    by (simp add: take_map drop_map)
  also have "\<dots> = map Some ms" unfolding q(2) by simp
  finally have "next_n (length ms) ?tt mt = Ret (mt\<lparr>qt_nextOffset := int (?n + length ms)\<rparr>, map Some ms)"
    using next_n_reads [of ?tt mt ?n "length ms"] q(1) t len by simp
  moreover have "NextRawWithHeaders ?tt (mt\<lparr>qt_nextOffset := int (?n + length ms)\<rparr>) = Ret (mt\<lparr>qt_nextOffset := int (?n + length ms)\<rparr>, None)"
    using t len by (simp add: NextRawWithHeaders_def queue_size_def Let_def)
  ultimately show ?thesis by blast
qed

section \<open>Samples\<close>

definition sample_catchup :: catchup_state where
  "sample_catchup = \<lparr>ct_queues = (\<lambda>t. if t = ''in'' then fst (queue_push ''k'' (Some ''v'') None (newQueue t)) else newQueue t),
     ct_session = newCgSession 1 [''in''], ct_sent = (\<lambda>t. []), ct_pc = CatchupReturned 0 True\<rparr>"

theorem tracker_reads_pushed_witness:
  "\<exists>mt'. next_n 2 (push_all ''out'' [(None, ''a'', Some ''1''), (None, ''b'', None)] (fst (NewQueueTracker ''out'' New)))
      (snd (NewQueueTracker ''out'' New)) = Ret (mt', [Some (None, ''a'', Some ''1''), Some (None, ''b'', None)])"
proof -
  have "tt_queue New ''out'' = newQueue ''out''" by (simp add: tt_queue_def New_def)
  then have "queue_ok (tt_queue New ''out'')" "qu_messages (tt_queue New ''out'') = []" by (simp_all add: newQueue_def queue_ok_def)
  then show ?thesis
    using tracker_reads_pushed [of New "''out''" "[(None, ''a'', Some ''1''), (None, ''b'', None)]"
        "fst (NewQueueTracker ''out'' New)" "snd (NewQueueTracker ''out'' New)"] by (auto simp: numeral_2_eq_2)
qed

definition sample_queued :: message where
  "sample_queued = \<lparr>tmsg_offset = 0, tmsg_key = ''k'', tmsg_value = Some ''v'', tmsg_headers = None\<rparr>"

definition sample_session :: "string list \<Rightarrow> int \<Rightarrow> int \<Rightarrow> cgSession" where
  "sample_session waiting hwm wg = \<lparr>cgs_generation = 1, cgs_claims = [''in''], cgs_queues = [(''in'', hwm)],
     cgs_waitingMessages = waiting, cgs_wg = wg\<rparr>"


end
