(* ===== verification/Goka_Logger.thy ===== *)
theory Goka_Logger
  imports Goka_Prelude
begin

text \<open>
  Loggers (\<open>logger.go\<close>). A \<open>Logger\<close> is the logger of the standard library, a logger of the user (known
  by a number), goka's default logger or a \<open>std\<close> that wraps another logger. The default logger is a
  variable that is shared by reference: its \<open>debug\<close> flag is part of the state of the package, while a
  logger derived from it has a copy of the flag.

  What is logged is the text and the arguments that arrive at the wrapped logger; \<open>Print\<close> and
  \<open>Println\<close> have no format.
\<close>

section \<open>The model\<close>

datatype Logger =
    GoLog
  | UserLog nat
  | DefaultLog
  | StdLog (lg_log: Logger) (lg_debug: bool) (lg_prefixPath: "string list") (lg_prefix: string)

text \<open>The type assertion \<open>l.(logger)\<close>: only the types of the package have these methods.\<close>

fun is_logger :: "Logger \<Rightarrow> bool" where
  "is_logger (StdLog l d ps p) = True"
| "is_logger DefaultLog = True"
| "is_logger _ = False"

text \<open>The fields of a \<open>std\<close>, with the flag of the default logger as an argument.\<close>

fun std_debug :: "bool \<Rightarrow> Logger \<Rightarrow> bool" where
  "std_debug gokaDebug (StdLog l d ps p) = d"
| "std_debug gokaDebug DefaultLog = gokaDebug"
| "std_debug gokaDebug _ = False"

fun std_log :: "Logger \<Rightarrow> Logger" where
  "std_log (StdLog l d ps p) = l"
| "std_log l = GoLog"

fun std_prefixPath :: "Logger \<Rightarrow> string list" where
  "std_prefixPath (StdLog l d ps p) = ps"
| "std_prefixPath l = []"

fun std_prefix :: "Logger \<Rightarrow> string" where
  "std_prefix (StdLog l d ps p) = p"
| "std_prefix l = ''''"

datatype 'a log_entry = Printed "'a list" | PrintedF string "'a list"

fun std_Print :: "'a list \<Rightarrow> Logger \<Rightarrow> Logger \<times> 'a log_entry" where
  "std_Print msgs (StdLog l d ps p) = std_Print msgs l"
| "std_Print msgs DefaultLog = (GoLog, Printed msgs)"
| "std_Print msgs l = (l, Printed msgs)"

definition std_Println :: "'a list \<Rightarrow> Logger \<Rightarrow> Logger \<times> 'a log_entry" where
  "std_Println msgs l = (if is_logger l then std_Print msgs (std_log l) else (l, Printed msgs))"

fun std_Printf :: "string \<Rightarrow> 'a list \<Rightarrow> Logger \<Rightarrow> Logger \<times> 'a log_entry" where
  "std_Printf msg args (StdLog l d ps p) = std_Printf (p @ msg) args l"
| "std_Printf msg args DefaultLog = (GoLog, PrintedF msg args)"
| "std_Printf msg args l = (l, PrintedF msg args)"

definition std_Debugf :: "bool \<Rightarrow> string \<Rightarrow> 'a list \<Rightarrow> Logger \<Rightarrow> (Logger \<times> 'a log_entry) option" where
  "std_Debugf gokaDebug msg args l =
     (if std_debug gokaDebug l then Some (std_Printf (std_prefix l @ msg) args (std_log l)) else None)"

definition std_StackPrefix :: "bool \<Rightarrow> string \<Rightarrow> Logger \<Rightarrow> Logger" where
  "std_StackPrefix gokaDebug prefix s =
     (let prefPath = std_prefixPath s @ (if prefix \<noteq> '''' then [prefix] else []);
          newPrefix = join_strings '' > '' prefPath;
          newPrefix = (if newPrefix \<noteq> '''' then ''['' @ newPrefix @ ''] '' else newPrefix)
      in StdLog (std_log s) (std_debug gokaDebug s) prefPath newPrefix)"

definition std_Prefix :: "bool \<Rightarrow> string \<Rightarrow> Logger \<Rightarrow> Logger" where
  "std_Prefix gokaDebug prefix s = std_StackPrefix gokaDebug prefix s"

definition std_CurrentPrefix :: "Logger \<Rightarrow> string" where
  "std_CurrentPrefix s = std_prefix s"

definition wrapLogger :: "Logger \<Rightarrow> Logger" where
  "wrapLogger l = StdLog l False [] ''''"

text \<open>\<open>Debug\<close> sets the flag of the default logger and, on demand, sarama's logger.\<close>

record log_globals =
  lgl_debug :: bool
  lgl_sarama :: "Logger option"

definition SetSaramaLogger :: "Logger \<Rightarrow> log_globals \<Rightarrow> log_globals" where
  "SetSaramaLogger l g = g\<lparr>lgl_sarama := Some l\<rparr>"

definition Debug :: "bool \<Rightarrow> bool \<Rightarrow> log_globals \<Rightarrow> log_globals" where
  "Debug gokaDebug saramaDebug g =
     (let g = g\<lparr>lgl_debug := gokaDebug\<rparr>
      in if saramaDebug
         then SetSaramaLogger (std_Prefix gokaDebug ''Sarama'' (StdLog DefaultLog True [] '''')) g else g)"

section \<open>Prefixes\<close>

text \<open>Deriving a logger step by step gives the one with the path of all the names: the messages carry
  the joined path once, and go to the logger that was wrapped first.\<close>

lemma std_StackPrefix_path:
  "std_prefixPath (std_StackPrefix d p s) = std_prefixPath s @ (if p = '''' then [] else [p])"
  by (simp add: std_StackPrefix_def Let_def)

lemma std_StackPrefix_log: "std_log (std_StackPrefix d p s) = std_log s"
  by (simp add: std_StackPrefix_def Let_def)

lemma stacked_path:
  "std_prefixPath (fold (std_StackPrefix d) ps s) = std_prefixPath s @ filter (\<lambda>p. p \<noteq> '''') ps"
  by (induction ps arbitrary: s) (simp_all add: std_StackPrefix_path)

lemma stacked_log: "std_log (fold (std_StackPrefix d) ps s) = std_log s"
  by (induction ps arbitrary: s) (simp_all add: std_StackPrefix_log)

lemma stacked_prefix:
  assumes "ps \<noteq> []"
  shows "std_CurrentPrefix (fold (std_StackPrefix d) ps s) =
    (let p = join_strings '' > '' (std_prefixPath s @ filter (\<lambda>p. p \<noteq> '''') ps)
     in if p = '''' then '''' else ''['' @ p @ ''] '')"
proof -
  obtain qs q where ps: "ps = qs @ [q]" using assms by (cases ps rule: rev_cases) auto
  show ?thesis
    by (simp add: ps std_CurrentPrefix_def std_StackPrefix_def Let_def stacked_path)
qed

text \<open>A logger derived before \<open>Debug\<close> is called keeps the flag it was derived with.\<close>

lemma derived_debug: "std_debug d' (std_StackPrefix d p s) = std_debug d s"
  by (simp add: std_StackPrefix_def Let_def)

lemma derived_debug_unaffected:
  "std_Debugf (lgl_debug (Debug on sarama g)) msg args (std_StackPrefix False p DefaultLog) = None"
  by (simp add: std_Debugf_def derived_debug)

end
