(* ===== verification/Goka_Config.thy ===== *)
theory Goka_Config
  imports Goka_Hash Goka_Copartition Goka_Topic_Manager Goka_Partition_Table
begin

text \<open>
  The configuration (\<open>config.go\<close>) and the builders of Kafka clients (\<open>builders.go\<close>, \<open>NewProducer\<close> of
  \<open>producer.go\<close>).

  \<^item> A \<open>sarama.Config\<close> is a record of the fields the code reads or writes; the value that sarama's
    \<open>NewConfig\<close> returns is a parameter.
  \<^item> Configurations are shared by reference: a pointer is the number of a configuration in the store,
    \<open>None\<close> is nil. The package variable \<open>globalConfig\<close> is a value, copied where the code assigns it. The
    rest of the state that builders and options may touch is the field \<open>w_ext\<close>.
  \<^item> What the constructors of sarama answer is a record of functions; a client they return keeps the
    pointer to its configuration.
\<close>

section \<open>Configurations\<close>

datatype rebalance_strategy = Copartitioning copartitioningStrategy | SaramaStrategy nat

datatype partitioner = CustomHash hasher | SaramaPartitioner nat

record Config =
  cf_ClientID :: string
  cf_Version :: "int list"
  cf_Consumer_Return_Errors :: bool
  cf_Consumer_MaxProcessingTime :: int
  cf_Consumer_Offsets_Initial :: int
  cf_Consumer_Strategy :: rebalance_strategy
  cf_Producer_RequiredAcks :: int
  cf_Producer_Compression :: int
  cf_Producer_Flush_Frequency :: int
  cf_Producer_Flush_Bytes :: int
  cf_Producer_Return_Successes :: bool
  cf_Producer_Return_Errors :: bool
  cf_Producer_Retry_Max :: int
  cf_Producer_Partitioner :: partitioner

record 'x world =
  w_globalConfig :: Config
  w_configs :: "Config list"
  w_ext :: 'x

definition NoResponse :: int where "NoResponse = 0"
definition WaitForLocal :: int where "WaitForLocal = 1"

text \<open>The values of the package's constants: durations in nanoseconds.\<close>

definition defaultMaxProcessingTime :: int where "defaultMaxProcessingTime = 1000000000"
definition defaultFlushFrequency :: int where "defaultFlushFrequency = 100000000"
definition defaultFlushBytes :: int where "defaultFlushBytes = 64 * 1024"
definition defaultProducerMaxRetries :: int where "defaultProducerMaxRetries = 10"

definition DefaultConfig :: "Config \<Rightarrow> Config" where
  "DefaultConfig newConfig = newConfig\<lparr>
     cf_Version := [2, 0, 0, 0],
     cf_Consumer_Return_Errors := True,
     cf_Consumer_MaxProcessingTime := defaultMaxProcessingTime,
     cf_Consumer_Offsets_Initial := OffsetNewest,
     cf_Consumer_Strategy := Copartitioning CopartitioningStrategy,
     cf_Producer_RequiredAcks := WaitForLocal,
     cf_Producer_Compression := 2,
     cf_Producer_Flush_Frequency := defaultFlushFrequency,
     cf_Producer_Flush_Bytes := defaultFlushBytes,
     cf_Producer_Return_Successes := True,
     cf_Producer_Return_Errors := True,
     cf_Producer_Retry_Max := defaultProducerMaxRetries\<rparr>"

definition ReplaceGlobalConfig :: "nat option \<Rightarrow> 'x world \<Rightarrow> 'x world go" where
  "ReplaceGlobalConfig config w =
     (case config of
        None \<Rightarrow> Panic ''nil config registered as global config''
      | Some p \<Rightarrow> Ret (w\<lparr>w_globalConfig := w_configs w ! p\<rparr>))"

definition alloc_config :: "Config \<Rightarrow> 'x world \<Rightarrow> 'x world \<times> nat" where
  "alloc_config c w = (w\<lparr>w_configs := w_configs w @ [c]\<rparr>, length (w_configs w))"

definition update_config :: "nat \<Rightarrow> (Config \<Rightarrow> Config) \<Rightarrow> 'x world \<Rightarrow> 'x world" where
  "update_config p f w = w\<lparr>w_configs := (w_configs w)[p := f (w_configs w ! p)]\<rparr>"

section \<open>Builders\<close>

record sarama_api =
  sa_NewAsyncProducer :: "string list \<Rightarrow> Config \<Rightarrow> gerr option"
  sa_NewConsumerGroup :: "string list \<Rightarrow> string \<Rightarrow> Config \<Rightarrow> gerr option"
  sa_NewConsumer :: "string list \<Rightarrow> Config \<Rightarrow> gerr option"
  sa_NewClient :: "string list \<Rightarrow> Config \<Rightarrow> Broker list result"
  sa_NewClusterAdmin :: "string list \<Rightarrow> Config \<Rightarrow> gerr option"

text \<open>What a builder returns: a client of sarama with its configuration, or an object of another
  implementation.\<close>

datatype 'm kobj =
    SaramaProducer "string list" nat
  | SaramaConsumerGroup "string list" string nat
  | SaramaConsumer "string list" nat
  | SaramaTopicManager "string list" nat TopicManagerConfig
  | OtherObj 'm

type_synonym ('x, 'm) built = "'x world \<Rightarrow> ('x world \<times> 'm kobj result) go"

type_synonym ('x, 'm) ProducerBuilder = "string list \<Rightarrow> string \<Rightarrow> hasher \<Rightarrow> ('x, 'm) built"
type_synonym ('x, 'm) TopicManagerBuilder = "string list \<Rightarrow> ('x, 'm) built"
type_synonym ('x, 'm) GroupBuilder = "string list \<Rightarrow> string \<Rightarrow> string \<Rightarrow> ('x, 'm) built"
type_synonym ('x, 'm) SaramaConsumerBuilder = "string list \<Rightarrow> string \<Rightarrow> ('x, 'm) built"

definition NewProducer :: "sarama_api \<Rightarrow> string list \<Rightarrow> nat \<Rightarrow> ('x, 'm) built" where
  "NewProducer api brokers config w =
     Ret (w, case sa_NewAsyncProducer api brokers (w_configs w ! config) of
        Some err \<Rightarrow> Inl (Wrap ''Failed to start Sarama producer: %v'' err)
      | None \<Rightarrow> Inr (SaramaProducer brokers config))"

definition DefaultProducerBuilder :: "sarama_api \<Rightarrow> ('x, 'm) ProducerBuilder" where
  "DefaultProducerBuilder api brokers clientID hasher w =
     (case alloc_config ((w_globalConfig w)\<lparr>cf_ClientID := clientID,
             cf_Producer_Partitioner := CustomHash hasher\<rparr>) w of
        (w, config) \<Rightarrow> NewProducer api brokers config w)"

definition ProducerBuilderWithConfig :: "sarama_api \<Rightarrow> nat option \<Rightarrow> ('x, 'm) ProducerBuilder" where
  "ProducerBuilderWithConfig api config brokers clientID hasher w =
     (case config of
        None \<Rightarrow> nil_deref
      | Some p \<Rightarrow> NewProducer api brokers p (update_config p (\<lambda>c. c\<lparr>cf_ClientID := clientID,
          cf_Producer_Partitioner := CustomHash hasher\<rparr>) w))"

definition new_topicManager ::
  "sarama_api \<Rightarrow> string list \<Rightarrow> nat \<Rightarrow> TopicManagerConfig option \<Rightarrow> ('x, 'm) built" where
  "new_topicManager api brokers config tmConfig w =
     (let c = w_configs w ! config
      in Ret (w, map_sum id (SaramaTopicManager brokers config)
           (NewTopicManager (cf_Version c \<ge> [0, 10, 0, 0]) (sa_NewClient api brokers c) tmConfig
             (sa_NewClusterAdmin api brokers c))))"

definition TopicManagerBuilderWithTopicManagerConfig ::
  "sarama_api \<Rightarrow> TopicManagerConfig option \<Rightarrow> ('x, 'm) TopicManagerBuilder" where
  "TopicManagerBuilderWithTopicManagerConfig api tmConfig brokers w =
     (case alloc_config ((w_globalConfig w)\<lparr>cf_ClientID := ''goka-topic-manager''\<rparr>) w of
        (w, config) \<Rightarrow> new_topicManager api brokers config tmConfig w)"

definition DefaultTopicManagerBuilder :: "sarama_api \<Rightarrow> ('x, 'm) TopicManagerBuilder" where
  "DefaultTopicManagerBuilder api brokers w =
     (case alloc_config ((w_globalConfig w)\<lparr>cf_ClientID := ''goka-topic-manager''\<rparr>) w of
        (w, config) \<Rightarrow> new_topicManager api brokers config (Some NewTopicManagerConfig) w)"

definition TopicManagerBuilderWithConfig ::
  "sarama_api \<Rightarrow> nat option \<Rightarrow> TopicManagerConfig option \<Rightarrow> ('x, 'm) TopicManagerBuilder" where
  "TopicManagerBuilderWithConfig api config tmConfig brokers w =
     (case config of None \<Rightarrow> nil_deref | Some p \<Rightarrow> new_topicManager api brokers p tmConfig w)"

definition new_consumerGroup :: "sarama_api \<Rightarrow> string list \<Rightarrow> string \<Rightarrow> nat \<Rightarrow> ('x, 'm) built" where
  "new_consumerGroup api brokers group' config w =
     Ret (w, case sa_NewConsumerGroup api brokers group' (w_configs w ! config) of
        Some err \<Rightarrow> Inl err | None \<Rightarrow> Inr (SaramaConsumerGroup brokers group' config))"

definition DefaultConsumerGroupBuilder :: "sarama_api \<Rightarrow> ('x, 'm) GroupBuilder" where
  "DefaultConsumerGroupBuilder api brokers group' clientID w =
     (case alloc_config ((w_globalConfig w)\<lparr>cf_ClientID := clientID\<rparr>) w of
        (w, config) \<Rightarrow> new_consumerGroup api brokers group' config w)"

definition ConsumerGroupBuilderWithConfig :: "sarama_api \<Rightarrow> nat option \<Rightarrow> ('x, 'm) GroupBuilder" where
  "ConsumerGroupBuilderWithConfig api config brokers group' clientID w =
     (case config of
        None \<Rightarrow> nil_deref
      | Some p \<Rightarrow> new_consumerGroup api brokers group' p (update_config p (cf_ClientID_update (\<lambda>_. clientID)) w))"

definition new_consumer :: "sarama_api \<Rightarrow> string list \<Rightarrow> nat \<Rightarrow> ('x, 'm) built" where
  "new_consumer api brokers config w =
     Ret (w, case sa_NewConsumer api brokers (w_configs w ! config) of
        Some err \<Rightarrow> Inl err | None \<Rightarrow> Inr (SaramaConsumer brokers config))"

definition DefaultSaramaConsumerBuilder :: "sarama_api \<Rightarrow> ('x, 'm) SaramaConsumerBuilder" where
  "DefaultSaramaConsumerBuilder api brokers clientID w =
     (case alloc_config ((w_globalConfig w)\<lparr>cf_ClientID := clientID\<rparr>) w of
        (w, config) \<Rightarrow> new_consumer api brokers config w)"

definition SaramaConsumerBuilderWithConfig :: "sarama_api \<Rightarrow> nat option \<Rightarrow> ('x, 'm) SaramaConsumerBuilder" where
  "SaramaConsumerBuilderWithConfig api config brokers clientID w =
     (case config of
        None \<Rightarrow> nil_deref
      | Some p \<Rightarrow> new_consumer api brokers p (update_config p (cf_ClientID_update (\<lambda>_. clientID)) w))"

text \<open>A backoff is the simple one of the package or one of the user.\<close>

datatype backoff = SimpleBackoff simpleBackoff | OtherBackoff nat

type_synonym BackoffBuilder = "backoff result"

definition DefaultBackoffBuilder :: BackoffBuilder where
  "DefaultBackoffBuilder = Inr (SimpleBackoff (NewSimpleBackoff 10000000000))"

section \<open>Sharing\<close>

text \<open>A sequence of calls of a producer builder, each with the client ID and the hasher of an emitter or
  a processor.\<close>

fun build_all ::
  "('x, 'm) ProducerBuilder \<Rightarrow> string list \<Rightarrow> (string \<times> hasher) list \<Rightarrow> 'x world \<Rightarrow> ('x world \<times> 'm kobj result list) go" where
  "build_all builder brokers [] w = Ret (w, [])"
| "build_all builder brokers ((clientID, hasher) # calls) w =
     go_bind (builder brokers clientID hasher w) (\<lambda>(w, p).
     go_bind (build_all builder brokers calls w) (\<lambda>(w, ps). Ret (w, p # ps)))"

definition built_for :: "string \<times> hasher \<Rightarrow> Config \<Rightarrow> bool" where
  "built_for call c \<longleftrightarrow> cf_ClientID c = fst call \<and> cf_Producer_Partitioner c = CustomHash (snd call)"

lemma default_producer_fresh:
  assumes "DefaultProducerBuilder api brokers clientID hasher w = Ret (w', p)"
  shows "w' = w\<lparr>w_configs := w_configs w @ [(w_globalConfig w)\<lparr>cf_ClientID := clientID,
      cf_Producer_Partitioner := CustomHash hasher\<rparr>]\<rparr>"
    and "p = Inr (SaramaProducer b q) \<Longrightarrow> q = length (w_configs w)"
  using assms by (auto simp: DefaultProducerBuilder_def NewProducer_def alloc_config_def split: option.splits)

lemma build_all_default:
  assumes "build_all (DefaultProducerBuilder api) brokers calls w = Ret (w', ps)"
  shows "(\<exists>cs. w' = w\<lparr>w_configs := w_configs w @ cs\<rparr>) \<and>
    (\<forall>i b q. i < length calls \<longrightarrow> ps ! i = Inr (SaramaProducer b q) \<longrightarrow>
       q < length (w_configs w') \<and> built_for (calls ! i) (w_configs w' ! q))"
  using assms
proof (induction calls arbitrary: w ps)
  case (Cons call calls)
  obtain clientID hasher where c: "call = (clientID, hasher)" by (cases call)
  obtain w1 p ps' where b: "DefaultProducerBuilder api brokers clientID hasher w = Ret (w1, p)"
    "build_all (DefaultProducerBuilder api) brokers calls w1 = Ret (w', ps')" "ps = p # ps'"
    using Cons.prems by (auto simp: c go_bind_eq_Ret)
  note f = default_producer_fresh [OF b(1)]
  note IH = Cons.IH [OF b(2)]
  obtain cs where cs: "w' = w1\<lparr>w_configs := w_configs w1 @ cs\<rparr>" using IH by blast
  have "\<exists>cs. w' = w\<lparr>w_configs := w_configs w @ cs\<rparr>" unfolding cs f(1) by auto
  moreover have "q < length (w_configs w') \<and> built_for ((call # calls) ! i) (w_configs w' ! q)"
    if "i < length (call # calls)" "ps ! i = Inr (SaramaProducer b' q)" for i b' q
  proof (cases i)
    case 0
    then have "q = length (w_configs w)" using that(2) b(3) f(2) by simp
    then show ?thesis using 0 by (simp add: cs f(1) c built_for_def nth_append)
  next
    case (Suc j)
    then show ?thesis using that b(3) IH by simp
  qed
  ultimately show ?case by blast
qed (auto intro: exI [of _ "[]"])

lemma shared_producer:
  assumes "ProducerBuilderWithConfig api (Some q) brokers clientID hasher w = Ret (w', p)"
    and "q < length (w_configs w)"
  shows "built_for (clientID, hasher) (w_configs w' ! q)" and "length (w_configs w') = length (w_configs w)"
    and "p = Inr (SaramaProducer b q') \<Longrightarrow> q' = q"
  using assms by (auto simp: ProducerBuilderWithConfig_def NewProducer_def update_config_def built_for_def
      split: option.splits)

lemma build_all_shared:
  assumes "build_all (ProducerBuilderWithConfig api (Some q)) brokers calls w = Ret (w', ps)"
    and "q < length (w_configs w)" and "calls \<noteq> []"
  shows "built_for (last calls) (w_configs w' ! q) \<and>
    (\<forall>i b q'. i < length calls \<longrightarrow> ps ! i = Inr (SaramaProducer b q') \<longrightarrow> q' = q)"
  using assms
proof (induction calls arbitrary: w ps)
  case (Cons call calls)
  obtain clientID hasher where c: "call = (clientID, hasher)" by (cases call)
  obtain w1 p ps' where b: "ProducerBuilderWithConfig api (Some q) brokers clientID hasher w = Ret (w1, p)"
    "build_all (ProducerBuilderWithConfig api (Some q)) brokers calls w1 = Ret (w', ps')" "ps = p # ps'"
    using Cons.prems(1) by (auto simp: c go_bind_eq_Ret)
  note f = shared_producer [OF b(1) Cons.prems(2)]
  have p: "q' = q" if "p = Inr (SaramaProducer b q')" for b q' using f(3) that by blast
  show ?case
  proof (cases "calls = []")
    case True
    then show ?thesis using b f(1) p c by auto
  next
    case False
    with Cons.IH [OF b(2)] f(2) Cons.prems(2) p b(3) show ?thesis by (auto simp: nth_Cons split: nat.splits)
  qed
qed simp

text \<open>C37: sharing of configurations by producers. Producers built by the default builder have each their
  own configuration: whatever is built afterwards, the client ID and the hasher are those of its own
  call. Producers built with one configuration given by the user all refer to it, and the builder
  overwrites its client ID and its partitioner: after any number of calls, every one of them has the
  client ID and the hasher of the last call.\<close>

theorem producer_config_sharing:
  assumes "build_all (DefaultProducerBuilder api) brokers calls w = Ret (w1, ps)"
    and "build_all (ProducerBuilderWithConfig api (Some q)) brokers calls w = Ret (w2, qs)"
    and "q < length (w_configs w)" and "i < length calls"
    and "ps ! i = Inr (SaramaProducer b p1)" and "qs ! i = Inr (SaramaProducer b p2)"
  shows "built_for (calls ! i) (w_configs w1 ! p1) \<and> p2 = q \<and> built_for (last calls) (w_configs w2 ! p2)"
proof -
  have "calls \<noteq> []" using assms(4) by auto
  with build_all_default [OF assms(1)] build_all_shared [OF assms(2,3)] assms(4-6) show ?thesis by blast
qed

section \<open>Samples\<close>

definition sample_api :: sarama_api where
  "sample_api = \<lparr>sa_NewAsyncProducer = (\<lambda>bs c. None), sa_NewConsumerGroup = (\<lambda>bs g c. None),
     sa_NewConsumer = (\<lambda>bs c. None), sa_NewClient = (\<lambda>bs c. Inr [\<lparr>br_Open = None, br_Connected = Inr True\<rparr>]),
     sa_NewClusterAdmin = (\<lambda>bs c. None)\<rparr>"

definition sample_config :: Config where
  "sample_config = DefaultConfig \<lparr>cf_ClientID = ''sarama'', cf_Version = [1, 0, 0, 0], cf_Consumer_Return_Errors = False,
     cf_Consumer_MaxProcessingTime = 100000000, cf_Consumer_Offsets_Initial = -1, cf_Consumer_Strategy = SaramaStrategy 0,
     cf_Producer_RequiredAcks = 1, cf_Producer_Compression = 0, cf_Producer_Flush_Frequency = 0,
     cf_Producer_Flush_Bytes = 0, cf_Producer_Return_Successes = False, cf_Producer_Return_Errors = True,
     cf_Producer_Retry_Max = 3, cf_Producer_Partitioner = SaramaPartitioner 0\<rparr>"

definition sample_world :: "'x \<Rightarrow> 'x world" where
  "sample_world x = \<lparr>w_globalConfig = sample_config, w_configs = [sample_config], w_ext = x\<rparr>"

definition sample_calls :: "(string \<times> hasher) list" where
  "sample_calls = [(''a'', DefaultHasher), (''b'', \<lambda>key. Inr 0)]"

theorem producer_config_sharing_witness:
  "\<exists>w1 w2 ps qs. build_all (DefaultProducerBuilder sample_api) [] sample_calls (sample_world ()) = Ret (w1, ps) \<and>
     ps ! 0 = (Inr (SaramaProducer [] 1) :: unit kobj result) \<and> built_for (sample_calls ! 0) (w_configs w1 ! 1) \<and>
     build_all (ProducerBuilderWithConfig sample_api (Some 0)) [] sample_calls (sample_world ()) = Ret (w2, qs) \<and>
     qs ! 0 = (Inr (SaramaProducer [] 0) :: unit kobj result) \<and> built_for (sample_calls ! 1) (w_configs w2 ! 0)"
proof -
  let ?d = "build_all (DefaultProducerBuilder sample_api) [] sample_calls (sample_world ()) :: (unit world \<times> unit kobj result list) go"
  let ?s = "build_all (ProducerBuilderWithConfig sample_api (Some 0)) [] sample_calls (sample_world ()) :: (unit world \<times> unit kobj result list) go"
  obtain w1 ps where d: "?d = Ret (w1, ps)" "ps ! 0 = Inr (SaramaProducer [] 1)"
    by (simp add: sample_calls_def sample_world_def sample_api_def DefaultProducerBuilder_def NewProducer_def alloc_config_def)
  obtain w2 qs where s: "?s = Ret (w2, qs)" "qs ! 0 = Inr (SaramaProducer [] 0)"
    by (simp add: sample_calls_def sample_world_def sample_api_def ProducerBuilderWithConfig_def NewProducer_def update_config_def)
  have i: "0 < length sample_calls" and q: "0 < length (w_configs (sample_world ()))"
    by (simp_all add: sample_calls_def sample_world_def)
  have "last sample_calls = sample_calls ! 1" by (simp add: sample_calls_def)
  with producer_config_sharing [OF d(1) s(1) q i d(2) s(2)] d s show ?thesis by auto
qed

end
