(* ===== verification/Goka_Storage_Builders.thy ===== *)
theory Goka_Storage_Builders
  imports Goka_LevelDB Goka_Codec
begin

text \<open>
  The builders of local storages (\<open>storage/builders.go\<close>) and the default paths (\<open>options.go\<close>), with
  \<open>filepath.Clean\<close> and \<open>filepath.Join\<close> of the standard library (for Unix paths). Opening a database is a
  parameter: a function from the path.
\<close>

section \<open>Paths\<close>

fun path_split :: "string \<Rightarrow> string list" where
  "path_split [] = [[]]"
| "path_split (c # cs) =
     (if c = CHR ''/'' then [] # path_split cs
      else case path_split cs of [] \<Rightarrow> [[c]] | e # es \<Rightarrow> (c # e) # es)"

text \<open>The elements of a cleaned path are kept in reverse order.\<close>

definition clean_elem :: "bool \<Rightarrow> string \<Rightarrow> string list \<Rightarrow> string list" where
  "clean_elem rooted e stack =
     (if e = '''' \<or> e = ''.'' then stack
      else if e = ''..'' then
        (case stack of
           [] \<Rightarrow> if rooted then [] else [e]
         | x # xs \<Rightarrow> if x = ''..'' then e # stack else xs)
      else e # stack)"

definition path_elems :: "bool \<Rightarrow> string \<Rightarrow> string list" where
  "path_elems rooted path = rev (fold (clean_elem rooted) (path_split path) [])"

definition path_Clean :: "string \<Rightarrow> string" where
  "path_Clean path =
     (if path = '''' then ''.''
      else let rooted = (hd path = CHR ''/''); r = join_strings ''/'' (path_elems rooted path)
        in if rooted then CHR ''/'' # r else if r = '''' then ''.'' else r)"

definition path_Join :: "string list \<Rightarrow> string" where
  "path_Join elem =
     (case dropWhile (\<lambda>e. e = '''') elem of [] \<Rightarrow> '''' | es \<Rightarrow> path_Clean (join_strings ''/'' es))"

section \<open>Builders\<close>

definition storage_name :: "string \<Rightarrow> int \<Rightarrow> string" where
  "storage_name topic partition' = topic @ ''.'' @ FormatInt partition'"

definition DefaultBuilder :: "(string \<Rightarrow> 'd result) \<Rightarrow> string \<Rightarrow> string \<Rightarrow> int \<Rightarrow> 'd storage result" where
  "DefaultBuilder openFile path topic partition' =
     (let fp = path_Join [path, storage_name topic partition']
      in case openFile fp of
           Inl err \<Rightarrow> Inl (Wrap ''error opening leveldb: %v'' err)
         | Inr db \<Rightarrow> Inr (storage_New db))"

definition BuilderWithOptions ::
  "('o \<Rightarrow> string \<Rightarrow> 'd result) \<Rightarrow> string \<Rightarrow> 'o \<Rightarrow> string \<Rightarrow> int \<Rightarrow> 'd storage result" where
  "BuilderWithOptions openFile path opts topic partition' =
     (let fp = path_Join [path, storage_name topic partition']
      in case openFile opts fp of
           Inl err \<Rightarrow> Inl (Wrap ''error opening leveldb: %v'' err)
         | Inr db \<Rightarrow> Inr (storage_New db))"

definition MemoryBuilder :: "string \<Rightarrow> int \<Rightarrow> memory result" where
  "MemoryBuilder topic partition' = Inr NewMemory"

definition defaultBaseStoragePath :: string where
  "defaultBaseStoragePath = ''/tmp/goka''"

definition DefaultProcessorStoragePath :: "string \<Rightarrow> string" where
  "DefaultProcessorStoragePath group' = path_Join [defaultBaseStoragePath, ''processor'', group']"

definition DefaultViewStoragePath :: string where
  "DefaultViewStoragePath = path_Join [defaultBaseStoragePath, ''view'']"

section \<open>Different storages have different paths\<close>

text \<open>A plain element is one that cleaning leaves as it is.\<close>

definition plain :: "string \<Rightarrow> bool" where
  "plain e \<longleftrightarrow> CHR ''/'' \<notin> set e \<and> e \<noteq> '''' \<and> e \<noteq> ''.'' \<and> e \<noteq> ''..''"

lemma path_split_ne [simp]: "path_split cs \<noteq> []"
  by (induction cs) (auto split: list.splits)

lemma path_split_append: "path_split (a @ CHR ''/'' # b) = path_split a @ path_split b"
proof (induction a)
  case (Cons c a)
  then show ?case by (cases "path_split a") auto
qed simp

lemma path_split_plain: "CHR ''/'' \<notin> set e \<Longrightarrow> path_split e = [e]"
  by (induction e) auto

lemma path_split_join:
  "es \<noteq> [] \<Longrightarrow> \<forall>e \<in> set es. CHR ''/'' \<notin> set e \<Longrightarrow> path_split (join_strings ''/'' es) = es"
proof (induction es rule: induct_list012)
  case (3 x y zs)
  then show ?case by (simp add: path_split_append path_split_plain)
qed (simp_all add: path_split_plain)

lemma join_strings_inj:
  assumes "join_strings ''/'' es = join_strings ''/'' fs" and "es \<noteq> []" and "fs \<noteq> []"
    and "\<forall>e \<in> set es. plain e" and "\<forall>f \<in> set fs. plain f"
  shows "es = fs"
  using assms path_split_join [of es] path_split_join [of fs] by (metis plain_def)

lemma clean_elems_plain: "\<forall>e \<in> set es. plain e \<Longrightarrow> fold (clean_elem r) es stack = rev es @ stack"
  by (induction es arbitrary: stack) (auto simp: clean_elem_def plain_def)

lemma path_elems_snoc: "plain e \<Longrightarrow> path_elems r (p @ CHR ''/'' # e) = path_elems r p @ [e]"
  using clean_elems_plain [of "[e]"] by (simp add: path_elems_def path_split_append path_split_plain plain_def)

text \<open>Joining a rooted path with a plain element.\<close>

lemma path_Join_plain:
  assumes "plain e"
  shows "path_Join [CHR ''/'' # p, e] = CHR ''/'' # join_strings ''/'' (path_elems True p @ [e])"
  using path_elems_snoc [OF assms, of True "CHR ''/'' # p"]
  by (simp add: path_Join_def path_Clean_def) (simp add: path_elems_def clean_elem_def)

lemma path_elems_join:
  "\<forall>e \<in> set es. plain e \<Longrightarrow> path_elems True (join_strings ''/'' es) = es"
proof (cases "es = []")
  case False
  assume "\<forall>e \<in> set es. plain e"
  with False show ?thesis by (simp add: path_elems_def path_split_join clean_elems_plain plain_def)
qed (simp add: path_elems_def clean_elem_def)

lemma FormatInt_chars: "c \<in> set (FormatInt i) \<Longrightarrow> is_digit c \<or> c = CHR ''-''"
  using format_nat_digits by (auto simp: FormatInt_def split: if_splits)

lemma FormatInt_plain: "CHR ''.'' \<notin> set (FormatInt i)" "CHR ''/'' \<notin> set (FormatInt i)"
  using FormatInt_chars [of "CHR ''.''" i] FormatInt_chars [of "CHR ''/''" i] by (auto simp: is_digit_def)

lemma FormatInt_not_Nil [simp]: "FormatInt i \<noteq> []"
  by (simp add: FormatInt_def)

lemma storage_name_plain: "CHR ''/'' \<notin> set topic \<Longrightarrow> plain (storage_name topic p)"
  using FormatInt_plain [of p] by (cases "FormatInt p") (auto simp: plain_def storage_name_def append_eq_Cons_conv)

lemma first_separator:
  "a @ x # b = c @ x # d \<Longrightarrow> x \<notin> set a \<Longrightarrow> x \<notin> set c \<Longrightarrow> a = c \<and> b = d"
proof (induction a arbitrary: c)
  case (Cons y a)
  then show ?case by (cases c) auto
qed (auto simp: Cons_eq_append_conv)

lemma storage_name_inj:
  assumes "storage_name t p = storage_name u q" and "int64 p" and "int64 q"
  shows "t = u \<and> p = q"
proof -
  have "rev (FormatInt p) @ CHR ''.'' # rev t = rev (FormatInt q) @ CHR ''.'' # rev u"
    using arg_cong [OF assms(1), of rev] by (simp add: storage_name_def)
  then have "rev (FormatInt p) = rev (FormatInt q) \<and> rev t = rev u"
    using FormatInt_plain(1) [of p] FormatInt_plain(1) [of q]
    by (intro first_separator) simp_all
  then have "FormatInt p = FormatInt q" and "t = u" by simp_all
  then show ?thesis using ParseInt_FormatInt [OF assms(2)] ParseInt_FormatInt [OF assms(3)] by (metis sum.inject(2))
qed

text \<open>The path of the database of a processor's table and of a view's table.\<close>

definition processor_path :: "string \<Rightarrow> string \<Rightarrow> int \<Rightarrow> string" where
  "processor_path group' topic p = path_Join [DefaultProcessorStoragePath group', storage_name topic p]"

definition view_path :: "string \<Rightarrow> int \<Rightarrow> string" where
  "view_path topic p = path_Join [DefaultViewStoragePath, storage_name topic p]"

lemma processor_path_elems:
  assumes "plain g" and "CHR ''/'' \<notin> set t"
  shows "processor_path g t p = CHR ''/'' # join_strings ''/'' [''tmp'', ''goka'', ''processor'', g, storage_name t p]"
proof -
  have "DefaultProcessorStoragePath g = CHR ''/'' # join_strings ''/'' ([''tmp'', ''goka'', ''processor'', g])"
    using path_Join_plain [OF assms(1), of "''tmp/goka/processor''"]
    by (simp add: DefaultProcessorStoragePath_def defaultBaseStoragePath_def path_Join_def)
      (simp add: path_elems_def clean_elem_def)
  moreover have "path_elems True (join_strings ''/'' [''tmp'', ''goka'', ''processor'', g]) = [''tmp'', ''goka'', ''processor'', g]"
    using assms(1) by (intro path_elems_join) (simp add: plain_def)
  ultimately show ?thesis
    unfolding processor_path_def by (simp only: path_Join_plain [OF storage_name_plain [OF assms(2)]]) simp
qed

lemma view_path_elems:
  assumes "CHR ''/'' \<notin> set t"
  shows "view_path t p = CHR ''/'' # join_strings ''/'' [''tmp'', ''goka'', ''view'', storage_name t p]"
proof -
  have "DefaultViewStoragePath = ''/tmp/goka/view''" by code_simp
  moreover have "path_elems True ''tmp/goka/view'' = [''tmp'', ''goka'', ''view'']" by code_simp
  ultimately show ?thesis
    using path_Join_plain [OF storage_name_plain [OF assms], of "''tmp/goka/view''" p] by (simp add: view_path_def)
qed



end
