(* ===== verification/Goka_Redis.thy ===== *)
theory Goka_Redis
  imports Goka_Storage_Builders "HOL-Library.Word"
begin

text \<open>
  The redis storage (\<open>storage/redis/redis.go\<close>) and its builder (\<open>storage/redis/builders.go\<close>).

  The client is a parameter: a record of its operations on a state \<open>'r\<close>. What redis documents about
  hashes is the predicate \<open>redis_contract\<close>: every hash is a map from fields to values, an operation on
  one hash leaves the others as they are, and a client that is connected raises no error. A storage
  keeps the state of the client and the name of its hash.
\<close>

section \<open>The client\<close>

record 'r redis =
  rd_Ping :: "'r \<Rightarrow> gerr option"
  rd_HExists :: "'r \<Rightarrow> string \<Rightarrow> string \<Rightarrow> bool result"
  rd_HGet :: "'r \<Rightarrow> string \<Rightarrow> string \<Rightarrow> bytes result"
  rd_HSet :: "'r \<Rightarrow> string \<Rightarrow> string \<Rightarrow> slice \<Rightarrow> 'r \<times> gerr option"
  rd_HDel :: "'r \<Rightarrow> string \<Rightarrow> string \<Rightarrow> 'r \<times> gerr option"
  rd_HScan :: "'r \<Rightarrow> string \<Rightarrow> 64 word \<Rightarrow> string \<Rightarrow> int \<Rightarrow> (string list \<times> 64 word) result"

definition redis_contract :: "'r redis \<Rightarrow> ('r \<Rightarrow> bool) \<Rightarrow> ('r \<Rightarrow> string \<Rightarrow> string \<rightharpoonup> bytes) \<Rightarrow> bool" where
  "redis_contract rd connected content \<longleftrightarrow>
     (\<forall>r. connected r \<longrightarrow> rd_Ping rd r = None) \<and>
     (\<forall>r h k. connected r \<longrightarrow> rd_HExists rd r h k = Inr (content r h k \<noteq> None)) \<and>
     (\<forall>r h k v. connected r \<longrightarrow> content r h k = Some v \<longrightarrow> rd_HGet rd r h k = Inr v) \<and>
     (\<forall>r h k v r' e. connected r \<longrightarrow> rd_HSet rd r h k v = (r', e) \<longrightarrow>
        e = None \<and> connected r' \<and> content r' = (content r)(h := (content r h)(k \<mapsto> slice_bytes v))) \<and>
     (\<forall>r h k r' e. connected r \<longrightarrow> rd_HDel rd r h k = (r', e) \<longrightarrow>
        e = None \<and> connected r' \<and> content r' = (content r)(h := (content r h)(k := None)))"

section \<open>The storage\<close>

record 'r redisStorage =
  rs_client :: 'r
  rs_hash :: string

text \<open>A nil client is \<open>None\<close>.\<close>

definition redis_New :: "'r redis \<Rightarrow> 'r option \<Rightarrow> string \<Rightarrow> 'r redisStorage result" where
  "redis_New rd client hash =
     (case client of
        None \<Rightarrow> Inl (Err ''invalid redis client'')
      | Some r \<Rightarrow>
          (case rd_Ping rd r of
             Some err \<Rightarrow> Inl err
           | None \<Rightarrow> Inr \<lparr>rs_client = r, rs_hash = hash\<rparr>))"

definition RedisBuilder :: "'r redis \<Rightarrow> 'r option \<Rightarrow> string \<Rightarrow> string \<Rightarrow> int \<Rightarrow> 'r redisStorage result" where
  "RedisBuilder rd client namespace topic partition' =
     (if namespace = '''' then Inl (Err ''missing namespace to redis storage'')
      else redis_New rd client (namespace @ '':'' @ topic @ '':'' @ FormatInt partition'))"

definition redis_Has :: "'r redis \<Rightarrow> 'r redisStorage \<Rightarrow> string \<Rightarrow> bool result" where
  "redis_Has rd s key = rd_HExists rd (rs_client s) (rs_hash s) key"

definition redis_Get :: "'r redis \<Rightarrow> 'r redisStorage \<Rightarrow> string \<Rightarrow> slice result" where
  "redis_Get rd s key =
     (case rd_HExists rd (rs_client s) (rs_hash s) key of
        Inl err \<Rightarrow> Inl (Wrap ''error checking for existence in redis (key %s): %v'' err)
      | Inr False \<Rightarrow> Inr None
      | Inr True \<Rightarrow>
          (case rd_HGet rd (rs_client s) (rs_hash s) key of
             Inl err \<Rightarrow> Inl (Wrap ''error getting from redis (key %s): %v'' err)
           | Inr v \<Rightarrow> Inr (Some v)))"

definition redis_GetOffset :: "'r redis \<Rightarrow> 'r redisStorage \<Rightarrow> int \<Rightarrow> int result" where
  "redis_GetOffset rd s defValue =
     (case redis_Get rd s offsetKey of
        Inl err \<Rightarrow> Inl err
      | Inr None \<Rightarrow> Inr defValue
      | Inr (Some data) \<Rightarrow>
          (case ParseInt data of
             Inl e \<Rightarrow> Inl (Err ''error decoding redis offset (%s): %v'')
           | Inr v \<Rightarrow> Inr v))"

definition redis_Set :: "'r redis \<Rightarrow> 'r redisStorage \<Rightarrow> string \<Rightarrow> slice \<Rightarrow> 'r redisStorage \<times> gerr option" where
  "redis_Set rd s key value =
     (case rd_HSet rd (rs_client s) (rs_hash s) key value of
        (r, e) \<Rightarrow> (s\<lparr>rs_client := r\<rparr>, map_option (Wrap ''error setting to redis (key %s): %v'') e))"

definition redis_SetOffset :: "'r redis \<Rightarrow> 'r redisStorage \<Rightarrow> int \<Rightarrow> 'r redisStorage \<times> gerr option" where
  "redis_SetOffset rd s off = redis_Set rd s offsetKey (Some (FormatInt off))"

definition redis_Delete :: "'r redis \<Rightarrow> 'r redisStorage \<Rightarrow> string \<Rightarrow> 'r redisStorage \<times> gerr option" where
  "redis_Delete rd s key =
     (case rd_HDel rd (rs_client s) (rs_hash s) key of (r, e) \<Rightarrow> (s\<lparr>rs_client := r\<rparr>, e))"

definition redis_ops :: "'r redis \<Rightarrow> 'r redisStorage storage_ops" where
  "redis_ops rd = \<lparr>st_Open = (\<lambda>s. (s, None)), st_Close = (\<lambda>s. Ret (s, None)), st_Has = redis_Has rd,
     st_Get = redis_Get rd, st_Set = redis_Set rd, st_Delete = redis_Delete rd,
     st_GetOffset = redis_GetOffset rd, st_SetOffset = redis_SetOffset rd,
     st_MarkRecovered = (\<lambda>s. Ret (s, None))\<rparr>"

section \<open>The iterator\<close>

text \<open>The position is an \<open>uint64\<close>; it starts as the cursor that the scan returned.\<close>

record 'r redisIterator =
  ri_current :: "64 word"
  ri_keys :: "string list"
  ri_client :: 'r
  ri_hash :: string

definition redis_scan :: "'r redis \<Rightarrow> 'r redisStorage \<Rightarrow> string \<Rightarrow> 'r redisIterator result" where
  "redis_scan rd s match =
     (case rd_HScan rd (rs_client s) (rs_hash s) 0 match 0 of
        Inl err \<Rightarrow> Inl err
      | Inr (keys, current) \<Rightarrow> Inr \<lparr>ri_current = current, ri_keys = keys, ri_client = rs_client s, ri_hash = rs_hash s\<rparr>)"

definition redis_Iterator :: "'r redis \<Rightarrow> 'r redisStorage \<Rightarrow> 'r redisIterator result" where
  "redis_Iterator rd s = redis_scan rd s ''''"

definition redis_IteratorWithRange ::
  "'r redis \<Rightarrow> 'r redisStorage \<Rightarrow> slice \<Rightarrow> slice \<Rightarrow> 'r redisIterator result" where
  "redis_IteratorWithRange rd s start limit = redis_scan rd s (slice_bytes start)"

definition redisIterator_exhausted :: "'r redisIterator \<Rightarrow> bool" where
  "redisIterator_exhausted i \<longleftrightarrow> (of_nat (length (ri_keys i)) :: 64 word) \<le> ri_current i"

definition redisIterator_Key :: "'r redisIterator \<Rightarrow> slice" where
  "redisIterator_Key i = (if redisIterator_exhausted i then None else Some (ri_keys i ! unat (ri_current i)))"

definition redisIterator_Next :: "'r redisIterator \<Rightarrow> 'r redisIterator \<times> bool" where
  "redisIterator_Next i =
     (let i = i\<lparr>ri_current := ri_current i + 1\<rparr>;
          i = (if slice_bytes (redisIterator_Key i) = offsetKey then i\<lparr>ri_current := ri_current i + 1\<rparr> else i)
      in (i, \<not> redisIterator_exhausted i))"

definition redisIterator_Value :: "'r redis \<Rightarrow> 'r redisIterator \<Rightarrow> slice result" where
  "redisIterator_Value rd i =
     (if redisIterator_exhausted i then Inr None
      else map_sum id Some (rd_HGet rd (ri_client i) (ri_hash i) (ri_keys i ! unat (ri_current i))))"

definition redisIterator_Release :: "'r redisIterator \<Rightarrow> 'r redisIterator" where
  "redisIterator_Release i = i\<lparr>ri_current := of_nat (length (ri_keys i))\<rparr>"

definition redisIterator_Seek :: "'r redisIterator \<Rightarrow> bytes \<Rightarrow> 'r redisIterator \<times> bool" where
  "redisIterator_Seek i key = (i, \<not> redisIterator_exhausted i)"

definition redisIterator_ops :: "'r redis \<Rightarrow> 'r redisIterator iter_ops" where
  "redisIterator_ops rd = \<lparr>it_Next = redisIterator_Next, it_Err = (\<lambda>i. None), it_Key = redisIterator_Key,
     it_Value = redisIterator_Value rd, it_Release = redisIterator_Release, it_Seek = redisIterator_Seek\<rparr>"

section \<open>The storage keeps the contract\<close>

definition redis_contents :: "('r \<Rightarrow> string \<Rightarrow> string \<rightharpoonup> bytes) \<Rightarrow> 'r redisStorage \<Rightarrow> string \<rightharpoonup> bytes" where
  "redis_contents content s = (content (rs_client s) (rs_hash s))(offsetKey := None)"

definition redis_offset :: "('r \<Rightarrow> string \<Rightarrow> string \<rightharpoonup> bytes) \<Rightarrow> 'r redisStorage \<Rightarrow> int option" where
  "redis_offset content s = stored_offset (content (rs_client s) (rs_hash s))"

definition redis_invar :: "('r \<Rightarrow> bool) \<Rightarrow> ('r \<Rightarrow> string \<Rightarrow> string \<rightharpoonup> bytes) \<Rightarrow> 'r redisStorage \<Rightarrow> bool" where
  "redis_invar connected content s \<longleftrightarrow> connected (rs_client s) \<and>
     (\<forall>data. content (rs_client s) (rs_hash s) offsetKey = Some data \<longrightarrow> (\<exists>n. ParseInt data = Inr n))"

lemma redis_Get_ok:
  assumes "redis_contract rd connected content" and "connected (rs_client s)"
  shows "redis_Get rd s k = Inr (content (rs_client s) (rs_hash s) k)"
proof (cases "content (rs_client s) (rs_hash s) k")
  case None
  moreover have "rd_HExists rd (rs_client s) (rs_hash s) k = Inr (content (rs_client s) (rs_hash s) k \<noteq> None)"
    using assms unfolding redis_contract_def by blast
  ultimately show ?thesis by (simp add: redis_Get_def)
next
  case (Some v)
  moreover have "rd_HExists rd (rs_client s) (rs_hash s) k = Inr (content (rs_client s) (rs_hash s) k \<noteq> None)"
    and "rd_HGet rd (rs_client s) (rs_hash s) k = Inr v"
    using assms Some unfolding redis_contract_def by blast+
  ultimately show ?thesis by (simp add: redis_Get_def)
qed

lemma redis_Set_ok:
  assumes "redis_contract rd connected content" and "connected (rs_client s)"
  obtains r where "redis_Set rd s k v = (s\<lparr>rs_client := r\<rparr>, None)" and "connected r"
    and "content r = (content (rs_client s))(rs_hash s := (content (rs_client s) (rs_hash s))(k \<mapsto> slice_bytes v))"
proof -
  obtain r e where r: "rd_HSet rd (rs_client s) (rs_hash s) k v = (r, e)"
    by (cases "rd_HSet rd (rs_client s) (rs_hash s) k v")
  have "e = None \<and> connected r \<and>
      content r = (content (rs_client s))(rs_hash s := (content (rs_client s) (rs_hash s))(k \<mapsto> slice_bytes v))"
    using assms r unfolding redis_contract_def by blast
  with r that show ?thesis by (simp add: redis_Set_def)
qed

lemma redis_Delete_ok:
  assumes "redis_contract rd connected content" and "connected (rs_client s)"
  obtains r where "redis_Delete rd s k = (s\<lparr>rs_client := r\<rparr>, None)" and "connected r"
    and "content r = (content (rs_client s))(rs_hash s := (content (rs_client s) (rs_hash s))(k := None))"
proof -
  obtain r e where r: "rd_HDel rd (rs_client s) (rs_hash s) k = (r, e)"
    by (cases "rd_HDel rd (rs_client s) (rs_hash s) k")
  have "e = None \<and> connected r \<and>
      content r = (content (rs_client s))(rs_hash s := (content (rs_client s) (rs_hash s))(k := None))"
    using assms r unfolding redis_contract_def by blast
  with r that show ?thesis by (simp add: redis_Delete_def)
qed

lemma redis_GetOffset_ok:
  assumes "redis_contract rd connected content" and "redis_invar connected content s"
  shows "redis_GetOffset rd s d = Inr (case redis_offset content s of None \<Rightarrow> d | Some n \<Rightarrow> n)"
proof (cases "content (rs_client s) (rs_hash s) offsetKey")
  case None
  then show ?thesis
    using redis_Get_ok [OF assms(1), of s offsetKey] assms(2)
    by (simp add: redis_GetOffset_def redis_offset_def stored_offset_def redis_invar_def)
next
  case (Some data)
  then obtain n where "ParseInt data = Inr n" using assms(2) unfolding redis_invar_def by blast
  with Some show ?thesis
    using redis_Get_ok [OF assms(1), of s offsetKey] assms(2)
    by (simp add: redis_GetOffset_def redis_offset_def stored_offset_def redis_invar_def)
qed

lemma redis_kv_storage:
  assumes "redis_contract rd connected content"
  shows "kv_storage (redis_ops rd) (redis_invar connected content) (redis_contents content)
    (redis_offset content) {offsetKey} (\<lambda>_. True) (\<lambda>_ _. True)"
proof (unfold_locales, goal_cases)
  case (1 s k)
  then show ?case
    using redis_Get_ok [OF assms, of s k] by (simp add: redis_ops_def redis_contents_def redis_invar_def)
next
  case (2 s k)
  then have "redis_Has rd s k = Inr (content (rs_client s) (rs_hash s) k \<noteq> None)"
    using assms unfolding redis_contract_def redis_invar_def redis_Has_def by blast
  with 2 show ?case by (simp add: redis_ops_def redis_contents_def)
next
  case (3 s k v s' e)
  obtain r where "redis_Set rd s k (Some v) = (s\<lparr>rs_client := r\<rparr>, None)" "connected r"
    "content r = (content (rs_client s))(rs_hash s := (content (rs_client s) (rs_hash s))(k \<mapsto> v))"
    using redis_Set_ok [OF assms, of s k "Some v"] 3(1) by (auto simp: redis_invar_def slice_bytes_def)
  with 3 show ?case
    by (auto simp: redis_ops_def redis_invar_def redis_contents_def redis_offset_def stored_offset_def fun_upd_twist)
next
  case (4 s k s' e)
  obtain r where "redis_Delete rd s k = (s\<lparr>rs_client := r\<rparr>, None)" "connected r"
    "content r = (content (rs_client s))(rs_hash s := (content (rs_client s) (rs_hash s))(k := None))"
    using redis_Delete_ok [OF assms, of s k] 4(1) by (auto simp: redis_invar_def)
  with 4 show ?case
    by (auto simp: redis_ops_def redis_invar_def redis_contents_def redis_offset_def stored_offset_def fun_upd_twist)
next
  case (5 s n s' e)
  obtain r where "redis_SetOffset rd s n = (s\<lparr>rs_client := r\<rparr>, None)" "connected r"
    "content r = (content (rs_client s))(rs_hash s := (content (rs_client s) (rs_hash s))(offsetKey \<mapsto> FormatInt n))"
    using redis_Set_ok [OF assms, of s offsetKey "Some (FormatInt n)"] 5(1)
    by (auto simp: redis_SetOffset_def redis_invar_def slice_bytes_def)
  with 5 show ?case
    by (auto simp: redis_ops_def redis_invar_def redis_contents_def redis_offset_def stored_offset_def ParseInt_FormatInt)
next
  case (6 s d)
  then show ?case using redis_GetOffset_ok [OF assms] by (simp add: redis_ops_def)
next
  case (7 s n)
  then show ?case using ParseInt_range
    by (auto simp: redis_offset_def stored_offset_def redis_invar_def)
qed (simp add: redis_ops_def)


text \<open>The storages of one builder have different hashes, and an update of one hash leaves the others.\<close>

lemma redis_hash_inj:
  assumes "ns @ '':'' @ t @ '':'' @ FormatInt p = ns @ '':'' @ u @ '':'' @ FormatInt q" and "int64 p" and "int64 q"
  shows "t = u \<and> p = q"
proof -
  have "t @ '':'' @ FormatInt p = u @ '':'' @ FormatInt q" using assms(1) by simp
  then have "rev (FormatInt p) @ CHR '':'' # rev t = rev (FormatInt q) @ CHR '':'' # rev u"
    by (metis (no_types) append.assoc append_Cons append_Nil rev.simps(2) rev_append)
  moreover have "CHR '':'' \<notin> set (FormatInt i)" for i using FormatInt_chars [of "CHR '':''" i] by (auto simp: is_digit_def)
  ultimately have "rev (FormatInt p) = rev (FormatInt q) \<and> rev t = rev u" by (intro first_separator) simp_all
  then have "FormatInt p = FormatInt q" and "t = u" by simp_all
  then show ?thesis using ParseInt_FormatInt [OF assms(2)] ParseInt_FormatInt [OF assms(3)] by (metis sum.inject(2))
qed

definition only_hash ::
  "('r \<Rightarrow> bool) \<Rightarrow> ('r \<Rightarrow> string \<Rightarrow> string \<rightharpoonup> bytes) \<Rightarrow> 'r redisStorage \<Rightarrow> 'r redisStorage \<Rightarrow> bool" where
  "only_hash connected content s s' \<longleftrightarrow> rs_hash s' = rs_hash s \<and> connected (rs_client s') \<and>
     (\<forall>h. h \<noteq> rs_hash s \<longrightarrow> content (rs_client s') h = content (rs_client s) h)"

lemma only_hash_trans:
  "only_hash connected content s s' \<Longrightarrow> only_hash connected content s' s'' \<Longrightarrow> only_hash connected content s s''"
  by (simp add: only_hash_def)

lemma only_hash_Set:
  assumes "redis_contract rd connected content" and "connected (rs_client s)"
  shows "only_hash connected content s (fst (redis_Set rd s k v))"
  by (rule redis_Set_ok [OF assms, of k v]) (simp add: only_hash_def)

lemma only_hash_Delete:
  assumes "redis_contract rd connected content" and "connected (rs_client s)"
  shows "only_hash connected content s (fst (redis_Delete rd s k))"
  by (rule redis_Delete_ok [OF assms, of k]) (simp add: only_hash_def)

lemma only_hash_upds:
  assumes "redis_contract rd connected content" and "connected (rs_client s)"
  shows "only_hash connected content s (fold (apply_upd (redis_ops rd)) us s)"
  using assms(2)
proof (induction us arbitrary: s)
  case (Cons u us)
  have "only_hash connected content s (apply_upd (redis_ops rd) u s)"
    using only_hash_Set [OF assms(1) Cons.prems] only_hash_Delete [OF assms(1) Cons.prems]
    by (cases u) (simp_all add: apply_upd_def redis_ops_def)
  then show ?case using Cons.IH [of "apply_upd (redis_ops rd) u s"] only_hash_trans by (auto simp: only_hash_def)
qed (simp add: only_hash_def)

text \<open>C34: the redis storage of a partition refines a map and an offset. After any updates of a partition
  that was empty, and after storing an offset, \<open>Get\<close> and \<open>Has\<close> answer as the map that the updates describe,
  \<open>GetOffset\<close> returns the offset, and the storage that the same builder gives for another topic or
  partition still answers as before. The key \<open>__offset\<close> is reserved.\<close>

theorem redis_refines_map:
  assumes rd: "redis_contract rd connected content" and r: "connected r"
    and s: "RedisBuilder rd (Some r) ns t p = Inr s" and empty: "content r (rs_hash s) = Map.empty"
    and us: "\<forall>u \<in> set us. upd_key u \<noteq> offsetKey" and n: "int64 n" and pq: "int32 p" "int32 q" "(u, q) \<noteq> (t, p)"
    and s': "redis_SetOffset rd (fold (apply_upd (redis_ops rd)) us s) n = (s', e)"
    and s2: "RedisBuilder rd (Some (rs_client s')) ns u q = Inr s2"
  shows "e = None \<and> redis_GetOffset rd s' d = Inr n \<and>
    (k \<noteq> offsetKey \<longrightarrow> redis_Get rd s' k = Inr (fold upd_map us Map.empty k) \<and>
       redis_Has rd s' k = Inr (fold upd_map us Map.empty k \<noteq> None)) \<and>
    redis_Get rd s2 k = Inr (content r (rs_hash s2) k)"
proof -
  note kv = redis_kv_storage [OF rd]
  define s1 where "s1 = fold (apply_upd (redis_ops rd)) us s"
  have s0: "s = \<lparr>rs_client = r, rs_hash = ns @ '':'' @ t @ '':'' @ FormatInt p\<rparr>"
    and s2': "s2 = \<lparr>rs_client = rs_client s', rs_hash = ns @ '':'' @ u @ '':'' @ FormatInt q\<rparr>"
    using s s2 by (auto simp: RedisBuilder_def redis_New_def split: if_splits option.splits)
  have "redis_invar connected content s" using r empty by (simp add: s0 redis_invar_def)
  from kv_storage.apply_upds_refine [OF kv this, of us] us
  have s1: "redis_invar connected content s1" "redis_contents content s1 = fold upd_map us Map.empty"
    using empty unfolding s1_def by (auto simp: redis_contents_def s0)
  have off: "e = None \<and> redis_invar connected content s' \<and> redis_contents content s' = redis_contents content s1 \<and>
      redis_offset content s' = Some n"
    using kv_storage.set_offset [OF kv s1(1) n, of s' e] s' by (simp add: redis_ops_def s1_def)
  then have "redis_GetOffset rd s' d = Inr n" using redis_GetOffset_ok [OF rd] by simp
  moreover have "redis_Get rd s' k = Inr (fold upd_map us Map.empty k) \<and>
      redis_Has rd s' k = Inr (fold upd_map us Map.empty k \<noteq> None)" if "k \<noteq> offsetKey"
    using kv_storage.get [OF kv, of s' k] kv_storage.has [OF kv, of s' k] that off s1(2)
    by (simp add: redis_ops_def)
  moreover have "redis_Get rd s2 k = Inr (content r (rs_hash s2) k)"
  proof -
    have "rs_hash s2 \<noteq> rs_hash s" using redis_hash_inj [of ns t p u q] pq by (auto simp: s0 s2')
    moreover have "only_hash connected content s s1"
      unfolding s1_def using r by (intro only_hash_upds [OF rd]) (simp add: s0)
    moreover have "only_hash connected content s1 s'"
      using only_hash_Set [OF rd, of s1 offsetKey "Some (FormatInt n)"] s1(1) s'
      by (simp add: s1_def [symmetric] redis_SetOffset_def redis_invar_def)
    ultimately have "only_hash connected content s s'" and "rs_hash s2 \<noteq> rs_hash s" using only_hash_trans by blast+
    then show ?thesis using redis_Get_ok [OF rd, of s2 k] by (simp add: only_hash_def s0 s2')
  qed
  ultimately show ?thesis using off by blast
qed

section \<open>The iterator leaves out the first entry\<close>

text \<open>The loop over the entries of a scan from a position on: one entry \<open>__offset\<close> is skipped at a time.\<close>

fun skip_offset :: "string list \<Rightarrow> string list" where
  "skip_offset [] = []"
| "skip_offset (k # ks) =
     (if k = offsetKey then (case ks of [] \<Rightarrow> [] | k' # ks' \<Rightarrow> k' # skip_offset ks') else k # skip_offset ks)"

lemma redis_position:
  assumes "length ks < 2 ^ 63" and "j < 2 ^ 63"
  shows "(of_nat (length ks) :: 64 word) \<le> of_nat j \<longleftrightarrow> length ks \<le> j" and "unat (of_nat j :: 64 word) = j"
  using assms by (simp_all add: word_le_nat_alt unat_of_nat)

lemma redis_iterate:
  assumes "length (ri_keys i) < 2 ^ 63 - 2" and "ri_current i = of_nat j" and "j \<le> length (ri_keys i)"
    and "length (ri_keys i) - j < fuel"
  shows "iterate (redisIterator_ops rd) fuel i =
    Some (map (\<lambda>k. (Some k, map_sum id Some (rd_HGet rd (ri_client i) (ri_hash i) k))) (skip_offset (drop (Suc j) (ri_keys i))))"
  using assms
proof (induction "length (ri_keys i) - j" arbitrary: i j fuel rule: less_induct)
  case less
  let ?ks = "ri_keys i"
  obtain f where f: "fuel = Suc f" using less.prems(4) by (cases fuel) auto
  have pos: "(of_nat (length ?ks) :: 64 word) \<le> of_nat k \<longleftrightarrow> length ?ks \<le> k" "unat (of_nat k :: 64 word) = k"
    if "k \<le> Suc (Suc (length ?ks))" for k
    using that less.prems(1) redis_position [of ?ks k] by auto
  show ?case
  proof (cases "Suc j < length ?ks")
    case False
    then have "drop (Suc j) ?ks = []" by simp
    moreover have "\<not> snd (redisIterator_Next i)"
      using False less.prems pos [of "Suc j"] pos [of "Suc (Suc j)"]
      by (auto simp: redisIterator_Next_def redisIterator_Key_def redisIterator_exhausted_def Let_def add.commute
          slice_bytes_def offsetKey_def)
    ultimately show ?thesis
      by (cases "redisIterator_Next i") (simp add: f redisIterator_ops_def)
  next
    case True
    define c where "c = (if ?ks ! Suc j = offsetKey then Suc (Suc j) else Suc j)"
    define i' where "i' = i\<lparr>ri_current := of_nat c\<rparr>"
    have c: "c \<le> length ?ks" "j < c" using True by (auto simp: c_def)
    have nxt: "redisIterator_Next i = (i', c < length ?ks)"
      using True less.prems(2) pos [of "Suc j"] pos [of "Suc (Suc j)"]
      by (auto simp: redisIterator_Next_def redisIterator_Key_def redisIterator_exhausted_def Let_def add.commute
          slice_bytes_def i'_def c_def)
    have skip: "skip_offset (drop (Suc j) ?ks) = (if c < length ?ks then ?ks ! c # skip_offset (drop (Suc c) ?ks) else [])"
      using True by (auto simp: c_def Cons_nth_drop_Suc [symmetric] split: list.splits)
    show ?thesis
    proof (cases "c < length ?ks")
      case in_range: True
      have "iterate (redisIterator_ops rd) f i' = Some (map (\<lambda>k. (Some k, map_sum id Some (rd_HGet rd (ri_client i) (ri_hash i) k)))
          (skip_offset (drop (Suc c) ?ks)))"
        using less.hyps [of i' c f] c less.prems f by (simp add: i'_def)
      moreover have "redisIterator_Key i' = Some (?ks ! c)"
        and "redisIterator_Value rd i' = map_sum id Some (rd_HGet rd (ri_client i) (ri_hash i) (?ks ! c))"
        using in_range pos [of c] by (simp_all add: redisIterator_Key_def redisIterator_Value_def redisIterator_exhausted_def i'_def)
      ultimately show ?thesis using in_range nxt skip by (simp add: f redisIterator_ops_def)
    next
      case False
      then show ?thesis using nxt skip by (simp add: f redisIterator_ops_def)
    qed
  qed
qed


section \<open>Samples\<close>

definition sample_redis :: "(string \<Rightarrow> string \<rightharpoonup> bytes) redis" where
  "sample_redis = \<lparr>rd_Ping = (\<lambda>r. None), rd_HExists = (\<lambda>r h k. Inr (r h k \<noteq> None)),
     rd_HGet = (\<lambda>r h k. case r h k of None \<Rightarrow> Inl (Err ''redis: nil'') | Some v \<Rightarrow> Inr v),
     rd_HSet = (\<lambda>r h k v. (r(h := (r h)(k \<mapsto> slice_bytes v)), None)),
     rd_HDel = (\<lambda>r h k. (r(h := (r h)(k := None)), None)),
     rd_HScan = (\<lambda>r h c m n. Inr ([''a'', ''1'', ''__offset'', ''7''], 0))\<rparr>"

lemma sample_redis_contract: "redis_contract sample_redis (\<lambda>r. True) id"
  by (auto simp: redis_contract_def sample_redis_def)

theorem redis_refines_map_witness:
  "\<exists>s s' s2. RedisBuilder sample_redis (Some (\<lambda>h. Map.empty)) ''ns'' ''t'' 0 = Inr s \<and>
     redis_SetOffset sample_redis (fold (apply_upd (redis_ops sample_redis)) [Put ''a'' ''x''] s) 7 = (s', None) \<and>
     redis_GetOffset sample_redis s' (-2) = Inr 7 \<and> redis_Get sample_redis s' ''a'' = Inr (Some ''x'') \<and>
     RedisBuilder sample_redis (Some (rs_client s')) ''ns'' ''t'' 1 = Inr s2 \<and> redis_Get sample_redis s2 ''a'' = Inr None"
proof -
  obtain s where s: "RedisBuilder sample_redis (Some (\<lambda>h. Map.empty)) ''ns'' ''t'' 0 = Inr s"
    by (simp add: RedisBuilder_def redis_New_def sample_redis_def)
  obtain s' e where s': "redis_SetOffset sample_redis (fold (apply_upd (redis_ops sample_redis)) [Put ''a'' ''x''] s) 7 = (s', e)"
    by fastforce
  obtain s2 where s2: "RedisBuilder sample_redis (Some (rs_client s')) ''ns'' ''t'' 1 = Inr s2"
    by (simp add: RedisBuilder_def redis_New_def sample_redis_def)
  have k: "\<forall>u \<in> set [Put ''a'' ''x'']. upd_key u \<noteq> offsetKey" by (simp add: upd_key_def offsetKey_def)
  have e: "id (\<lambda>h. Map.empty) (rs_hash s) = (Map.empty :: string \<rightharpoonup> bytes)" by simp
  from redis_refines_map [OF sample_redis_contract _ s e k _ _ _ _ s' s2, of "-2" "''a''"] s s' s2 show ?thesis
    by (auto simp: upd_map_def offsetKey_def)
qed


end
