(* ===== verification/Goka_Options.thy ===== *)
theory Goka_Options
  imports Goka_Logger Goka_Config Goka_Storage_Builders Goka_Producer Goka_Processor
begin

text \<open>
  The options of processors, views and emitters (\<open>options.go\<close>), and how their constructors apply them.

  An option is a function on the record of options, as in the source. The options that register with a
  tester, and the hook on the group graph, change the state of other objects, so an option also maps
  the world (\<^typ>\<open>'x world\<close>), and may panic. A nil function is \<open>None\<close>. The tester is an interface: a
  record of its methods.
\<close>

section \<open>Processor options\<close>

type_synonym 's StorageBuilder = "string \<Rightarrow> int \<Rightarrow> 's result"
type_synonym 'x RebalanceCallback = "Assignment \<Rightarrow> 'x world \<Rightarrow> 'x world"
type_synonym graph = "ProcessCallback GroupGraph"

definition defaultClientID :: string where "defaultClientID = ''goka''"
definition defaultBackoffRestTime :: int where "defaultBackoffRestTime = 60000000000"

definition DefaultRebalance :: "'x RebalanceCallback" where
  "DefaultRebalance a w = w"

record ('s, 'x, 'm) poptions =
  po_log :: "Logger option"
  po_clientID :: string
  po_updateCallback :: "'s UpdateCallback option"
  po_rebalanceCallback :: "'x RebalanceCallback option"
  po_partitionChannelSize :: int
  po_hasher :: "hasher option"
  po_nilHandling :: NilHandling
  po_backoffResetTime :: int
  po_hotStandby :: bool
  po_recoverAhead :: bool
  po_producerDefaultHeaders :: Headers
  po_storage :: "'s StorageBuilder option"
  po_consumerSarama :: "('x, 'm) SaramaConsumerBuilder option"
  po_consumerGroup :: "('x, 'm) GroupBuilder option"
  po_producer :: "('x, 'm) ProducerBuilder option"
  po_topicmgr :: "('x, 'm) TopicManagerBuilder option"
  po_backoff :: "BackoffBuilder option"

definition new_poptions :: "('s, 'x, 'm) poptions" where
  "new_poptions = \<lparr>po_log = None, po_clientID = '''', po_updateCallback = None, po_rebalanceCallback = None,
     po_partitionChannelSize = 0, po_hasher = None, po_nilHandling = NilIgnore, po_backoffResetTime = 0,
     po_hotStandby = False, po_recoverAhead = False, po_producerDefaultHeaders = None, po_storage = None,
     po_consumerSarama = None, po_consumerGroup = None, po_producer = None, po_topicmgr = None, po_backoff = None\<rparr>"

type_synonym ('s, 'x, 'm) ProcessorOption =
  "('s, 'x, 'm) poptions \<Rightarrow> graph \<Rightarrow> 'x world \<Rightarrow> (('s, 'x, 'm) poptions \<times> 'x world) go"

record ('s, 'x, 'm) tester_api =
  ta_StorageBuilder :: "'s StorageBuilder"
  ta_ProducerBuilder :: "('x, 'm) ProducerBuilder"
  ta_ConsumerGroupBuilder :: "('x, 'm) GroupBuilder"
  ta_ConsumerBuilder :: "('x, 'm) SaramaConsumerBuilder"
  ta_EmitterProducerBuilder :: "('x, 'm) ProducerBuilder"
  ta_TopicManagerBuilder :: "('x, 'm) TopicManagerBuilder"
  ta_RegisterGroupGraph :: "graph \<Rightarrow> 'x world \<Rightarrow> ('x world \<times> string) go"
  ta_RegisterEmitter :: "string \<Rightarrow> Codec option \<Rightarrow> 'x world \<Rightarrow> 'x world go"
  ta_RegisterView :: "string \<Rightarrow> Codec option \<Rightarrow> 'x world \<Rightarrow> ('x world \<times> string) go"

definition WithUpdateCallback :: "'s UpdateCallback \<Rightarrow> ('s, 'x, 'm) ProcessorOption" where
  "WithUpdateCallback cb o' gg w = Ret (o'\<lparr>po_updateCallback := Some cb\<rparr>, w)"

definition WithClientID :: "string \<Rightarrow> ('s, 'x, 'm) ProcessorOption" where
  "WithClientID clientID o' gg w = Ret (o'\<lparr>po_clientID := clientID\<rparr>, w)"

definition WithStorageBuilder :: "'s StorageBuilder option \<Rightarrow> ('s, 'x, 'm) ProcessorOption" where
  "WithStorageBuilder sb o' gg w = Ret (o'\<lparr>po_storage := sb\<rparr>, w)"

definition WithTopicManagerBuilder :: "('x, 'm) TopicManagerBuilder option \<Rightarrow> ('s, 'x, 'm) ProcessorOption" where
  "WithTopicManagerBuilder tmb o' gg w = Ret (o'\<lparr>po_topicmgr := tmb\<rparr>, w)"

definition WithConsumerGroupBuilder :: "('x, 'm) GroupBuilder option \<Rightarrow> ('s, 'x, 'm) ProcessorOption" where
  "WithConsumerGroupBuilder cgb o' gg w = Ret (o'\<lparr>po_consumerGroup := cgb\<rparr>, w)"

definition WithConsumerSaramaBuilder :: "('x, 'm) SaramaConsumerBuilder option \<Rightarrow> ('s, 'x, 'm) ProcessorOption" where
  "WithConsumerSaramaBuilder cgb o' gg w = Ret (o'\<lparr>po_consumerSarama := cgb\<rparr>, w)"

definition WithProducerBuilder :: "('x, 'm) ProducerBuilder option \<Rightarrow> ('s, 'x, 'm) ProcessorOption" where
  "WithProducerBuilder pb o' gg w = Ret (o'\<lparr>po_producer := pb\<rparr>, w)"

definition WithBackoffBuilder :: "BackoffBuilder option \<Rightarrow> ('s, 'x, 'm) ProcessorOption" where
  "WithBackoffBuilder bb o' gg w = Ret (o'\<lparr>po_backoff := bb\<rparr>, w)"

definition WithPartitionChannelSize :: "int \<Rightarrow> ('s, 'x, 'm) ProcessorOption" where
  "WithPartitionChannelSize n o' gg w = Ret (o'\<lparr>po_partitionChannelSize := n\<rparr>, w)"

definition as_logger :: "Logger \<Rightarrow> Logger" where
  "as_logger l = (if is_logger l then l else wrapLogger l)"

definition WithLogger :: "Logger \<Rightarrow> ('s, 'x, 'm) ProcessorOption" where
  "WithLogger l o' gg w = Ret (o'\<lparr>po_log := Some (as_logger l)\<rparr>, w)"

definition WithHasher :: "hasher \<Rightarrow> ('s, 'x, 'm) ProcessorOption" where
  "WithHasher hasher o' gg w = Ret (o'\<lparr>po_hasher := Some hasher\<rparr>, w)"

definition WithHotStandby :: "('s, 'x, 'm) ProcessorOption" where
  "WithHotStandby o' gg w = Ret (o'\<lparr>po_hotStandby := True\<rparr>, w)"

definition WithRecoverAhead :: "('s, 'x, 'm) ProcessorOption" where
  "WithRecoverAhead o' gg w = Ret (o'\<lparr>po_recoverAhead := True\<rparr>, w)"

definition WithGroupGraphHook :: "(graph \<Rightarrow> 'x world \<Rightarrow> 'x world go) \<Rightarrow> ('s, 'x, 'm) ProcessorOption" where
  "WithGroupGraphHook hook o' gg w = go_bind (hook gg w) (\<lambda>w. Ret (o', w))"

definition WithBackoffResetTimeout :: "int \<Rightarrow> ('s, 'x, 'm) ProcessorOption" where
  "WithBackoffResetTimeout duration o' gg w = Ret (o'\<lparr>po_backoffResetTime := duration\<rparr>, w)"

definition WithProducerDefaultHeaders :: "Headers \<Rightarrow> ('s, 'x, 'm) ProcessorOption" where
  "WithProducerDefaultHeaders hdr o' gg w = Ret (o'\<lparr>po_producerDefaultHeaders := hdr\<rparr>, w)"

definition WithNilHandling :: "NilHandling \<Rightarrow> ('s, 'x, 'm) ProcessorOption" where
  "WithNilHandling nh o' gg w = Ret (o'\<lparr>po_nilHandling := nh\<rparr>, w)"

definition WithRebalanceCallback :: "'x RebalanceCallback \<Rightarrow> ('s, 'x, 'm) ProcessorOption" where
  "WithRebalanceCallback cb o' gg w = Ret (o'\<lparr>po_rebalanceCallback := Some cb\<rparr>, w)"

definition WithTester :: "('s, 'x, 'm) tester_api \<Rightarrow> ('s, 'x, 'm) ProcessorOption" where
  "WithTester t o' gg w =
     (let o' = o'\<lparr>po_storage := Some (ta_StorageBuilder t), po_producer := Some (ta_ProducerBuilder t),
            po_topicmgr := Some (ta_TopicManagerBuilder t), po_consumerGroup := Some (ta_ConsumerGroupBuilder t),
            po_consumerSarama := Some (ta_ConsumerBuilder t), po_partitionChannelSize := 0\<rparr>
      in go_bind (ta_RegisterGroupGraph t gg w) (\<lambda>(w, clientID). Ret (o'\<lparr>po_clientID := clientID\<rparr>, w)))"

text \<open>A builder that is still nil becomes the default.\<close>

definition or_default :: "'a option \<Rightarrow> 'a \<Rightarrow> 'a option" where
  "or_default b d = (case b of None \<Rightarrow> Some d | Some x \<Rightarrow> Some x)"

fun run_poptions ::
  "('s, 'x, 'm) ProcessorOption list \<Rightarrow> ('s, 'x, 'm) poptions \<Rightarrow> graph \<Rightarrow> 'x world \<Rightarrow>
   (('s, 'x, 'm) poptions \<times> 'x world) go" where
  "run_poptions [] opt gg w = Ret (opt, w)"
| "run_poptions (o' # opts) opt gg w = go_bind (o' opt gg w) (\<lambda>(opt, w). run_poptions opts opt gg w)"

definition poptions_applyOptions ::
  "sarama_api \<Rightarrow> graph \<Rightarrow> ('s, 'x, 'm) ProcessorOption list \<Rightarrow> ('s, 'x, 'm) poptions \<Rightarrow> 'x world \<Rightarrow>
   (('s, 'x, 'm) poptions result \<times> 'x world) go" where
  "poptions_applyOptions api gg opts opt w =
     go_bind (run_poptions opts (opt\<lparr>po_clientID := defaultClientID, po_log := Some DefaultLog,
         po_hasher := Some DefaultHasher, po_backoffResetTime := defaultBackoffRestTime\<rparr>) gg w) (\<lambda>(opt, w).
       Ret (if po_storage opt = None then Inl (Err ''StorageBuilder not set'')
            else if cf_Producer_RequiredAcks (w_globalConfig w) = NoResponse
            then Inl (Err ''Processors do not work with `Config.Producer.RequiredAcks==sarama.NoResponse`, as it uses the response's offset to store the value'')
            else Inr (opt\<lparr>po_producer := or_default (po_producer opt) (DefaultProducerBuilder api),
              po_topicmgr := or_default (po_topicmgr opt) (DefaultTopicManagerBuilder api),
              po_consumerGroup := or_default (po_consumerGroup opt) (DefaultConsumerGroupBuilder api),
              po_consumerSarama := or_default (po_consumerSarama opt) (DefaultSaramaConsumerBuilder api),
              po_backoff := or_default (po_backoff opt) DefaultBackoffBuilder\<rparr>), w))"

section \<open>View options\<close>

record ('s, 'x, 'm) voptions =
  vo_log :: "Logger option"
  vo_clientID :: string
  vo_tableCodec :: "Codec option"
  vo_updateCallback :: "'s UpdateCallback option"
  vo_hasher :: "hasher option"
  vo_autoreconnect :: bool
  vo_backoffResetTime :: int
  vo_storage :: "'s StorageBuilder option"
  vo_consumerSarama :: "('x, 'm) SaramaConsumerBuilder option"
  vo_topicmgr :: "('x, 'm) TopicManagerBuilder option"
  vo_backoff :: "BackoffBuilder option"

definition new_voptions :: "('s, 'x, 'm) voptions" where
  "new_voptions = \<lparr>vo_log = None, vo_clientID = '''', vo_tableCodec = None, vo_updateCallback = None, vo_hasher = None,
     vo_autoreconnect = False, vo_backoffResetTime = 0, vo_storage = None, vo_consumerSarama = None,
     vo_topicmgr = None, vo_backoff = None\<rparr>"

type_synonym ('s, 'x, 'm) ViewOption =
  "('s, 'x, 'm) voptions \<Rightarrow> string \<Rightarrow> Codec option \<Rightarrow> 'x world \<Rightarrow> (('s, 'x, 'm) voptions \<times> 'x world) go"

definition WithViewLogger :: "Logger \<Rightarrow> ('s, 'x, 'm) ViewOption" where
  "WithViewLogger l o' table codec w = Ret (o'\<lparr>vo_log := Some (as_logger l)\<rparr>, w)"

definition WithViewCallback :: "'s UpdateCallback \<Rightarrow> ('s, 'x, 'm) ViewOption" where
  "WithViewCallback cb o' table codec w = Ret (o'\<lparr>vo_updateCallback := Some cb\<rparr>, w)"

definition WithViewStorageBuilder :: "'s StorageBuilder option \<Rightarrow> ('s, 'x, 'm) ViewOption" where
  "WithViewStorageBuilder sb o' table codec w = Ret (o'\<lparr>vo_storage := sb\<rparr>, w)"

definition WithViewConsumerSaramaBuilder :: "('x, 'm) SaramaConsumerBuilder option \<Rightarrow> ('s, 'x, 'm) ViewOption" where
  "WithViewConsumerSaramaBuilder cgb o' table codec w = Ret (o'\<lparr>vo_consumerSarama := cgb\<rparr>, w)"

definition WithViewTopicManagerBuilder :: "('x, 'm) TopicManagerBuilder option \<Rightarrow> ('s, 'x, 'm) ViewOption" where
  "WithViewTopicManagerBuilder tmb o' table codec w = Ret (o'\<lparr>vo_topicmgr := tmb\<rparr>, w)"

definition WithViewBackoffBuilder :: "BackoffBuilder option \<Rightarrow> ('s, 'x, 'm) ViewOption" where
  "WithViewBackoffBuilder bb o' table codec w = Ret (o'\<lparr>vo_backoff := bb\<rparr>, w)"

definition WithViewHasher :: "hasher option \<Rightarrow> ('s, 'x, 'm) ViewOption" where
  "WithViewHasher hasher o' table codec w = Ret (o'\<lparr>vo_hasher := hasher\<rparr>, w)"

definition WithViewClientID :: "string \<Rightarrow> ('s, 'x, 'm) ViewOption" where
  "WithViewClientID clientID o' table codec w = Ret (o'\<lparr>vo_clientID := clientID\<rparr>, w)"

definition WithViewAutoReconnect :: "('s, 'x, 'm) ViewOption" where
  "WithViewAutoReconnect o' table codec w = Ret (o'\<lparr>vo_autoreconnect := True\<rparr>, w)"

definition WithViewRestartable :: "('s, 'x, 'm) ViewOption" where
  "WithViewRestartable = WithViewAutoReconnect"

definition WithViewBackoffResetTimeout :: "int \<Rightarrow> ('s, 'x, 'm) ViewOption" where
  "WithViewBackoffResetTimeout duration o' table codec w = Ret (o'\<lparr>vo_backoffResetTime := duration\<rparr>, w)"

definition WithViewTester :: "('s, 'x, 'm) tester_api \<Rightarrow> ('s, 'x, 'm) ViewOption" where
  "WithViewTester t o' table codec w =
     (let o' = o'\<lparr>vo_storage := Some (ta_StorageBuilder t), vo_topicmgr := Some (ta_TopicManagerBuilder t),
            vo_consumerSarama := Some (ta_ConsumerBuilder t)\<rparr>
      in go_bind (ta_RegisterView t table codec w) (\<lambda>(w, clientID). Ret (o'\<lparr>vo_clientID := clientID\<rparr>, w)))"

fun run_voptions ::
  "('s, 'x, 'm) ViewOption list \<Rightarrow> ('s, 'x, 'm) voptions \<Rightarrow> string \<Rightarrow> Codec option \<Rightarrow> 'x world \<Rightarrow>
   (('s, 'x, 'm) voptions \<times> 'x world) go" where
  "run_voptions [] opt topic codec w = Ret (opt, w)"
| "run_voptions (o' # opts) opt topic codec w =
     go_bind (o' opt topic codec w) (\<lambda>(opt, w). run_voptions opts opt topic codec w)"

definition voptions_applyOptions ::
  "sarama_api \<Rightarrow> string \<Rightarrow> Codec option \<Rightarrow> ('s, 'x, 'm) ViewOption list \<Rightarrow> ('s, 'x, 'm) voptions \<Rightarrow> 'x world \<Rightarrow>
   (('s, 'x, 'm) voptions result \<times> 'x world) go" where
  "voptions_applyOptions api topic codec opts opt w =
     go_bind (run_voptions opts (opt\<lparr>vo_clientID := defaultClientID, vo_log := Some DefaultLog,
         vo_hasher := Some DefaultHasher, vo_backoffResetTime := defaultBackoffRestTime\<rparr>) topic codec w) (\<lambda>(opt, w).
       Ret (if vo_storage opt = None then Inl (Err ''StorageBuilder not set'')
            else Inr (opt\<lparr>vo_consumerSarama := or_default (vo_consumerSarama opt) (DefaultSaramaConsumerBuilder api),
              vo_topicmgr := or_default (vo_topicmgr opt) (DefaultTopicManagerBuilder api),
              vo_backoff := or_default (vo_backoff opt) DefaultBackoffBuilder\<rparr>), w))"

section \<open>Emitter options\<close>

record ('x, 'm) eoptions =
  eo_log :: "Logger option"
  eo_clientID :: string
  eo_hasher :: "hasher option"
  eo_defaultHeaders :: Headers
  eo_topicmgr :: "('x, 'm) TopicManagerBuilder option"
  eo_producer :: "('x, 'm) ProducerBuilder option"

definition new_eoptions :: "('x, 'm) eoptions" where
  "new_eoptions = \<lparr>eo_log = None, eo_clientID = '''', eo_hasher = None, eo_defaultHeaders = None,
     eo_topicmgr = None, eo_producer = None\<rparr>"

type_synonym ('x, 'm) EmitterOption =
  "('x, 'm) eoptions \<Rightarrow> string \<Rightarrow> Codec option \<Rightarrow> 'x world \<Rightarrow> (('x, 'm) eoptions \<times> 'x world) go"

definition WithEmitterLogger :: "Logger \<Rightarrow> ('x, 'm) EmitterOption" where
  "WithEmitterLogger l o' topic codec w = Ret (o'\<lparr>eo_log := Some (as_logger l)\<rparr>, w)"

definition WithEmitterClientID :: "string \<Rightarrow> ('x, 'm) EmitterOption" where
  "WithEmitterClientID clientID o' topic codec w = Ret (o'\<lparr>eo_clientID := clientID\<rparr>, w)"

definition WithEmitterTopicManagerBuilder :: "('x, 'm) TopicManagerBuilder option \<Rightarrow> ('x, 'm) EmitterOption" where
  "WithEmitterTopicManagerBuilder tmb o' topic codec w = Ret (o'\<lparr>eo_topicmgr := tmb\<rparr>, w)"

definition WithEmitterProducerBuilder :: "('x, 'm) ProducerBuilder option \<Rightarrow> ('x, 'm) EmitterOption" where
  "WithEmitterProducerBuilder pb o' topic codec w = Ret (o'\<lparr>eo_producer := pb\<rparr>, w)"

definition WithEmitterHasher :: "hasher \<Rightarrow> ('x, 'm) EmitterOption" where
  "WithEmitterHasher hasher o' topic codec w = Ret (o'\<lparr>eo_hasher := Some hasher\<rparr>, w)"

definition WithEmitterTester :: "('s, 'x, 'm) tester_api \<Rightarrow> ('x, 'm) EmitterOption" where
  "WithEmitterTester t o' topic codec w =
     (let o' = o'\<lparr>eo_producer := Some (ta_EmitterProducerBuilder t), eo_topicmgr := Some (ta_TopicManagerBuilder t)\<rparr>
      in go_bind (ta_RegisterEmitter t topic codec w) (\<lambda>w. Ret (o', w)))"

definition WithEmitterDefaultHeaders :: "Headers \<Rightarrow> ('x, 'm) EmitterOption" where
  "WithEmitterDefaultHeaders hdr o' topic codec w = Ret (o'\<lparr>eo_defaultHeaders := hdr\<rparr>, w)"

fun run_eoptions ::
  "('x, 'm) EmitterOption list \<Rightarrow> ('x, 'm) eoptions \<Rightarrow> string \<Rightarrow> Codec option \<Rightarrow> 'x world \<Rightarrow>
   (('x, 'm) eoptions \<times> 'x world) go" where
  "run_eoptions [] opt topic codec w = Ret (opt, w)"
| "run_eoptions (o' # opts) opt topic codec w =
     go_bind (o' opt topic codec w) (\<lambda>(opt, w). run_eoptions opts opt topic codec w)"

definition eoptions_applyOptions ::
  "sarama_api \<Rightarrow> string \<Rightarrow> Codec option \<Rightarrow> ('x, 'm) EmitterOption list \<Rightarrow> ('x, 'm) eoptions \<Rightarrow> 'x world \<Rightarrow>
   (('x, 'm) eoptions \<times> 'x world) go" where
  "eoptions_applyOptions api topic codec opts opt w =
     go_bind (run_eoptions opts (opt\<lparr>eo_clientID := defaultClientID, eo_log := Some DefaultLog,
         eo_hasher := Some DefaultHasher\<rparr>) topic codec w) (\<lambda>(opt, w).
       Ret (opt\<lparr>eo_producer := or_default (eo_producer opt) (DefaultProducerBuilder api),
                eo_topicmgr := or_default (eo_topicmgr opt) (DefaultTopicManagerBuilder api)\<rparr>, w))"

section \<open>The constructors apply the options\<close>

text \<open>The default options come first, then those of the user. \<open>defaultBuilder\<close> stands for
  \<open>storage.DefaultBuilder\<close>, \<open>ops\<close> for the storage that \<open>DefaultUpdate\<close> writes to.\<close>

definition processor_options ::
  "'s storage_ops \<Rightarrow> (string \<Rightarrow> 's StorageBuilder) \<Rightarrow> graph \<Rightarrow> ('s, 'x, 'm) ProcessorOption list \<Rightarrow> ('s, 'x, 'm) ProcessorOption list" where
  "processor_options ops defaultBuilder gg options =
     [WithClientID (''goka-processor-'' @ gg_group gg),
      WithUpdateCallback (DefaultUpdate ops),
      WithPartitionChannelSize 10,
      WithStorageBuilder (Some (defaultBuilder (DefaultProcessorStoragePath (gg_group gg)))),
      WithRebalanceCallback DefaultRebalance] @ options"

definition view_options ::
  "'s storage_ops \<Rightarrow> (string \<Rightarrow> 's StorageBuilder) \<Rightarrow> string \<Rightarrow> ('s, 'x, 'm) ViewOption list \<Rightarrow> ('s, 'x, 'm) ViewOption list" where
  "view_options ops defaultBuilder topic options =
     [WithViewClientID (''goka-view-'' @ topic),
      WithViewCallback (DefaultUpdate ops),
      WithViewStorageBuilder (Some (defaultBuilder DefaultViewStoragePath))] @ options"

text \<open>The options with which a processor creates the view of a lookup table.\<close>

definition lookup_options :: "('s, 'x, 'm) poptions \<Rightarrow> ('s, 'x, 'm) ViewOption list" where
  "lookup_options opts =
     [WithViewLogger (the (po_log opts)),
      WithViewHasher (po_hasher opts),
      WithViewClientID (po_clientID opts),
      WithViewTopicManagerBuilder (po_topicmgr opts),
      WithViewStorageBuilder (po_storage opts),
      WithViewConsumerSaramaBuilder (po_consumerSarama opts)]"

text \<open>\<open>NewEmitter\<close> with its options: the producer that was built is returned beside the emitter.\<close>

definition NewEmitter_with ::
  "sarama_api \<Rightarrow> string list \<Rightarrow> string \<Rightarrow> Codec \<Rightarrow> ('x, 'm) EmitterOption list \<Rightarrow> 'x world \<Rightarrow>
   (('m kobj \<times> Emitter) result \<times> 'x world) go" where
  "NewEmitter_with api brokers topic codec options w =
     go_bind (eoptions_applyOptions api topic (Some codec)
         (WithEmitterClientID (''goka-emitter-'' @ topic) # options) new_eoptions w) (\<lambda>(opts, w).
       case (eo_producer opts, eo_hasher opts) of
         (Some builder, Some hasher) \<Rightarrow>
           go_bind (builder brokers (eo_clientID opts) hasher w) (\<lambda>(w, built).
             Ret (case built of
                 Inl err \<Rightarrow> Inl (Wrap ''error creating Kafka producer: %v'' err)
               | Inr pd \<Rightarrow> map_sum id (Pair pd) (NewEmitter (Inr \<lparr>pd_sent = [], pd_promises = [], pd_closed = False\<rparr>)
                   topic codec (eo_defaultHeaders opts)), w))
       | _ \<Rightarrow> nil_deref)"

section \<open>What the options keep\<close>

text \<open>An option keeps a field when it never changes it. Every option of the package keeps the fields it
  does not name.\<close>

definition pkeeps :: "(('s, 'x, 'm) poptions \<Rightarrow> 'f) \<Rightarrow> ('s, 'x, 'm) ProcessorOption \<Rightarrow> bool" where
  "pkeeps f opt \<longleftrightarrow> (\<forall>o' gg w o'' w'. opt o' gg w = Ret (o'', w') \<longrightarrow> f o'' = f o')"

definition ekeeps :: "(('x, 'm) eoptions \<Rightarrow> 'f) \<Rightarrow> ('x, 'm) EmitterOption \<Rightarrow> bool" where
  "ekeeps f opt \<longleftrightarrow> (\<forall>o' topic codec w o'' w'. opt o' topic codec w = Ret (o'', w') \<longrightarrow> f o'' = f o')"

lemmas processor_option_defs =
  WithUpdateCallback_def WithClientID_def WithStorageBuilder_def WithTopicManagerBuilder_def WithConsumerGroupBuilder_def
  WithConsumerSaramaBuilder_def WithProducerBuilder_def WithBackoffBuilder_def WithPartitionChannelSize_def WithLogger_def
  WithHotStandby_def WithRecoverAhead_def WithGroupGraphHook_def WithBackoffResetTimeout_def WithProducerDefaultHeaders_def
  WithNilHandling_def WithRebalanceCallback_def WithTester_def

lemmas emitter_option_defs =
  WithEmitterLogger_def WithEmitterClientID_def WithEmitterTopicManagerBuilder_def WithEmitterDefaultHeaders_def

lemma options_keep_hasher [simp]:
  "pkeeps po_hasher (WithUpdateCallback cb)" "pkeeps po_hasher (WithClientID c)" "pkeeps po_hasher (WithStorageBuilder sb)"
  "pkeeps po_hasher (WithTopicManagerBuilder tmb)" "pkeeps po_hasher (WithConsumerGroupBuilder cgb)"
  "pkeeps po_hasher (WithConsumerSaramaBuilder scb)" "pkeeps po_hasher (WithProducerBuilder pb)"
  "pkeeps po_hasher (WithBackoffBuilder bb)" "pkeeps po_hasher (WithPartitionChannelSize n)" "pkeeps po_hasher (WithLogger l)"
  "pkeeps po_hasher WithHotStandby" "pkeeps po_hasher WithRecoverAhead" "pkeeps po_hasher (WithGroupGraphHook hook)"
  "pkeeps po_hasher (WithBackoffResetTimeout d)" "pkeeps po_hasher (WithProducerDefaultHeaders hdr)"
  "pkeeps po_hasher (WithNilHandling nh)" "pkeeps po_hasher (WithRebalanceCallback rcb)" "pkeeps po_hasher (WithTester t)"
  by (auto simp: pkeeps_def processor_option_defs Let_def go_bind_eq_Ret)

lemma options_keep_producer [simp]:
  "ekeeps eo_hasher (WithEmitterLogger l)" "ekeeps eo_producer (WithEmitterLogger l)"
  "ekeeps eo_hasher (WithEmitterClientID c)" "ekeeps eo_producer (WithEmitterClientID c)"
  "ekeeps eo_hasher (WithEmitterTopicManagerBuilder tmb)" "ekeeps eo_producer (WithEmitterTopicManagerBuilder tmb)"
  "ekeeps eo_hasher (WithEmitterDefaultHeaders hdr)" "ekeeps eo_producer (WithEmitterDefaultHeaders hdr)"
  by (auto simp: ekeeps_def emitter_option_defs)

lemma run_poptions_keeps:
  "\<forall>o' \<in> set opts. pkeeps f o' \<Longrightarrow> run_poptions opts opt gg w = Ret (opt', w') \<Longrightarrow> f opt' = f opt"
proof (induction opts arbitrary: opt w)
  case (Cons o' opts)
  then obtain p v where "o' opt gg w = Ret (p, v)" "run_poptions opts p gg v = Ret (opt', w')"
    by (auto simp: go_bind_eq_Ret)
  with Cons show ?case unfolding pkeeps_def by (metis list.set_intros(1,2))
qed simp

lemma run_eoptions_keeps:
  "\<forall>o' \<in> set opts. ekeeps f o' \<Longrightarrow> run_eoptions opts opt topic codec w = Ret (opt', w') \<Longrightarrow> f opt' = f opt"
proof (induction opts arbitrary: opt w)
  case (Cons o' opts)
  then obtain p v where "o' opt topic codec w = Ret (p, v)" "run_eoptions opts p topic codec v = Ret (opt', w')"
    by (auto simp: go_bind_eq_Ret)
  with Cons show ?case unfolding ekeeps_def by (metis list.set_intros(1,2))
qed simp

section \<open>Complete options\<close>

lemma or_default_ne [simp]: "or_default b d \<noteq> None" "or_default (Some x) d = Some x" "or_default None d = Some d"
  by (simp_all add: or_default_def split: option.splits)

lemma processor_hasher:
  assumes "poptions_applyOptions api gg (processor_options ops db gg pos) new_poptions w = Ret (Inr po, w')"
    and "\<forall>o' \<in> set pos. pkeeps po_hasher o'"
  shows "po_hasher po = Some DefaultHasher"
proof -
  obtain opt where "run_poptions (processor_options ops db gg pos) (new_poptions\<lparr>po_clientID := defaultClientID,
      po_log := Some DefaultLog, po_hasher := Some DefaultHasher, po_backoffResetTime := defaultBackoffRestTime\<rparr>) gg w = Ret (opt, w')"
    and "po_hasher po = po_hasher opt"
    using assms(1) by (auto simp: poptions_applyOptions_def go_bind_eq_Ret split: if_splits)
  with run_poptions_keeps [OF _ this(1), of po_hasher] assms(2) show ?thesis by (simp add: processor_options_def)
qed

text \<open>The options of a processor are complete or an error. Applying options never leaves a builder unset:
  it fails exactly when the options leave no storage builder or the global configuration asks for no
  acknowledgements, and otherwise storage, producer, topic manager, consumer group, consumer and
  backoff are set: those of the options where they set one, the default ones elsewhere.\<close>

lemma processor_options_complete:
  assumes "run_poptions opts (opt\<lparr>po_clientID := defaultClientID, po_log := Some DefaultLog,
      po_hasher := Some DefaultHasher, po_backoffResetTime := defaultBackoffRestTime\<rparr>) gg w = Ret (o1, w1)"
  shows "\<exists>r. poptions_applyOptions api gg opts opt w = Ret (r, w1) \<and>
    ((\<exists>err. r = Inl err) \<longleftrightarrow> po_storage o1 = None \<or> cf_Producer_RequiredAcks (w_globalConfig w1) = NoResponse) \<and>
    (\<forall>po. r = Inr po \<longrightarrow> po_storage po = po_storage o1 \<and> po_storage po \<noteq> None \<and> po_hasher po = po_hasher o1 \<and>
       (\<forall>pb. po_producer po = Some pb \<longleftrightarrow> po_producer o1 = Some pb \<or> po_producer o1 = None \<and> pb = DefaultProducerBuilder api) \<and>
       (\<forall>tb. po_topicmgr po = Some tb \<longleftrightarrow> po_topicmgr o1 = Some tb \<or> po_topicmgr o1 = None \<and> tb = DefaultTopicManagerBuilder api) \<and>
       (\<forall>cb. po_consumerGroup po = Some cb \<longleftrightarrow>
          po_consumerGroup o1 = Some cb \<or> po_consumerGroup o1 = None \<and> cb = DefaultConsumerGroupBuilder api) \<and>
       (\<forall>sb. po_consumerSarama po = Some sb \<longleftrightarrow>
          po_consumerSarama o1 = Some sb \<or> po_consumerSarama o1 = None \<and> sb = DefaultSaramaConsumerBuilder api) \<and>
       (\<forall>bb. po_backoff po = Some bb \<longleftrightarrow> po_backoff o1 = Some bb \<or> po_backoff o1 = None \<and> bb = DefaultBackoffBuilder))"
proof -
  have d: "or_default b x = Some y \<longleftrightarrow> b = Some y \<or> b = None \<and> y = x" for b :: "'z option" and x y
    by (auto simp: or_default_def split: option.splits)
  show ?thesis using assms by (auto simp: poptions_applyOptions_def d)
qed

section \<open>Emitters, processors and views agree on the partitions\<close>

lemma lookup_hasher:
  assumes "voptions_applyOptions api t c (view_options ops db t (lookup_options po)) new_voptions w = Ret (Inr vo, w')"
  shows "vo_hasher vo = po_hasher po" and "vo_storage vo = po_storage po" and "vo_clientID vo = po_clientID po"
  using assms by (auto simp: voptions_applyOptions_def view_options_def lookup_options_def WithViewLogger_def
      WithViewCallback_def WithViewStorageBuilder_def WithViewConsumerSaramaBuilder_def WithViewTopicManagerBuilder_def
      WithViewHasher_def WithViewClientID_def split: if_splits)

lemma NewEmitter_with_built:
  assumes "NewEmitter_with api brokers topic codec eos w = Ret (Inr (obj, e), w')"
    and "eoptions_applyOptions api topic (Some codec) (WithEmitterClientID (''goka-emitter-'' @ topic) # eos) new_eoptions w = Ret (opts, w1)"
    and "eo_producer opts = Some builder" and "eo_hasher opts = Some hasher"
  shows "builder brokers (eo_clientID opts) hasher w1 = Ret (w', Inr obj)"
proof -
  obtain w2 built where b: "builder brokers (eo_clientID opts) hasher w1 = Ret (w2, built)"
    using assms unfolding NewEmitter_with_def by (cases "builder brokers (eo_clientID opts) hasher w1") auto
  then show ?thesis using assms unfolding NewEmitter_with_def by (cases built) (auto simp: NewEmitter_def)
qed

lemma emitter_producer:
  assumes "NewEmitter_with api brokers topic codec eos w = Ret (Inr (obj, e), w')"
    and "\<forall>o' \<in> set eos. ekeeps eo_hasher o' \<and> ekeeps eo_producer o'"
  shows "\<exists>p. obj = SaramaProducer brokers p \<and> p < length (w_configs w') \<and>
    cf_Producer_Partitioner (w_configs w' ! p) = CustomHash DefaultHasher"
proof -
  let ?o = "new_eoptions\<lparr>eo_clientID := defaultClientID, eo_log := Some DefaultLog, eo_hasher := Some DefaultHasher\<rparr>"
  let ?opts = "WithEmitterClientID (''goka-emitter-'' @ topic) # eos"
  obtain opt w1 where r: "run_eoptions ?opts ?o topic (Some codec) w = Ret (opt, w1)"
    using assms(1) by (auto simp: NewEmitter_with_def eoptions_applyOptions_def go_bind_eq_Ret)
  have "\<forall>o' \<in> set ?opts. ekeeps eo_hasher o'" and "\<forall>o' \<in> set ?opts. ekeeps eo_producer o'" using assms(2) by auto
  with run_eoptions_keeps [OF _ r] have h: "eo_hasher opt = Some DefaultHasher" "eo_producer opt = None"
    by (fastforce simp: new_eoptions_def)+
  have "eoptions_applyOptions api topic (Some codec) ?opts new_eoptions w =
      Ret (opt\<lparr>eo_producer := Some (DefaultProducerBuilder api),
        eo_topicmgr := or_default (eo_topicmgr opt) (DefaultTopicManagerBuilder api)\<rparr>, w1)"
    using r h(2) by (simp add: eoptions_applyOptions_def)
  from NewEmitter_with_built [OF assms(1) this] h(1)
  have b: "DefaultProducerBuilder api brokers (eo_clientID opt) DefaultHasher w1 = Ret (w', Inr obj)" by simp
  then obtain p where "obj = SaramaProducer brokers p"
    by (auto simp: DefaultProducerBuilder_def NewProducer_def alloc_config_def split: option.splits)
  with default_producer_fresh [OF b] show ?thesis by (auto simp: nth_append)
qed

text \<open>C38: an emitted key is found. An emitter with the default producer, a processor and the lookup views of
  that processor, none of whose options replaces the hasher, use one hash: for the same number of
  partitions, the partition to which the emitter's producer sends a key is the partition in which the
  processor and the view look it up. The hypothesis on sarama's partitioner is what it documents: the
  hash modulo the number of partitions; the one sum 0x80000000 is excluded.\<close>

theorem emitted_key_found:
  assumes po: "poptions_applyOptions api gg (processor_options ops db gg pos) new_poptions w0 = Ret (Inr po, w1)"
    and vo: "voptions_applyOptions api t c (view_options ops db t (lookup_options po)) new_voptions w2 = Ret (Inr vo, w3)"
    and em: "NewEmitter_with api brokers topic codec eos w4 = Ret (Inr (SaramaProducer b p, e), w5)"
    and opts: "\<forall>o' \<in> set pos. pkeeps po_hasher o'" "\<forall>o' \<in> set eos. ekeeps eo_hasher o' \<and> ekeeps eo_producer o'"
    and sarama: "\<And>h k x m. h k = Inr x \<Longrightarrow> 0 < m \<Longrightarrow> pick (CustomHash h) m k = \<bar>sint x\<bar> mod m"
    and n: "0 < n" "n < 2 ^ 31" "pr_partitionCount g = n" "int (length (vw_partitions v)) = n"
    and key: "fnv32a key \<noteq> 0x80000000"
  shows "\<exists>hp hv. po_hasher po = Some hp \<and> vo_hasher vo = Some hv \<and>
    pr_hash hp g key = Ret (Inr (pick (cf_Producer_Partitioner (w_configs w5 ! p)) n key)) \<and>
    View_hash hv v key = Ret (Inr (pick (cf_Producer_Partitioner (w_configs w5 ! p)) n key))"
proof -
  have h: "po_hasher po = Some DefaultHasher" "vo_hasher vo = Some DefaultHasher"
    using processor_hasher [OF po opts(1)] lookup_hasher(1) [OF vo] by simp_all
  have d: "DefaultHasher key = Inr (fnv32a key)" by (simp add: DefaultHasher_def)
  have "pick (cf_Producer_Partitioner (w_configs w5 ! p)) n key = \<bar>sint (fnv32a key)\<bar> mod n"
    using emitter_producer [OF em opts(2)] sarama [of DefaultHasher, OF d n(1)] by auto
  with h hash_partition_ok(1) [of DefaultHasher, OF d key n(1,2)] n(3,4) show ?thesis by (simp add: pr_hash_def View_hash_def)
qed

section \<open>Samples\<close>

definition sample_pick :: "partitioner \<Rightarrow> int \<Rightarrow> string \<Rightarrow> int" where
  "sample_pick p n key = (case p of
      CustomHash h \<Rightarrow> (case h key of Inl e \<Rightarrow> 0 | Inr x \<Rightarrow> \<bar>sint x\<bar> mod n)
    | SaramaPartitioner k \<Rightarrow> 0)"

theorem emitted_key_found_witness:
  "\<exists>(po :: (memory, unit, unit) poptions) w1 (vo :: (memory, unit, unit) voptions) w3 p e w5 hp hv.
     poptions_applyOptions sample_api sample_group (processor_options memory_ops (\<lambda>path. MemoryBuilder) sample_group
       [WithHotStandby, WithClientID ''c'']) new_poptions (sample_world ()) = Ret (Inr po, w1) \<and>
     voptions_applyOptions sample_api ''t'' (Some StringCodec) (view_options memory_ops (\<lambda>path. MemoryBuilder) ''t'' (lookup_options po))
       new_voptions (sample_world ()) = Ret (Inr vo, w3) \<and>
     NewEmitter_with sample_api [] ''in'' StringCodec [WithEmitterClientID ''e''] (sample_world ()) =
       Ret (Inr (SaramaProducer [] p :: unit kobj, e), w5) \<and>
     po_hasher po = Some hp \<and> vo_hasher vo = Some hv \<and>
     pr_hash hp sample_proc ''a'' = Ret (Inr (sample_pick (cf_Producer_Partitioner (w_configs w5 ! p)) 3 ''a''))"
proof -
  let ?po = "poptions_applyOptions sample_api sample_group (processor_options memory_ops (\<lambda>path. MemoryBuilder) sample_group
      [WithHotStandby, WithClientID ''c'']) new_poptions (sample_world ()) :: ((memory, unit, unit) poptions result \<times> unit world) go"
  obtain po w1 where po: "?po = Ret (Inr po, w1)"
    by (simp add: poptions_applyOptions_def processor_options_def processor_option_defs sample_world_def sample_config_def
        DefaultConfig_def NoResponse_def WaitForLocal_def)
  let ?vo = "voptions_applyOptions sample_api ''t'' (Some StringCodec) (view_options memory_ops (\<lambda>path. MemoryBuilder) ''t'' (lookup_options po))
      new_voptions (sample_world ()) :: ((memory, unit, unit) voptions result \<times> unit world) go"
  have "po_storage po \<noteq> None"
    using po by (auto simp: poptions_applyOptions_def go_bind_eq_Ret split: if_splits)
  then obtain vo w3 where vo: "?vo = Ret (Inr vo, w3)"
    by (auto simp: voptions_applyOptions_def view_options_def lookup_options_def WithViewLogger_def WithViewCallback_def
        WithViewStorageBuilder_def WithViewConsumerSaramaBuilder_def WithViewTopicManagerBuilder_def WithViewHasher_def WithViewClientID_def)
  let ?em = "NewEmitter_with sample_api [] ''in'' StringCodec [WithEmitterClientID ''e''] (sample_world ())"
  obtain e p w5 where em: "?em = Ret (Inr (SaramaProducer [] p :: unit kobj, e), w5)"
    by (simp add: NewEmitter_with_def eoptions_applyOptions_def WithEmitterClientID_def new_eoptions_def NewEmitter_def
        DefaultProducerBuilder_def NewProducer_def alloc_config_def sample_api_def sample_world_def)
  define v where "v = sample_view"
  have n: "pr_partitionCount sample_proc = 3" and k: "fnv32a ''a'' \<noteq> 0x80000000" by code_simp+
  have s: "sample_pick (CustomHash h) m k = \<bar>sint x\<bar> mod m" if "h k = Inr x" "0 < m" for h k x m
    using that by (simp add: sample_pick_def)
  have "\<exists>hp hv. po_hasher po = Some hp \<and> vo_hasher vo = Some hv \<and>
      pr_hash hp sample_proc ''a'' = Ret (Inr (sample_pick (cf_Producer_Partitioner (w_configs w5 ! p)) 3 ''a'')) \<and>
      View_hash hv v ''a'' = Ret (Inr (sample_pick (cf_Producer_Partitioner (w_configs w5 ! p)) 3 ''a''))"
    by (rule emitted_key_found [OF po vo em]) (simp_all add: s n k v_def sample_view_def)
  with po vo em show ?thesis by blast
qed

end
