(* ===== verification/Goka_Tester_Run.thy ===== *)
theory Goka_Tester_Run
  imports Goka_Tester
begin

text \<open>
  How the tester runs its clients: the mocked consumer group (\<open>tester/consumergroup.go\<close>), the clients
  (\<open>tester/client.go\<close>), and the loops that wait for them (\<open>tester/tester.go\<close>, \<open>tester/consumer.go\<close>).

  \<^item> The handler that \<open>Consume\<close> calls is an interface, a record of functions on its state; the processor of
    \<open>Goka_Processor\<close> is one. The claims of a session run one after the other: they only share the channel
    of the errors, which the processor reads, so that sending to it does not block.
  \<^item> A call that waits has the result \<open>None\<close> as long as it cannot go on. The loop of \<open>waitForClients\<close> is a
    partial function: \<open>None\<close> would mean that it never ends.
\<close>

section \<open>The consumer group\<close>

definition cgStateStopped :: int where "cgStateStopped = 0"
definition cgStateRebalancing :: int where "cgStateRebalancing = 1"
definition cgStateSetup :: int where "cgStateSetup = 2"
definition cgStateConsuming :: int where "cgStateConsuming = 3"
definition cgStateCleaning :: int where "cgStateCleaning = 4"

record consumerGroup =
  cg_errs :: "gerr list"
  cg_offset :: int
  cg_currentGeneration :: int
  cg_state :: Signal
  cg_currentSession :: "cgSession option"

definition newConsumerGroup :: "consumerGroup go" where
  "newConsumerGroup =
     go_bind (Signal_SetState (\<lambda>_. True) cgStateStopped
       (NewSignal [cgStateStopped, cgStateRebalancing, cgStateSetup, cgStateConsuming, cgStateCleaning])) (\<lambda>state.
     Ret \<lparr>cg_errs = [], cg_offset = 0, cg_currentGeneration = 0, cg_state = state, cg_currentSession = None\<rparr>)"

record 'h cg_handler =
  hd_Setup :: "cgSession \<Rightarrow> 'h \<Rightarrow> ('h \<times> gerr option) option go"
  hd_ConsumeClaim :: "cgSession \<Rightarrow> string \<Rightarrow> 'h \<Rightarrow> 'h \<times> gerr option"
  hd_Cleanup :: "cgSession \<Rightarrow> 'h \<Rightarrow> ('h \<times> gerr option) go"

definition cg_SetState :: "int \<Rightarrow> consumerGroup \<Rightarrow> consumerGroup go" where
  "cg_SetState st cg = go_bind (Signal_SetState (\<lambda>_. True) st (cg_state cg)) (\<lambda>s. Ret (cg\<lparr>cg_state := s\<rparr>))"

definition cg_SendError :: "gerr \<Rightarrow> consumerGroup \<Rightarrow> consumerGroup" where
  "cg_SendError err cg = cg\<lparr>cg_errs := cg_errs cg @ [err]\<rparr>"

fun cg_claims :: "'h cg_handler \<Rightarrow> cgSession \<Rightarrow> string list \<Rightarrow> consumerGroup \<Rightarrow> 'h \<Rightarrow> consumerGroup \<times> 'h" where
  "cg_claims handler session [] cg h = (cg, h)"
| "cg_claims handler session (claim # claims) cg h =
     (case hd_ConsumeClaim handler session claim h of
        (h, e) \<Rightarrow> cg_claims handler session claims (case e of None \<Rightarrow> cg | Some err \<Rightarrow> cg_SendError err cg) h)"

text \<open>Catching up, with what the session does as a parameter.\<close>

definition cg_catchupAndWait :: "(cgSession \<Rightarrow> 't \<Rightarrow> ('t \<times> nat) go) \<Rightarrow> consumerGroup \<Rightarrow> 't \<Rightarrow> ('t \<times> nat) go" where
  "cg_catchupAndWait catchup cg t =
     (case cg_currentSession cg of
        None \<Rightarrow> Panic ''There is currently no session. Cannot catchup, but we shouldn't be at this point''
      | Some session \<Rightarrow> catchup session t)"

text \<open>One generation of \<open>Consume\<close>; \<open>ctxDone\<close> says whether the context ends while it is running: the
  goroutines of the group return no error, so only then are the claims closed and \<open>Wait\<close> returns.\<close>

definition cg_generation ::
  "'h cg_handler \<Rightarrow> string list \<Rightarrow> bool \<Rightarrow> consumerGroup \<Rightarrow> 'h \<Rightarrow> (consumerGroup \<times> 'h \<times> gerr option) option go" where
  "cg_generation handler topics ctxDone cg h =
     go_bind (cg_SetState cgStateRebalancing cg) (\<lambda>cg.
     let generation = wrap32 (cg_currentGeneration cg + 1);
         session = newCgSession generation topics;
         cg = cg\<lparr>cg_currentGeneration := generation, cg_currentSession := Some session\<rparr>
     in go_bind (cg_SetState cgStateSetup cg) (\<lambda>cg.
        go_bind (hd_Setup handler session h) (\<lambda>r.
          case r of
            None \<Rightarrow> Ret None
          | Some (h, Some err) \<Rightarrow> Ret (Some (cg, h, Some (Wrap ''Error setting up: %v'' err)))
          | Some (h, None) \<Rightarrow>
              go_bind (cg_SetState cgStateConsuming cg) (\<lambda>cg.
                if \<not> ctxDone then Ret None
                else case cg_claims handler session (cgs_claims session) cg h of (cg, h) \<Rightarrow>
                  go_bind (cg_SetState cgStateCleaning cg) (\<lambda>cg.
                  go_bind (hd_Cleanup handler session h) (\<lambda>(h, e).
                    Ret (Some (cg\<lparr>cg_currentSession := None\<rparr>, h, map_option (Wrap ''Error running or cleaning: %v'')
                      (Errors_NilOrError (Errors_Collect newErrors e))))))))))"

text \<open>The loop, with the deferred call that sets the state when the function returns.\<close>

fun cg_loop ::
  "'h cg_handler \<Rightarrow> string list \<Rightarrow> bool list \<Rightarrow> consumerGroup \<Rightarrow> 'h \<Rightarrow> (consumerGroup \<times> 'h \<times> gerr option) option go" where
  "cg_loop handler topics [] cg h = Ret None"
| "cg_loop handler topics (ctxDone # rest) cg h =
     go_bind (cg_generation handler topics ctxDone cg h) (\<lambda>r.
       case r of
         None \<Rightarrow> Ret None
       | Some (cg, h, e) \<Rightarrow>
           if e \<noteq> None \<or> ctxDone then go_bind (cg_SetState cgStateStopped cg) (\<lambda>cg. Ret (Some (cg, h, e)))
           else cg_loop handler topics rest cg h)"

definition cg_Consume ::
  "'h cg_handler \<Rightarrow> string list \<Rightarrow> bool list \<Rightarrow> consumerGroup \<Rightarrow> 'h \<Rightarrow> (consumerGroup \<times> 'h \<times> gerr option) option go" where
  "cg_Consume handler topics ctxDones cg h =
     (if \<not> Signal_IsState (cg_state cg) cgStateStopped
      then Ret (Some (cg, h, Some (Err ''Tried to double-consume this consumer-group, which is not supported by the mock'')))
      else if topics = [] then Ret (Some (cg, h, Some (Err ''no topics specified'')))
      else cg_loop handler topics ctxDones cg h)"

definition cg_nextOffset :: "consumerGroup \<Rightarrow> consumerGroup \<times> int" where
  "cg_nextOffset cg = (let n = wrap64 (cg_offset cg + 1) in (cg\<lparr>cg_offset := n\<rparr>, n))"

definition cg_Close :: "consumerGroup \<Rightarrow> consumerGroup" where
  "cg_Close cg = cg\<lparr>cg_errs := [], cg_offset := 0, cg_currentGeneration := 0\<rparr>"

section \<open>Clients\<close>

text \<open>The conditions the clients wait for before they count as started.\<close>

definition client_waitStartup :: "consumerGroup option \<Rightarrow> client \<Rightarrow> bool" where
  "client_waitStartup cg cl \<longleftrightarrow>
     (case cg of None \<Rightarrow> True | Some cg \<Rightarrow> Signal_IsState (cg_state cg) cgStateConsuming) \<and> cm_doCheck (tc_consumer cl)"

fun cm_catchup ::
  "(string \<Rightarrow> queue) \<Rightarrow> (string \<times> partConsumerMock) list \<Rightarrow>
   ((string \<times> partConsumerMock) list \<times> (string \<times> ConsumerMessage option list) list \<times> nat) go" where
  "cm_catchup queues [] = Ret ([], [], 0)"
| "cm_catchup queues ((topic, pc) # pcs) =
     go_bind (pcm_catchup (queues (pcm_queue pc)) pc) (\<lambda>(pc, sent, n).
     go_bind (cm_catchup queues pcs) (\<lambda>(pcs, sents, ns). Ret ((topic, pc) # pcs, (topic, sent) # sents, n + ns)))"

text \<open>A round of \<open>waitForClients\<close>: all the clients catch up. The state carries what each consumer has been sent.\<close>

record tester_run =
  tr_tester :: Tester
  tr_sent :: "(string \<times> string) \<Rightarrow> ConsumerMessage option list"

definition add_sent ::
  "string \<Rightarrow> (string \<times> ConsumerMessage option list) list \<Rightarrow> ((string \<times> string) \<Rightarrow> ConsumerMessage option list) \<Rightarrow>
   (string \<times> string) \<Rightarrow> ConsumerMessage option list" where
  "add_sent cid sents f = fold (\<lambda>(topic, sent) f. f((cid, topic) := f (cid, topic) @ sent)) sents f"

text \<open>Catching up of a client. \<open>group\<close> is what the consumer group of a client does while it catches up,
  with the processor behind it, which may emit to any queue (\<open>catchup_step\<close> are its steps): it is only
  called for a client that has a consumer group.\<close>

definition client_catchup ::
  "(string \<Rightarrow> tester_run \<Rightarrow> (tester_run \<times> nat) go) \<Rightarrow> string \<Rightarrow> client \<Rightarrow> tester_run \<Rightarrow> (tester_run \<times> nat) go" where
  "client_catchup group' cid cl t =
     go_bind (if tc_consumerGroup cl then group' cid t else Ret (t, 0)) (\<lambda>(t, n).
     let cl = (case map_of (tt_clients (tr_tester t)) cid of None \<Rightarrow> cl | Some cl \<Rightarrow> cl)
     in go_bind (cm_catchup (tt_queue (tr_tester t)) (cm_partConsumers (tc_consumer cl))) (\<lambda>(pcs, sents, m).
        Ret (\<lparr>tr_tester = (tr_tester t)\<lparr>tt_clients :=
                 map_put cid (cl\<lparr>tc_consumer := (tc_consumer cl)\<lparr>cm_partConsumers := pcs\<rparr>\<rparr>) (tt_clients (tr_tester t))\<rparr>,
              tr_sent = add_sent cid sents (tr_sent t)\<rparr>, n + m)))"

fun catchup_clients ::
  "(string \<Rightarrow> tester_run \<Rightarrow> (tester_run \<times> nat) go) \<Rightarrow> string list \<Rightarrow> tester_run \<Rightarrow> (tester_run \<times> nat) go" where
  "catchup_clients group' [] t = Ret (t, 0)"
| "catchup_clients group' (cid # cids) t =
     (case map_of (tt_clients (tr_tester t)) cid of
        None \<Rightarrow> catchup_clients group' cids t
      | Some cl \<Rightarrow>
          go_bind (client_catchup group' cid cl t) (\<lambda>(t, n).
          go_bind (catchup_clients group' cids t) (\<lambda>(t, m). Ret (t, n + m))))"

partial_function (option) waitForClients ::
  "(tester_run \<Rightarrow> (tester_run \<times> nat) go) \<Rightarrow> tester_run \<Rightarrow> tester_run go option" where
  "waitForClients catchup t =
     (case catchup t of
        Panic m \<Rightarrow> Some (Panic m)
      | Ret (t, totalCatchup) \<Rightarrow> if totalCatchup = 0 then Some (Ret t) else waitForClients catchup t)"

definition tt_round :: "(string \<Rightarrow> tester_run \<Rightarrow> (tester_run \<times> nat) go) \<Rightarrow> tester_run \<Rightarrow> (tester_run \<times> nat) go" where
  "tt_round group' t = catchup_clients group' (map fst (tt_clients (tr_tester t))) t"

definition tt_waitStartup :: "(string \<Rightarrow> consumerGroup option) \<Rightarrow> Tester \<Rightarrow> bool" where
  "tt_waitStartup groups tt \<longleftrightarrow> (\<forall>(cid, cl) \<in> set (tt_clients tt). client_waitStartup (groups cid) cl)"

definition tt_Catchup ::
  "(string \<Rightarrow> consumerGroup option) \<Rightarrow> (string \<Rightarrow> tester_run \<Rightarrow> (tester_run \<times> nat) go) \<Rightarrow> tester_run \<Rightarrow> tester_run go option" where
  "tt_Catchup groups group' t =
     (if tt_waitStartup groups (tr_tester t) then waitForClients (tt_round group') t else None)"

text \<open>The producer of an emitter flushes: it waits for the clients after every message.\<close>

definition flushing_EmitWithHeaders ::
  "(string \<Rightarrow> tester_run \<Rightarrow> (tester_run \<times> nat) go) \<Rightarrow> string \<Rightarrow> string \<Rightarrow> slice \<Rightarrow> Headers \<Rightarrow> tester_run \<Rightarrow> (tester_run \<times> int) go option" where
  "flushing_EmitWithHeaders group' topic key val header t =
     (case mock_EmitWithHeaders topic key val header (tr_tester t) of
        (tt, offset) \<Rightarrow> map_option (\<lambda>r. go_bind r (\<lambda>t. Ret (t, offset)))
          (waitForClients (tt_round group') (t\<lparr>tr_tester := tt\<rparr>)))"

definition flushing_Emit ::
  "(string \<Rightarrow> tester_run \<Rightarrow> (tester_run \<times> nat) go) \<Rightarrow> string \<Rightarrow> string \<Rightarrow> slice \<Rightarrow> tester_run \<Rightarrow> (tester_run \<times> int) go option" where
  "flushing_Emit group' topic key val t =
     (case mock_Emit topic key val (tr_tester t) of
        (tt, offset) \<Rightarrow> map_option (\<lambda>r. go_bind r (\<lambda>t. Ret (t, offset)))
          (waitForClients (tt_round group') (t\<lparr>tr_tester := tt\<rparr>)))"

section \<open>A session ends with the context\<close>

definition cg_ok :: "consumerGroup \<Rightarrow> bool" where
  "cg_ok cg \<longleftrightarrow> sig_inv (cg_state cg) \<and>
     sig_allowedStates (cg_state cg) = [cgStateStopped, cgStateRebalancing, cgStateSetup, cgStateConsuming, cgStateCleaning]"

lemma cg_SetState_ok:
  assumes "cg_ok cg" and "st \<in> {0..4}"
  shows "\<exists>s. cg_SetState st cg = Ret (cg\<lparr>cg_state := s\<rparr>) \<and> cg_ok (cg\<lparr>cg_state := s\<rparr>) \<and> sig_state s = st"
proof -
  have st: "st \<in> set (sig_allowedStates (cg_state cg))"
    using assms by (auto simp: cg_ok_def cgStateStopped_def cgStateRebalancing_def cgStateSetup_def cgStateConsuming_def
        cgStateCleaning_def)
  then obtain s where s: "Signal_SetState (\<lambda>_. True) st (cg_state cg) = Ret s"
    using SetState_Ret assms(1) unfolding cg_ok_def by blast
  have "sig_state s = st \<and> sig_allowedStates s = sig_allowedStates (cg_state cg)"
    using s SetState_eq [of "cg_state cg" st "\<lambda>_. True"] assms(1) st
    by (cases "sig_state (cg_state cg) = st") (auto simp: cg_ok_def Signal_SetState_def Let_def)
  with s assms(1) sig_inv_SetState [OF _ s] show ?thesis by (auto simp: cg_ok_def cg_SetState_def)
qed

lemma cg_SetState_Ret:
  assumes "cg_SetState st cg = Ret cg'" and "cg_ok cg" and "st \<in> {0..4}"
  shows "cg_ok cg' \<and> sig_state (cg_state cg') = st \<and> cg_currentGeneration cg' = cg_currentGeneration cg \<and>
    cg_currentSession cg' = cg_currentSession cg"
  using cg_SetState_ok [OF assms(2,3)] assms(1) by auto

lemma cg_ok_update [simp]:
  "cg_ok (cg_currentGeneration_update f cg) = cg_ok cg" "cg_ok (cg_currentSession_update g cg) = cg_ok cg"
  "cg_ok (cg_errs_update k cg) = cg_ok cg"
  by (simp_all add: cg_ok_def)

lemma cg_claims_keeps:
  "cg_claims handler session claims cg h = (cg', h') \<Longrightarrow>
   cg_ok cg' = cg_ok cg \<and> cg_currentGeneration cg' = cg_currentGeneration cg"
  by (induction handler session claims cg h rule: cg_claims.induct)
    (auto simp: cg_SendError_def split: prod.splits option.splits)

lemma cg_states:
  "cgStateStopped \<in> {0..4}" "cgStateRebalancing \<in> {0..4}" "cgStateSetup \<in> {0..4}" "cgStateConsuming \<in> {0..4}"
  "cgStateCleaning \<in> {0..4}"
  by (simp_all add: cgStateStopped_def cgStateRebalancing_def cgStateSetup_def cgStateConsuming_def cgStateCleaning_def)

lemma cg_generation_ok:
  assumes "cg_generation handler topics ctxDone cg h = Ret (Some (cg', h', e))" and "cg_ok cg"
  shows "cg_ok cg' \<and> cg_currentGeneration cg' = wrap32 (cg_currentGeneration cg + 1) \<and> (e = None \<longrightarrow> ctxDone)"
proof -
  obtain c1 c2 r where c1: "cg_SetState cgStateRebalancing cg = Ret c1"
    and c2: "cg_SetState cgStateSetup (c1\<lparr>cg_currentGeneration := wrap32 (cg_currentGeneration c1 + 1),
        cg_currentSession := Some (newCgSession (wrap32 (cg_currentGeneration c1 + 1)) topics)\<rparr>) = Ret c2"
    and r: "(case r of
        None \<Rightarrow> Ret None
      | Some (h, Some err) \<Rightarrow> Ret (Some (c2, h, Some (Wrap ''Error setting up: %v'' err)))
      | Some (h, None) \<Rightarrow>
          go_bind (cg_SetState cgStateConsuming c2) (\<lambda>cg.
            if \<not> ctxDone then Ret None
            else case cg_claims handler (newCgSession (wrap32 (cg_currentGeneration c1 + 1)) topics)
                (cgs_claims (newCgSession (wrap32 (cg_currentGeneration c1 + 1)) topics)) cg h of (cg, h) \<Rightarrow>
              go_bind (cg_SetState cgStateCleaning cg) (\<lambda>cg.
              go_bind (hd_Cleanup handler (newCgSession (wrap32 (cg_currentGeneration c1 + 1)) topics) h) (\<lambda>(h, e).
                Ret (Some (cg\<lparr>cg_currentSession := None\<rparr>, h, map_option (Wrap ''Error running or cleaning: %v'')
                  (Errors_NilOrError (Errors_Collect newErrors e)))))))) = Ret (Some (cg', h', e))"
    using assms(1) unfolding cg_generation_def Let_def go_bind_eq_Ret by blast
  have k1: "cg_ok c1" "cg_currentGeneration c1 = cg_currentGeneration cg"
    using cg_SetState_Ret [OF c1 assms(2) cg_states(2)] by auto
  have k2: "cg_ok c2" "cg_currentGeneration c2 = wrap32 (cg_currentGeneration cg + 1)"
    using cg_SetState_Ret [OF c2 _ cg_states(3)] k1 by auto
  obtain h1 e1 where h1: "r = Some (h1, e1)" using r by (auto split: option.splits)
  show ?thesis
  proof (cases e1)
    case (Some err)
    then show ?thesis using r k2 by (auto simp: h1)
  next
    case None
    let ?s = "newCgSession (wrap32 (cg_currentGeneration c1 + 1)) topics"
    obtain c3 where c3: "cg_SetState cgStateConsuming c2 = Ret c3" using cg_SetState_ok [OF k2(1) cg_states(4)] by blast
    obtain c4 h4 where c4: "cg_claims handler ?s (cgs_claims ?s) c3 h1 = (c4, h4)" by fastforce
    with r None c3 obtain c5 where "cg_SetState cgStateCleaning c4 = Ret c5" "cg' = c5\<lparr>cg_currentSession := None\<rparr>" "ctxDone"
      by (auto simp: h1 go_bind_eq_Ret split: if_splits)
    note c = c3 c4 this
    have "cg_ok c4" "cg_currentGeneration c4 = cg_currentGeneration c2"
      using cg_SetState_Ret [OF c(1) k2(1) cg_states(4)] cg_claims_keeps [OF c(2)] by auto
    with cg_SetState_Ret [OF c(3) _ cg_states(5)] k2 c(4,5) show ?thesis by simp
  qed
qed

text \<open>\<open>Consume\<close> runs one generation: it returns only when the context has ended or with an error, then
  the group is stopped and can be consumed again.\<close>

lemma cg_loop_returns:
  assumes "cg_loop handler topics ctxDones cg h = Ret (Some (cg', h', e))" and "cg_ok cg"
  shows "\<exists>ctxDone rest. ctxDones = ctxDone # rest \<and> (e = None \<longrightarrow> ctxDone) \<and> cg_ok cg' \<and>
    sig_state (cg_state cg') = cgStateStopped \<and> cg_currentGeneration cg' = wrap32 (cg_currentGeneration cg + 1)"
proof -
  obtain d rest where d: "ctxDones = d # rest" using assms(1) by (cases ctxDones) auto
  obtain c1 h1 e1 where g: "cg_generation handler topics d cg h = Ret (Some (c1, h1, e1))"
    using assms(1) by (auto simp: d go_bind_eq_Ret split: option.splits)
  note ok = cg_generation_ok [OF g assms(2)]
  then have "e1 \<noteq> None \<or> d" by auto
  with assms(1) g have s: "cg_SetState cgStateStopped c1 = Ret cg'" "e = e1"
    by (auto simp: d go_bind_eq_Ret)
  from cg_SetState_Ret [OF s(1) _ cg_states(1)] ok s(2) d show ?thesis by auto
qed

lemma newConsumerGroup_ok: "\<exists>cg. newConsumerGroup = Ret cg \<and> cg_ok cg \<and> sig_state (cg_state cg) = cgStateStopped"
  by (simp add: newConsumerGroup_def cg_ok_def sig_inv_NewSignal Signal_SetState_def NewSignal_def sig_inv_def cgStateStopped_def)

text \<open>The session of the tester assigns the partition 0 of every topic, which a processor accepts.\<close>

lemma tester_session_assignment:
  assumes "topics \<noteq> []"
  shows "pr_assignmentFromSession (cgs_Claims (newCgSession generation topics)) = Inr (Some [(0, OffsetNewest)])"
proof -
  have loop: "assignment_loop (map (\<lambda>_. [0]) ts) (Some [(0, OffsetNewest)]) = Inr (Some [(0, OffsetNewest)])" for ts :: "string list"
    by (induction ts) simp_all
  obtain t ts where "remdups topics = t # ts" using assms by (cases "remdups topics") auto
  with loop [of ts] show ?thesis
    by (simp add: pr_assignmentFromSession_def cgs_Claims_def newCgSession_def comp_def)
qed

section \<open>Views catch up\<close>

text \<open>What a partition consumer still has to send, and the consumer after it has sent it.\<close>

definition pcm_ok :: "(string \<Rightarrow> queue) \<Rightarrow> partConsumerMock \<Rightarrow> bool" where
  "pcm_ok queues pc \<longleftrightarrow> queue_ok (queues (pcm_queue pc)) \<and> 0 \<le> pcm_hwm pc \<and>
     pcm_hwm pc \<le> int (length (qu_messages (queues (pcm_queue pc))))"

definition to_send :: "(string \<Rightarrow> queue) \<Rightarrow> partConsumerMock \<Rightarrow> message list" where
  "to_send queues pc = drop (nat (pcm_hwm pc)) (qu_messages (queues (pcm_queue pc)))"

definition sent_of :: "(string \<Rightarrow> queue) \<Rightarrow> partConsumerMock \<Rightarrow> ConsumerMessage option list" where
  "sent_of queues pc = concat (map (\<lambda>m. [Some (to_consumer_message (qu_topic (queues (pcm_queue pc))) m), None]) (to_send queues pc))"

definition caught :: "(string \<Rightarrow> queue) \<Rightarrow> partConsumerMock \<Rightarrow> partConsumerMock" where
  "caught queues pc = pc\<lparr>pcm_hwm := int (length (qu_messages (queues (pcm_queue pc))))\<rparr>"

lemma caught_again:
  "to_send queues (caught queues pc) = []" "sent_of queues (caught queues pc) = []"
  "caught queues (caught queues pc) = caught queues pc" "pcm_ok queues pc \<Longrightarrow> pcm_ok queues (caught queues pc)"
  by (simp_all add: to_send_def sent_of_def caught_def pcm_ok_def)

lemma pcm_send_eq:
  "pcm_send topic msgs pc =
     (if msgs = [] then pc else pc\<lparr>pcm_hwm := wrap64 (tmsg_offset (last msgs) + 1)\<rparr>,
      concat (map (\<lambda>m. [Some (to_consumer_message topic m), None]) msgs))"
  by (induction msgs arbitrary: pc) auto

lemma pcm_catchup_ok:
  assumes "pcm_ok queues pc"
  shows "pcm_catchup (queues (pcm_queue pc)) pc = Ret (caught queues pc, sent_of queues pc, length (to_send queues pc))"
proof -
  let ?q = "queues (pcm_queue pc)"
  have q: "queue_messagesFromOffset (pcm_hwm pc) ?q = Ret (to_send queues pc)"
    using assms by (simp add: pcm_ok_def queue_messagesFromOffset_def to_send_def)
  have hwm: "wrap64 (tmsg_offset (last (to_send queues pc)) + 1) = int (length (qu_messages ?q))" if "to_send queues pc \<noteq> []"
  proof -
    have "last (to_send queues pc) = qu_messages ?q ! (length (qu_messages ?q) - 1)" "qu_messages ?q \<noteq> []"
      using that by (auto simp: to_send_def last_drop last_conv_nth)
    then have "tmsg_offset (last (to_send queues pc)) = int (length (qu_messages ?q)) - 1"
      using assms unfolding pcm_ok_def queue_ok_def by (cases "qu_messages ?q") auto
    then show ?thesis using assms by (auto simp: pcm_ok_def queue_ok_def intro!: wrap64_id)
  qed
  have "nat (pcm_hwm pc) \<ge> length (qu_messages ?q) \<Longrightarrow> pcm_hwm pc = int (length (qu_messages ?q))"
    using assms unfolding pcm_ok_def by linarith
  then show ?thesis
    using hwm by (auto simp: pcm_catchup_def q pcm_send_eq caught_def sent_of_def) (simp add: to_send_def)
qed

definition caught_all :: "(string \<Rightarrow> queue) \<Rightarrow> (string \<times> partConsumerMock) list \<Rightarrow> (string \<times> partConsumerMock) list" where
  "caught_all queues pcs = map (\<lambda>(topic, pc). (topic, caught queues pc)) pcs"

lemma cm_catchup_ok:
  assumes "\<forall>(topic, pc) \<in> set pcs. pcm_ok queues pc"
  shows "cm_catchup queues pcs = Ret (caught_all queues pcs, map (\<lambda>(topic, pc). (topic, sent_of queues pc)) pcs,
    sum_list (map (\<lambda>(topic, pc). length (to_send queues pc)) pcs))"
  using assms by (induction pcs) (auto simp: caught_all_def pcm_catchup_ok)

definition caught_client :: "(string \<Rightarrow> queue) \<Rightarrow> client \<Rightarrow> client" where
  "caught_client queues cl =
     cl\<lparr>tc_consumer := (tc_consumer cl)\<lparr>cm_partConsumers := caught_all queues (cm_partConsumers (tc_consumer cl))\<rparr>\<rparr>"

definition client_ok :: "(string \<Rightarrow> queue) \<Rightarrow> client \<Rightarrow> bool" where
  "client_ok queues cl \<longleftrightarrow> \<not> tc_consumerGroup cl \<and> gomap (cm_partConsumers (tc_consumer cl)) \<and>
     (\<forall>(topic, pc) \<in> set (cm_partConsumers (tc_consumer cl)). pcm_ok queues pc)"

definition client_sends :: "(string \<Rightarrow> queue) \<Rightarrow> client \<Rightarrow> (string \<times> ConsumerMessage option list) list" where
  "client_sends queues cl = map (\<lambda>(topic, pc). (topic, sent_of queues pc)) (cm_partConsumers (tc_consumer cl))"

definition client_pending :: "(string \<Rightarrow> queue) \<Rightarrow> client \<Rightarrow> nat" where
  "client_pending queues cl = sum_list (map (\<lambda>(topic, pc). length (to_send queues pc)) (cm_partConsumers (tc_consumer cl)))"

definition caught_run :: "string \<Rightarrow> client \<Rightarrow> tester_run \<Rightarrow> tester_run" where
  "caught_run cid cl t =
     (let queues = tt_queue (tr_tester t)
      in \<lparr>tr_tester = (tr_tester t)\<lparr>tt_clients := map_put cid (caught_client queues cl) (tt_clients (tr_tester t))\<rparr>,
          tr_sent = add_sent cid (client_sends queues cl) (tr_sent t)\<rparr>)"

lemma client_catchup_ok:
  "client_ok (tt_queue (tr_tester t)) cl \<Longrightarrow> map_of (tt_clients (tr_tester t)) cid = Some cl \<Longrightarrow>
   client_catchup group' cid cl t = Ret (caught_run cid cl t, client_pending (tt_queue (tr_tester t)) cl)"
  by (simp add: client_catchup_def client_ok_def cm_catchup_ok caught_client_def client_sends_def client_pending_def caught_run_def Let_def)

lemma caught_client_again:
  assumes "client_ok queues cl"
  shows "client_ok queues (caught_client queues cl)" and "caught_client queues (caught_client queues cl) = caught_client queues cl"
    and "client_pending queues (caught_client queues cl) = 0"
    and "\<forall>(topic, sent) \<in> set (client_sends queues (caught_client queues cl)). sent = []"
  using assms
  by (auto simp: client_ok_def caught_client_def caught_all_def client_pending_def client_sends_def caught_again comp_def
      case_prod_beta intro!: client.equality consumerMock.equality)

text \<open>What a round adds to the messages sent to a consumer.\<close>

definition sent_to :: "(string \<Rightarrow> queue) \<Rightarrow> (string \<rightharpoonup> client) \<Rightarrow> string \<Rightarrow> string \<Rightarrow> ConsumerMessage option list" where
  "sent_to queues clients cid topic =
     (case clients cid of
        None \<Rightarrow> []
      | Some cl \<Rightarrow> (case map_of (cm_partConsumers (tc_consumer cl)) topic of None \<Rightarrow> [] | Some pc \<Rightarrow> sent_of queues pc))"

lemma add_sent_other: "c \<noteq> cid \<Longrightarrow> add_sent cid sents f (c, topic) = f (c, topic)"
  unfolding add_sent_def by (induction sents arbitrary: f) (auto simp: case_prod_beta)

lemma add_sent_same:
  "gomap sents \<Longrightarrow> add_sent cid sents f (cid, topic) =
     f (cid, topic) @ (case map_of sents topic of None \<Rightarrow> [] | Some s \<Rightarrow> s)"
proof (induction sents arbitrary: f)
  case (Cons e sents)
  obtain t s where e: "e = (t, s)" by (cases e)
  have step: "add_sent cid (e # sents) f = add_sent cid sents (f((cid, t) := f (cid, t) @ s))"
    by (simp add: add_sent_def e)
  have "map_of sents t = None" using Cons.prems by (simp add: e map_of_eq_None_iff)
  moreover define g where "g = f((cid, t) := f (cid, t) @ s)"
  moreover have "add_sent cid sents g (cid, topic) = g (cid, topic) @ (case map_of sents topic of None \<Rightarrow> [] | Some s \<Rightarrow> s)"
    using Cons.IH [of g] Cons.prems by (simp add: e)
  ultimately show ?case unfolding step by (cases "topic = t") (simp_all add: e)
qed (simp add: add_sent_def)

lemma add_sent_client:
  assumes "client_ok queues cl" and "clients cid = Some cl"
  shows "add_sent cid (client_sends queues cl) f (cid, topic) = f (cid, topic) @ sent_to queues clients cid topic"
proof -
  have "map fst (client_sends queues cl) = map fst (cm_partConsumers (tc_consumer cl))"
    by (simp add: client_sends_def comp_def case_prod_beta)
  moreover have "map_of (client_sends queues cl) topic = map_option (sent_of queues) (map_of (cm_partConsumers (tc_consumer cl)) topic)"
    unfolding client_sends_def by (simp add: map_of_map)
  ultimately show ?thesis
    using assms add_sent_same [of "client_sends queues cl" cid f topic]
    by (auto simp: client_ok_def sent_to_def split: option.splits)
qed

text \<open>A round over the clients \<open>cids\<close>.\<close>

definition run_ok :: "tester_run \<Rightarrow> bool" where
  "run_ok t \<longleftrightarrow> gomap (tt_clients (tr_tester t)) \<and>
     (\<forall>(cid, cl) \<in> set (tt_clients (tr_tester t)). client_ok (tt_queue (tr_tester t)) cl)"

lemma tt_queue_clients [simp]: "tt_queue (tt\<lparr>tt_clients := cls\<rparr>) = tt_queue tt"
  by (rule ext) (simp add: tt_queue_def)

lemma catchup_clients_ok:
  fixes t :: tester_run
  defines "queues \<equiv> tt_queue (tr_tester t)" and "clients \<equiv> map_of (tt_clients (tr_tester t))"
  assumes "distinct cids" and "\<forall>cid cl. clients cid = Some cl \<longrightarrow> client_ok queues cl"
  shows "\<exists>t'. catchup_clients g cids t = Ret (t', \<Sum>cid \<leftarrow> cids. case clients cid of None \<Rightarrow> 0 | Some cl \<Rightarrow> client_pending queues cl) \<and>
    tt_queue (tr_tester t') = queues \<and>
    map_of (tt_clients (tr_tester t')) = (\<lambda>cid. if cid \<in> set cids then map_option (caught_client queues) (clients cid) else clients cid) \<and>
    (gomap (tt_clients (tr_tester t)) \<longrightarrow> gomap (tt_clients (tr_tester t'))) \<and>
    (\<forall>cid topic. tr_sent t' (cid, topic) = tr_sent t (cid, topic) @ (if cid \<in> set cids then sent_to queues clients cid topic else []))"
  using assms(3,4) unfolding queues_def clients_def
proof (induction cids arbitrary: t)
  case (Cons cid cids)
  let ?q = "tt_queue (tr_tester t)" let ?c = "map_of (tt_clients (tr_tester t))"
  show ?case
  proof (cases "?c cid")
    case None
    with Cons.IH [OF _ Cons.prems(2)] Cons.prems(1) show ?thesis by (fastforce simp: sent_to_def)
  next
    case (Some cl)
    then have ok: "client_ok ?q cl" using Cons.prems(2) by blast
    define u where "u = caught_run cid cl t"
    have u: "tt_queue (tr_tester u) = ?q" "map_of (tt_clients (tr_tester u)) = ?c(cid \<mapsto> caught_client ?q cl)"
      by (simp_all add: u_def caught_run_def Let_def)
    have same: "map_of (tt_clients (tr_tester u)) c = ?c c" if "c \<in> set cids" for c using that Cons.prems(1) u(2) by auto
    then have sum: "(\<Sum>c \<leftarrow> cids. case map_of (tt_clients (tr_tester u)) c of None \<Rightarrow> 0 | Some cl \<Rightarrow> client_pending ?q cl) =
        (\<Sum>c \<leftarrow> cids. case ?c c of None \<Rightarrow> 0 | Some cl \<Rightarrow> client_pending ?q cl)"
      by (intro arg_cong [where f = sum_list] map_cong) simp_all
    have oks: "\<forall>c cl. map_of (tt_clients (tr_tester u)) c = Some cl \<longrightarrow> client_ok (tt_queue (tr_tester u)) cl"
      using Cons.prems(2) caught_client_again(1) [OF ok] by (auto simp: u)
    obtain t' where t': "catchup_clients g cids u =
        Ret (t', \<Sum>c \<leftarrow> cids. case ?c c of None \<Rightarrow> 0 | Some cl \<Rightarrow> client_pending ?q cl)"
      "tt_queue (tr_tester t') = ?q"
      "map_of (tt_clients (tr_tester t')) = (\<lambda>c. if c \<in> set cids then map_option (caught_client ?q) (map_of (tt_clients (tr_tester u)) c)
          else map_of (tt_clients (tr_tester u)) c)"
      "gomap (tt_clients (tr_tester u)) \<longrightarrow> gomap (tt_clients (tr_tester t'))"
      "\<forall>c topic. tr_sent t' (c, topic) = tr_sent u (c, topic) @
          (if c \<in> set cids then sent_to ?q (map_of (tt_clients (tr_tester u))) c topic else [])"
      using Cons.IH [OF _ oks] Cons.prems(1) unfolding u(1) sum by auto
    have "catchup_clients g (cid # cids) t =
        Ret (t', \<Sum>c \<leftarrow> cid # cids. case ?c c of None \<Rightarrow> 0 | Some cl \<Rightarrow> client_pending ?q cl)"
      using Some t'(1) by (simp add: client_catchup_ok [OF ok] u_def)
    moreover have "map_of (tt_clients (tr_tester t')) =
        (\<lambda>c. if c \<in> set (cid # cids) then map_option (caught_client ?q) (?c c) else ?c c)"
      using Some Cons.prems(1) by (auto simp: t'(3) u(2))
    moreover have "tr_sent t' (c, topic) = tr_sent t (c, topic) @ (if c \<in> set (cid # cids) then sent_to ?q ?c c topic else [])" for c topic
    proof (cases "c = cid")
      case True
      then show ?thesis using Cons.prems(1) add_sent_client [where clients = ?c, OF ok Some, of "tr_sent t" topic] by (simp add: t'(5) u_def caught_run_def Let_def)
    next
      case False
      have "sent_to ?q (map_of (tt_clients (tr_tester u))) c topic = sent_to ?q ?c c topic"
        using False by (simp add: sent_to_def u(2))
      then show ?thesis using False by (simp add: t'(5)) (simp add: u_def caught_run_def Let_def add_sent_other)
    qed
    moreover have "gomap (tt_clients (tr_tester t)) \<longrightarrow> gomap (tt_clients (tr_tester t'))"
      using t'(4) by (simp add: u_def caught_run_def Let_def)
    ultimately show ?thesis using t'(2) by blast
  qed
qed (auto simp: fun_eq_iff)

lemma round_ok:
  assumes "run_ok t"
  defines "queues \<equiv> tt_queue (tr_tester t)" and "clients \<equiv> map_of (tt_clients (tr_tester t))"
  shows "\<exists>t' n. tt_round g t = Ret (t', n) \<and> run_ok t' \<and> tt_queue (tr_tester t') = queues \<and>
    map_of (tt_clients (tr_tester t')) = map_option (caught_client queues) \<circ> clients \<and>
    (\<forall>cid topic. tr_sent t' (cid, topic) = tr_sent t (cid, topic) @ sent_to queues clients cid topic) \<and>
    ((\<forall>cid cl. clients cid = Some cl \<longrightarrow> client_pending queues cl = 0) \<longrightarrow> n = 0)"
proof -
  have ok: "\<forall>cid cl. clients cid = Some cl \<longrightarrow> client_ok queues cl"
    using assms(1) map_of_SomeD by (fastforce simp: run_ok_def queues_def clients_def)
  obtain t' where t': "tt_round g t = Ret (t', \<Sum>cid \<leftarrow> map fst (tt_clients (tr_tester t)).
        case clients cid of None \<Rightarrow> 0 | Some cl \<Rightarrow> client_pending queues cl)"
    "tt_queue (tr_tester t') = queues"
    "map_of (tt_clients (tr_tester t')) = (\<lambda>cid. if cid \<in> set (map fst (tt_clients (tr_tester t)))
        then map_option (caught_client queues) (clients cid) else clients cid)"
    "gomap (tt_clients (tr_tester t'))"
    "\<forall>cid topic. tr_sent t' (cid, topic) = tr_sent t (cid, topic) @
        (if cid \<in> set (map fst (tt_clients (tr_tester t))) then sent_to queues clients cid topic else [])"
    using catchup_clients_ok [of "map fst (tt_clients (tr_tester t))" t g] assms(1) ok
    unfolding tt_round_def run_ok_def queues_def clients_def by auto
  have none: "clients cid = None" if "cid \<notin> set (map fst (tt_clients (tr_tester t)))" for cid
    using that by (simp add: clients_def map_of_eq_None_iff)
  have m: "map_of (tt_clients (tr_tester t')) = map_option (caught_client queues) \<circ> clients"
    using none by (auto simp: t'(3) fun_eq_iff)
  have "run_ok t'"
    unfolding run_ok_def t'(2) using t'(4) ok caught_client_again(1)
    by (auto simp: m dest!: map_of_is_SomeI [rotated])
  moreover have "tr_sent t' (cid, topic) = tr_sent t (cid, topic) @ sent_to queues clients cid topic" for cid topic
    using none [of cid] t'(5) by (auto simp: sent_to_def)
  moreover have "(\<Sum>cid \<leftarrow> map fst (tt_clients (tr_tester t)).
        case clients cid of None \<Rightarrow> 0 | Some cl \<Rightarrow> client_pending queues cl) = 0"
    if "\<forall>cid cl. clients cid = Some cl \<longrightarrow> client_pending queues cl = 0"
    using that by (auto split: option.splits)
  ultimately show ?thesis using t'(1,2) m by (intro exI conjI allI impI) assumption+
qed

lemma waitForClients_round:
  "tt_round g t = Ret (t', n) \<Longrightarrow>
   waitForClients (tt_round g) t = (if n = 0 then Some (Ret t') else waitForClients (tt_round g) t')"
  by (subst waitForClients.simps) simp

lemma caught_nothing_to_send:
  assumes "\<forall>cid cl. clients cid = Some cl \<longrightarrow> client_ok queues cl"
  shows "sent_to queues (map_option (caught_client queues) \<circ> clients) cid topic = []"
  by (auto simp: sent_to_def caught_client_def caught_all_def map_of_map caught_again split: option.splits)

text \<open>C33: with views only, the tester waits until every message has been delivered. Whatever has been pushed
  to the queues, waiting for the clients ends; then every partition consumer has been sent, in order
  and once, the messages of its queue from its position on, each followed by a nil, and no consumer
  has anything left to send.\<close>

theorem views_catch_up:
  assumes "run_ok t"
  shows "\<exists>t'. waitForClients (tt_round g) t = Some (Ret t') \<and> tt_queue (tr_tester t') = tt_queue (tr_tester t) \<and>
    (\<forall>cid cl topic pc. map_of (tt_clients (tr_tester t)) cid = Some cl \<longrightarrow>
       map_of (cm_partConsumers (tc_consumer cl)) topic = Some pc \<longrightarrow>
       tr_sent t' (cid, topic) = tr_sent t (cid, topic) @ sent_of (tt_queue (tr_tester t)) pc \<and>
       (\<exists>cl'. map_of (tt_clients (tr_tester t')) cid = Some cl' \<and>
          map_of (cm_partConsumers (tc_consumer cl')) topic = Some (caught (tt_queue (tr_tester t)) pc)))"
proof -
  let ?q = "tt_queue (tr_tester t)" let ?c = "map_of (tt_clients (tr_tester t))"
  have ok: "\<forall>cid cl. ?c cid = Some cl \<longrightarrow> client_ok ?q cl"
    using assms map_of_SomeD by (fastforce simp: run_ok_def)
  obtain t1 n where t1: "tt_round g t = Ret (t1, n)" "run_ok t1" "tt_queue (tr_tester t1) = ?q"
    "map_of (tt_clients (tr_tester t1)) = map_option (caught_client ?q) \<circ> ?c"
    "\<forall>cid topic. tr_sent t1 (cid, topic) = tr_sent t (cid, topic) @ sent_to ?q ?c cid topic"
    using round_ok [OF assms, of g] by blast
  have pend: "\<forall>cid cl. map_of (tt_clients (tr_tester t1)) cid = Some cl \<longrightarrow> client_pending ?q cl = 0"
    using ok caught_client_again(3) by (auto simp: t1(4))
  obtain t2 where t2: "tt_round g t1 = Ret (t2, 0)" "tt_queue (tr_tester t2) = ?q"
    "map_of (tt_clients (tr_tester t2)) = map_option (caught_client ?q) \<circ> map_of (tt_clients (tr_tester t1))"
    "\<forall>cid topic. tr_sent t2 (cid, topic) = tr_sent t1 (cid, topic) @ sent_to ?q (map_of (tt_clients (tr_tester t1))) cid topic"
    using round_ok [OF t1(2), of g] pend unfolding t1(3) by blast
  define t' where "t' = (if n = 0 then t1 else t2)"
  have "map_of (tt_clients (tr_tester t2)) = map_of (tt_clients (tr_tester t1))"
    using ok caught_client_again(2) by (auto simp: t2(3) t1(4) fun_eq_iff option.map_comp comp_def map_option_case split: option.splits)
  moreover have "tr_sent t2 (cid, topic) = tr_sent t1 (cid, topic)" for cid topic
    using t2(4) caught_nothing_to_send [OF ok] by (simp add: t1(4))
  ultimately have t': "map_of (tt_clients (tr_tester t')) = map_option (caught_client ?q) \<circ> ?c" "tt_queue (tr_tester t') = ?q"
    "\<And>cid topic. tr_sent t' (cid, topic) = tr_sent t (cid, topic) @ sent_to ?q ?c cid topic"
    using t1 t2(2) by (auto simp: t'_def)
  have "waitForClients (tt_round g) t = Some (Ret t')"
    using waitForClients_round [OF t1(1)] waitForClients_round [OF t2(1)] by (simp add: t'_def)
  moreover have "tr_sent t' (cid, topic) = tr_sent t (cid, topic) @ sent_of ?q pc \<and>
      (\<exists>cl'. map_of (tt_clients (tr_tester t')) cid = Some cl' \<and>
         map_of (cm_partConsumers (tc_consumer cl')) topic = Some (caught ?q pc))"
    if "?c cid = Some cl" "map_of (cm_partConsumers (tc_consumer cl)) topic = Some pc" for cid cl topic pc
    using that by (simp add: t'(1,3) sent_to_def caught_client_def caught_all_def map_of_map)
  ultimately show ?thesis using t'(2) by blast
qed

section \<open>Samples\<close>

text \<open>A view on a topic that holds two messages, of which it has read one.\<close>

definition sample_tester_run :: tester_run where
  "sample_tester_run = \<lparr>tr_tester = New\<lparr>
       tt_queues := [''t'' \<mapsto> fst (queue_push ''b'' (Some ''2'') None (fst (queue_push ''a'' (Some ''1'') None (newQueue ''t''))))],
       tt_clients := [(''client-0'', \<lparr>tc_consumerGroup = False, tc_consumer = \<lparr>cm_requiredTopics = [''t''],
         cm_partConsumers = [(''t'', \<lparr>pcm_hwm = 1, pcm_queue = ''t''\<rparr>)]\<rparr>\<rparr>)]\<rparr>,
     tr_sent = (\<lambda>_. [])\<rparr>"

theorem views_catch_up_witness:
  "\<exists>t'. waitForClients (tt_round (\<lambda>cid t. Ret (t, 0))) sample_tester_run = Some (Ret t') \<and>
     tr_sent t' (''client-0'', ''t'') = [Some (to_consumer_message ''t'' \<lparr>tmsg_offset = 1, tmsg_key = ''b'', tmsg_value = Some ''2'',
       tmsg_headers = None\<rparr>), None]"
proof -
  let ?q = "tt_queue (tr_tester sample_tester_run)"
  have q: "?q ''t'' = \<lparr>qu_topic = ''t'', qu_messages = [\<lparr>tmsg_offset = 0, tmsg_key = ''a'', tmsg_value = Some ''1'', tmsg_headers = None\<rparr>,
      \<lparr>tmsg_offset = 1, tmsg_key = ''b'', tmsg_value = Some ''2'', tmsg_headers = None\<rparr>], qu_hwm = 2\<rparr>"
    by code_simp
  have ok: "run_ok sample_tester_run"
    using q by (auto simp: run_ok_def sample_tester_run_def client_ok_def pcm_ok_def queue_ok_def less_Suc_eq)
  obtain cl where cl: "map_of (tt_clients (tr_tester sample_tester_run)) ''client-0'' = Some cl"
    "map_of (cm_partConsumers (tc_consumer cl)) ''t'' = Some \<lparr>pcm_hwm = 1, pcm_queue = ''t''\<rparr>"
    by (simp add: sample_tester_run_def)
  have s: "tr_sent sample_tester_run (''client-0'', ''t'') = []" by (simp add: sample_tester_run_def)
  from views_catch_up [OF ok, of "\<lambda>cid t. Ret (t, 0)"] cl show ?thesis
    by (auto simp: s sent_of_def to_send_def q)
qed

end
