(* ===== verification/Goka_Web.thy ===== *)
theory Goka_Web
  imports Goka_Logger Goka_Processor
begin

text \<open>
  The web interface (\<open>web/templates\<close>, \<open>web/index\<close>, \<open>web/monitor\<close>, \<open>web/query\<close>).

  \<^item> A handler maps the response writer to the response writer. The writer follows \<open>net/http\<close>: the first
    \<open>WriteHeader\<close> counts, and the first \<open>Write\<close> sends the status 200 if none was sent before.
  \<^item> The contents of the templates, which are generated, \<open>html/template\<close>, \<open>encoding/json\<close> and the text of
    an error are parameters, the record \<open>web_env\<close>. The variables of a route, which the router extracts,
    are a map.
  \<^item> The lists of template names are slices over shared arrays, because the handlers append to a slice of
    the package.
\<close>

section \<open>Responses\<close>

record response =
  rsp_status :: "int option"
  rsp_body :: string
  rsp_logged :: "(Logger \<times> gerr log_entry) list"

definition new_response :: response where
  "new_response = \<lparr>rsp_status = None, rsp_body = [], rsp_logged = []\<rparr>"

definition rsp_WriteHeader :: "int \<Rightarrow> response \<Rightarrow> response" where
  "rsp_WriteHeader code w = (if rsp_status w = None then w\<lparr>rsp_status := Some code\<rparr> else w)"

definition rsp_Write :: "string \<Rightarrow> response \<Rightarrow> response" where
  "rsp_Write data w = (let w = rsp_WriteHeader 200 w in w\<lparr>rsp_body := rsp_body w @ data\<rparr>)"

definition http_Error :: "string \<Rightarrow> int \<Rightarrow> response \<Rightarrow> response" where
  "http_Error error code w = rsp_Write (error @ [CHR 0x0A]) (rsp_WriteHeader code w)"

definition http_NotFound :: "response \<Rightarrow> response" where
  "http_NotFound w = http_Error ''404 page not found'' 404 w"

definition log_error :: "Logger \<Rightarrow> string \<Rightarrow> gerr option \<Rightarrow> response \<Rightarrow> response" where
  "log_error l msg e w =
     (case e of None \<Rightarrow> w | Some err \<Rightarrow> w\<lparr>rsp_logged := rsp_logged w @ [std_Printf msg [err] l]\<rparr>)"

section \<open>Slices\<close>

text \<open>A slice is an array with a length; its capacity is the length of the array. When \<open>append\<close> has to
  allocate, the capacity of a small slice doubles.\<close>

type_synonym mem = "string list list"

record strs =
  sl_array :: nat
  sl_len :: nat

definition sl_elems :: "mem \<Rightarrow> strs \<Rightarrow> string list" where
  "sl_elems mem sl = take (sl_len sl) (mem ! sl_array sl)"

definition go_append :: "mem \<Rightarrow> strs \<Rightarrow> string \<Rightarrow> mem \<times> strs" where
  "go_append mem sl x =
     (let cap = length (mem ! sl_array sl); n = sl_len sl
      in if n < cap then (mem[sl_array sl := (mem ! sl_array sl)[n := x]], sl\<lparr>sl_len := Suc n\<rparr>)
         else (mem @ [sl_elems mem sl @ x # replicate (max (2 * cap) (Suc n) - Suc n) ''''],
               \<lparr>sl_array = length mem, sl_len = Suc n\<rparr>))"

section \<open>Templates\<close>

datatype web_stats = ProcessorStatsOf ProcessorStats | ViewStatsOf ViewStats

record component =
  co_Name :: string
  co_BasePath :: string

datatype 's pval =
    PStr string
  | PStrs "string list"
  | PErr gerr
  | PVars "string \<rightharpoonup> string"
  | PProcessors "'s Processor list"
  | PViews "'s View list"
  | PComponents "component list"

type_synonym 's params = "string \<rightharpoonup> 's pval"

record ('tm, 's) web_env =
  we_Asset :: "string \<Rightarrow> bytes result"
  we_New :: "string \<Rightarrow> 'tm"
  we_Parse :: "'tm \<Rightarrow> string \<Rightarrow> 'tm result"
  we_Execute :: "'tm \<Rightarrow> 's params \<Rightarrow> string \<times> gerr option"
  we_Marshal :: "web_stats \<Rightarrow> string result"
  we_MarshalIndent :: "gval \<Rightarrow> string result"
  we_Error :: "gerr \<Rightarrow> string"

definition BaseTemplates :: "string list" where
  "BaseTemplates = [''web/templates/common/base.go.html'', ''web/templates/common/head.go.html'', ''web/templates/common/menu.go.html'']"

definition tpl_Get :: "('tm, 's) web_env \<Rightarrow> string \<Rightarrow> string result" where
  "tpl_Get env filename =
     (case we_Asset env filename of
        Inl err \<Rightarrow> Inl (Wrap ''error loading bindata template: %v'' err)
      | Inr data \<Rightarrow> Inr data)"

fun tpl_files :: "('tm, 's) web_env \<Rightarrow> string list \<Rightarrow> (string \<times> string) list \<Rightarrow> (string \<times> string) list result" where
  "tpl_files env [] files = Inr files"
| "tpl_files env (name # names) files =
     (case tpl_Get env name of
        Inl err \<Rightarrow> Inl (Wrap ''error retrieving %s: %v'' err)
      | Inr content \<Rightarrow> tpl_files env names (map_put name content files))"

fun tpl_parse :: "('tm, 's) web_env \<Rightarrow> (string \<times> string) list \<Rightarrow> 'tm \<Rightarrow> 'tm result" where
  "tpl_parse env [] tmpl = Inr tmpl"
| "tpl_parse env ((name, content) # files) tmpl =
     (case we_Parse env tmpl content of
        Inl err \<Rightarrow> Inl (Wrap ''error parsing %s: %v'' err)
      | Inr tmpl \<Rightarrow> tpl_parse env files tmpl)"

text \<open>The range over the map of the files takes any order, given by \<open>order\<close>.\<close>

definition LoadTemplates ::
  "('tm, 's) web_env \<Rightarrow> ((string \<times> string) list \<Rightarrow> (string \<times> string) list) \<Rightarrow> string list \<Rightarrow> 'tm result" where
  "LoadTemplates env order filenames =
     (case tpl_files env filenames [] of
        Inl err \<Rightarrow> Inl err
      | Inr files \<Rightarrow> tpl_parse env (order files) (we_New env ''base''))"

text \<open>What the handlers have in common: load the templates, report an error of the loading, else go on with
  the template.\<close>

definition with_templates ::
  "('tm, 's) web_env \<Rightarrow> ((string \<times> string) list \<Rightarrow> (string \<times> string) list) \<Rightarrow> string list \<Rightarrow> response \<Rightarrow>
   ('tm \<Rightarrow> response go) \<Rightarrow> response go" where
  "with_templates env order filenames w k =
     (case LoadTemplates env order filenames of
        Inl err \<Rightarrow> Ret (http_Error (we_Error env err) 500 w)
      | Inr tmpl \<Rightarrow> k tmpl)"

definition render ::
  "('tm, 's) web_env \<Rightarrow> Logger \<Rightarrow> string \<Rightarrow> 's params \<Rightarrow> response \<Rightarrow> 'tm \<Rightarrow> response" where
  "render env l msg params w tmpl =
     (case we_Execute env tmpl params of (out, e) \<Rightarrow> log_error l msg e (rsp_Write out w))"

section \<open>The index\<close>

record idx_Server =
  ix_log :: Logger
  ix_basePath :: string
  ix_components :: "component list"

definition idx_NewServer :: "string \<Rightarrow> idx_Server" where
  "idx_NewServer basePath = \<lparr>ix_log = DefaultLog, ix_basePath = basePath, ix_components = []\<rparr>"

definition AddComponent :: "string \<Rightarrow> string \<Rightarrow> idx_Server \<Rightarrow> idx_Server" where
  "AddComponent path name s = s\<lparr>ix_components := ix_components s @ [\<lparr>co_Name = name, co_BasePath = path\<rparr>]\<rparr>"

definition idx_index ::
  "('tm, 's) web_env \<Rightarrow> ((string \<times> string) list \<Rightarrow> (string \<times> string) list) \<Rightarrow> idx_Server \<Rightarrow> response \<Rightarrow> response go" where
  "idx_index env order s w =
     with_templates env order (BaseTemplates @ [''web/templates/index/index.go.html'']) w (\<lambda>tmpl.
       Ret (render env (ix_log s) ''error rendering index template: %v''
         [''basePath'' \<mapsto> PStr (ix_basePath s), ''components'' \<mapsto> PComponents (ix_components s)] w tmpl))"

section \<open>The monitor\<close>

text \<open>The arrays of the package variables after the initialization: the base templates, and the slice that
  appending the menu has allocated.\<close>

definition mon_init :: "mem \<times> strs" where
  "mon_init = go_append [BaseTemplates] \<lparr>sl_array = 0, sl_len = length BaseTemplates\<rparr> ''web/templates/monitor/menu.go.html''"

definition mon_baseTemplates :: strs where "mon_baseTemplates = snd mon_init"

record 's mon_Server =
  mo_log :: Logger
  mo_basePath :: string
  mo_views :: "'s View list"
  mo_processors :: "'s Processor list"

definition mon_WithLogger :: "Logger \<Rightarrow> 's mon_Server \<Rightarrow> 's mon_Server" where
  "mon_WithLogger l s = s\<lparr>mo_log := l\<rparr>"

definition mon_NewServer :: "string \<Rightarrow> ('s mon_Server \<Rightarrow> 's mon_Server) list \<Rightarrow> 's mon_Server" where
  "mon_NewServer basePath opts = fold (\<lambda>opt. opt) opts \<lparr>mo_log = DefaultLog, mo_basePath = basePath, mo_views = [], mo_processors = []\<rparr>"

definition AttachProcessor :: "'s Processor \<Rightarrow> 's mon_Server \<Rightarrow> 's mon_Server" where
  "AttachProcessor processor s = s\<lparr>mo_processors := mo_processors s @ [processor]\<rparr>"

definition AttachView :: "'s View \<Rightarrow> 's mon_Server \<Rightarrow> 's mon_Server" where
  "AttachView view s = s\<lparr>mo_views := mo_views s @ [view]\<rparr>"

text \<open>The handlers that render a page begin by appending their template to the slice of the package, and
  then load the templates of the result; other handlers may run in between. The functions below are the
  second part, with the names that are read.\<close>

definition mon_index ::
  "('tm, 's) web_env \<Rightarrow> ((string \<times> string) list \<Rightarrow> (string \<times> string) list) \<Rightarrow> string list \<Rightarrow> 's mon_Server \<Rightarrow> response \<Rightarrow> response go" where
  "mon_index env order filenames s w =
     with_templates env order filenames w (\<lambda>tmpl.
       Ret (render env (mo_log s) ''error rendering index template: %v''
         [''base_path'' \<mapsto> PStr (mo_basePath s), ''page_title'' \<mapsto> PStr ''Monitor'', ''menu_title'' \<mapsto> PStr ''Index'',
          ''processors'' \<mapsto> PProcessors (mo_processors s), ''views'' \<mapsto> PViews (mo_views s)] w tmpl))"

text \<open>\<open>strconv.Atoi\<close> on a variable of the route, with the check of the handlers: the index is compared with
  the length by \<open>>\<close>.\<close>

definition route_var :: "(string \<rightharpoonup> string) \<Rightarrow> string \<Rightarrow> string" where
  "route_var vars name = (case vars name of None \<Rightarrow> '''' | Some x \<Rightarrow> x)"

definition mon_idx :: "(string \<rightharpoonup> string) \<Rightarrow> 'a list \<Rightarrow> int option" where
  "mon_idx vars xs =
     (case ParseInt (route_var vars ''idx'') of
        Inl _ \<Rightarrow> None
      | Inr idx \<Rightarrow> if idx < 0 \<or> idx > int (length xs) then None else Some idx)"

definition go_nth :: "'a list \<Rightarrow> int \<Rightarrow> 'a go" where
  "go_nth xs idx = (if 0 \<le> idx \<and> idx < int (length xs) then Ret (xs ! nat idx) else Panic ''index out of range'')"

definition mon_renderProcessor ::
  "('tm, 's) web_env \<Rightarrow> ((string \<times> string) list \<Rightarrow> (string \<times> string) list) \<Rightarrow> string list \<Rightarrow> (string \<rightharpoonup> string) \<Rightarrow> 's mon_Server \<Rightarrow>
   response \<Rightarrow> response go" where
  "mon_renderProcessor env order filenames vars s w =
     with_templates env order filenames w (\<lambda>tmpl.
       case mon_idx vars (mo_processors s) of
         None \<Rightarrow> Ret (http_NotFound w)
       | Some idx \<Rightarrow>
           go_bind (go_nth (mo_processors s) idx) (\<lambda>p.
             Ret (render env (mo_log s) ''error rendering processor details: %v''
               [''base_path'' \<mapsto> PStr (mo_basePath s), ''page_title'' \<mapsto> PStr (''Processor details for '' @ gg_group (pr_graph p)),
                ''title'' \<mapsto> PStr (gg_group (pr_graph p)), ''processors'' \<mapsto> PProcessors (mo_processors s),
                ''views'' \<mapsto> PViews (mo_views s), ''vars'' \<mapsto> PVars vars, ''renderType'' \<mapsto> PStr ''processor''] w tmpl)))"

definition mon_renderView ::
  "('tm, 's) web_env \<Rightarrow> ((string \<times> string) list \<Rightarrow> (string \<times> string) list) \<Rightarrow> string list \<Rightarrow> (string \<rightharpoonup> string) \<Rightarrow> 's mon_Server \<Rightarrow>
   response \<Rightarrow> response go" where
  "mon_renderView env order filenames vars s w =
     with_templates env order filenames w (\<lambda>tmpl.
       case mon_idx vars (mo_views s) of
         None \<Rightarrow> Ret (http_NotFound w)
       | Some idx \<Rightarrow>
           go_bind (go_nth (mo_views s) idx) (\<lambda>v.
             Ret (render env (mo_log s) ''error rendering view details: %v''
               [''base_path'' \<mapsto> PStr (mo_basePath s), ''page_title'' \<mapsto> PStr (''View details for '' @ vw_topic v),
                ''title'' \<mapsto> PStr (vw_topic v), ''processors'' \<mapsto> PProcessors (mo_processors s),
                ''views'' \<mapsto> PViews (mo_views s), ''vars'' \<mapsto> PVars vars, ''renderType'' \<mapsto> PStr ''view''] w tmpl)))"

text \<open>The data of a page. \<open>fetch\<close> and \<open>fetchTable\<close> are the statistics that the partitions deliver.\<close>

definition mon_renderData ::
  "('tm, 's) web_env \<Rightarrow> ('s pproc \<Rightarrow> PartitionProcStats option) \<Rightarrow> ('s PartitionTable \<Rightarrow> TableStats option) \<Rightarrow>
   (string \<rightharpoonup> string) \<Rightarrow> 's mon_Server \<Rightarrow> response \<Rightarrow> response go" where
  "mon_renderData env fetch fetchTable vars s w =
     (case ParseInt (route_var vars ''idx'') of
        Inl _ \<Rightarrow> Ret (http_NotFound w)
      | Inr idx \<Rightarrow>
          let write = (\<lambda>stats.
                case we_Marshal env stats of
                  Inl err \<Rightarrow> rsp_Write (we_Error env err) (rsp_WriteHeader 500 w)
                | Inr marshalled \<Rightarrow> rsp_Write marshalled w)
          in if route_var vars ''type'' = ''processor'' then
               (if idx < 0 \<or> idx > int (length (mo_processors s)) then Ret (http_NotFound w)
                else go_bind (go_nth (mo_processors s) idx) (\<lambda>p. Ret (write (ProcessorStatsOf (pr_StatsWithContext fetch fetchTable p)))))
             else if route_var vars ''type'' = ''view'' then
               (if idx < 0 \<or> idx > int (length (mo_views s)) then Ret (http_NotFound w)
                else go_bind (go_nth (mo_views s) idx) (\<lambda>v. Ret (write (ViewStatsOf (View_statsWithContext fetchTable v)))))
             else Ret (http_NotFound (rsp_Write ''Invalid render type'' w)))"

section \<open>Queries\<close>

text \<open>\<open>strings.TrimSpace\<close>: the white space of Unicode, encoded in UTF-8, is removed at both ends.\<close>

definition white_spaces :: "string list" where
  "white_spaces = map (\<lambda>n. [char_of n]) [9, 10, 11, 12, 13, 32 :: nat] @
     map (map char_of) ([[0xC2, 0x85], [0xC2, 0xA0], [0xE1, 0x9A, 0x80]] @ map (\<lambda>n. [0xE2, 0x80, n]) [0x80..<0x8B] @
       [[0xE2, 0x80, 0xA8], [0xE2, 0x80, 0xA9], [0xE2, 0x80, 0xAF], [0xE2, 0x81, 0x9F], [0xE3, 0x80, 0x80 :: nat]])"

fun starts_with :: "string \<Rightarrow> string \<Rightarrow> bool" where
  "starts_with [] s = True"
| "starts_with (x # xs) [] = False"
| "starts_with (x # xs) (y # ys) = (x = y \<and> starts_with xs ys)"

lemma starts_with_length: "starts_with x s \<Longrightarrow> length x \<le> length s"
  by (induction x s rule: starts_with.induct) auto

lemma white_spaces_nonempty: "x \<in> set white_spaces \<Longrightarrow> x \<noteq> []"
  by (auto simp: white_spaces_def)

function trim_left :: "string list \<Rightarrow> string \<Rightarrow> string" where
  "trim_left ws s =
     (case filter (\<lambda>x. x \<noteq> [] \<and> starts_with x s) ws of [] \<Rightarrow> s | x # _ \<Rightarrow> trim_left ws (drop (length x) s))"
  by pat_completeness auto
termination
proof (relation "measure (\<lambda>(ws, s). length s)")
  fix ws :: "string list" and s x xs
  assume "filter (\<lambda>x. x \<noteq> [] \<and> starts_with x s) ws = x # xs"
  then have "x \<in> set (filter (\<lambda>x. x \<noteq> [] \<and> starts_with x s) ws)" by simp
  then have "x \<noteq> []" "length x \<le> length s" using starts_with_length by auto
  then show "((ws, drop (length x) s), (ws, s)) \<in> measure (\<lambda>(ws, s). length s)" by (cases x) auto
qed simp

declare trim_left.simps [simp del]

definition TrimSpace :: "string \<Rightarrow> string" where
  "TrimSpace s = rev (trim_left (map rev white_spaces) (rev (trim_left white_spaces s)))"

text \<open>A getter, the method \<open>Get\<close> of a processor or a view, may be nil.\<close>

type_synonym getter = "(string \<Rightarrow> gval result go) option"
type_synonym humanizer = "gval \<Rightarrow> string result"

record qry_Server =
  qs_log :: Logger
  qs_basePath :: string
  qs_sources :: "(string \<times> getter) list"
  qs_humanizer :: humanizer

definition DefaultHumanizer :: "('tm, 's) web_env \<Rightarrow> humanizer" where
  "DefaultHumanizer env val = we_MarshalIndent env val"

definition WithHumanizer :: "humanizer \<Rightarrow> qry_Server \<Rightarrow> qry_Server" where
  "WithHumanizer h s = s\<lparr>qs_humanizer := h\<rparr>"

definition qry_WithLogger :: "Logger \<Rightarrow> qry_Server \<Rightarrow> qry_Server" where
  "qry_WithLogger l s = s\<lparr>qs_log := l\<rparr>"

definition qry_NewServer :: "('tm, 's) web_env \<Rightarrow> string \<Rightarrow> (qry_Server \<Rightarrow> qry_Server) list \<Rightarrow> qry_Server" where
  "qry_NewServer env basePath opts = fold (\<lambda>opt. opt) opts
     \<lparr>qs_log = DefaultLog, qs_basePath = basePath, qs_sources = [], qs_humanizer = DefaultHumanizer env\<rparr>"

definition qry_getter :: "string \<Rightarrow> qry_Server \<Rightarrow> getter" where
  "qry_getter name s = (case map_of (qs_sources s) name of None \<Rightarrow> None | Some getter \<Rightarrow> getter)"

definition qry_exists :: "string \<Rightarrow> qry_Server \<Rightarrow> bool" where
  "qry_exists name s \<longleftrightarrow> (case qry_getter name s of None \<Rightarrow> False | Some _ \<Rightarrow> True)"

definition sourceNames :: "qry_Server \<Rightarrow> string list" where
  "sourceNames s = sort (map fst (qs_sources s))"

definition AttachSource :: "string \<Rightarrow> getter \<Rightarrow> qry_Server \<Rightarrow> qry_Server \<times> gerr option" where
  "AttachSource name getter s =
     (case map_of (qs_sources s) name of
        Some _ \<Rightarrow> (s, Some (Err ''source with name '%s' is already attached''))
      | None \<Rightarrow> (s\<lparr>qs_sources := map_put name getter (qs_sources s)\<rparr>, None))"

definition executeQueryTemplate ::
  "('tm, 's) web_env \<Rightarrow> ((string \<times> string) list \<Rightarrow> (string \<times> string) list) \<Rightarrow> 's params \<Rightarrow> qry_Server \<Rightarrow> response \<Rightarrow> response go" where
  "executeQueryTemplate env order params s w =
     with_templates env order (BaseTemplates @ [''web/templates/query/index.go.html'']) w (\<lambda>tmpl.
       Ret (render env (qs_log s) ''error executing query template: %v''
         (params(''menu_title'' \<mapsto> PStr ''menu title'', ''base_path'' \<mapsto> PStr (qs_basePath s))) w tmpl))"

definition with_sources :: "qry_Server \<Rightarrow> 's params" where
  "with_sources s =
     (let names = sourceNames s; params = [''page_title'' \<mapsto> PStr ''Overview'']
      in if names \<noteq> [] then params(''selected_source'' \<mapsto> PStr (names ! 0), ''sources'' \<mapsto> PStrs names) else params)"

definition qry_index ::
  "('tm, 's) web_env \<Rightarrow> ((string \<times> string) list \<Rightarrow> (string \<times> string) list) \<Rightarrow> qry_Server \<Rightarrow> response \<Rightarrow> response go" where
  "qry_index env order s w = executeQueryTemplate env order (with_sources s) s w"

definition qry_source ::
  "('tm, 's) web_env \<Rightarrow> ((string \<times> string) list \<Rightarrow> (string \<times> string) list) \<Rightarrow> (string \<rightharpoonup> string) \<Rightarrow> qry_Server \<Rightarrow> response \<Rightarrow> response go" where
  "qry_source env order vars s w =
     (let name = route_var vars ''name''; params = with_sources s
      in if \<not> qry_exists name s
         then executeQueryTemplate env order (params(''warning'' \<mapsto> PErr (Err ''Source '%s' not found!''))) s w
         else executeQueryTemplate env order (params(''selected_source'' \<mapsto> PStr name)) s w)"

text \<open>The parameters of the page for a key, and the page.\<close>

definition key_params :: "(string \<rightharpoonup> string) \<Rightarrow> qry_Server \<Rightarrow> 's params go" where
  "key_params vars s =
     (let name = route_var vars ''name''; params = with_sources s
      in case qry_getter name s of
           None \<Rightarrow> Ret (params(''error'' \<mapsto> PErr (Err ''Source '%s' not found!'')))
         | Some getter \<Rightarrow>
             let params = params(''selected_source'' \<mapsto> PStr name); key = route_var vars ''key''
             in go_bind (getter (TrimSpace key)) (\<lambda>r.
                  case r of
                    Inl err \<Rightarrow> Ret (params(''error'' \<mapsto> PErr (Wrap ''error getting key: %v'' err)))
                  | Inr val \<Rightarrow>
                      let params = params(''key'' \<mapsto> PStr key)
                      in if val \<noteq> VNil
                         then (case qs_humanizer s val of
                                 Inl err \<Rightarrow> Ret (params(''error'' \<mapsto> PErr (Wrap ''error marshaling value: %v'' err)))
                               | Inr data \<Rightarrow> Ret (params(''value'' \<mapsto> PStr data)))
                         else Ret (params(''warning'' \<mapsto> PErr (Err ''Key '%s' not found!'')))))"

definition qry_key ::
  "('tm, 's) web_env \<Rightarrow> ((string \<times> string) list \<Rightarrow> (string \<times> string) list) \<Rightarrow> (string \<rightharpoonup> string) \<Rightarrow> qry_Server \<Rightarrow> response \<Rightarrow> response go" where
  "qry_key env order vars s w = go_bind (key_params vars s) (\<lambda>params. executeQueryTemplate env order params s w)"

section \<open>Trimming\<close>

definition clean :: "string list \<Rightarrow> string \<Rightarrow> bool" where
  "clean ws s \<longleftrightarrow> (\<forall>x \<in> set ws. x \<noteq> [] \<longrightarrow> \<not> starts_with x s)"

lemma trim_left_clean: "clean ws s \<Longrightarrow> trim_left ws s = s"
proof -
  assume "clean ws s"
  then have "filter (\<lambda>x. x \<noteq> [] \<and> starts_with x s) ws = []" by (auto simp: clean_def filter_empty_conv)
  then show ?thesis by (subst trim_left.simps) simp
qed

lemma trim_left_result: "clean ws (trim_left ws s) \<and> (\<exists>n. trim_left ws s = drop n s)"
proof (induction ws s rule: trim_left.induct)
  case (1 ws s)
  show ?case
  proof (cases "filter (\<lambda>x. x \<noteq> [] \<and> starts_with x s) ws")
    case Nil
    then have "clean ws s" by (auto simp: clean_def filter_empty_conv)
    then show ?thesis using trim_left_clean drop_0 by metis
  next
    case (Cons x xs)
    then have "trim_left ws s = trim_left ws (drop (length x) s)" by (subst trim_left.simps) simp
    then show ?thesis using "1.IH" [OF Cons] by (metis drop_drop)
  qed
qed

lemma starts_with_iff: "starts_with x s \<longleftrightarrow> (\<exists>r. s = x @ r)"
  by (induction x s rule: starts_with.induct) auto

lemma TrimSpace_clean:
  "clean white_spaces s \<Longrightarrow> clean (map rev white_spaces) (rev s) \<Longrightarrow> TrimSpace s = s"
  by (simp add: TrimSpace_def trim_left_clean)

lemma TrimSpace_result:
  "clean white_spaces (TrimSpace s) \<and> clean (map rev white_spaces) (rev (TrimSpace s))"
proof -
  define r where "r = trim_left white_spaces s"
  have r: "clean white_spaces r" using trim_left_result r_def by blast
  obtain n where n: "trim_left (map rev white_spaces) (rev r) = drop n (rev r)" using trim_left_result by blast
  then have "TrimSpace s = take (length r - n) r" by (simp add: TrimSpace_def r_def drop_rev)
  then have "\<exists>q. r = TrimSpace s @ q" by (metis append_take_drop_id)
  then have "clean white_spaces (TrimSpace s)" using r by (auto simp: clean_def starts_with_iff)
  moreover have "clean (map rev white_spaces) (rev (TrimSpace s))"
    using trim_left_result [of "map rev white_spaces" "rev r"] by (simp add: TrimSpace_def r_def)
  ultimately show ?thesis ..
qed

text \<open>Trimming twice is trimming once.\<close>

lemma TrimSpace_idem: "TrimSpace (TrimSpace s) = TrimSpace s"
  using TrimSpace_result TrimSpace_clean by blast

section \<open>Sources\<close>

definition attach_all :: "(string \<times> getter) list \<Rightarrow> qry_Server \<Rightarrow> qry_Server" where
  "attach_all calls s = fold (\<lambda>(name, getter) s. fst (AttachSource name getter s)) calls s"

lemma AttachSource_sources:
  "map_of (qs_sources (fst (AttachSource name getter s))) n =
     (if n = name \<and> map_of (qs_sources s) name = None then Some getter else map_of (qs_sources s) n)"
  "gomap (qs_sources s) \<Longrightarrow> gomap (qs_sources (fst (AttachSource name getter s)))"
  "qs_humanizer (fst (AttachSource name getter s)) = qs_humanizer s"
  "qs_log (fst (AttachSource name getter s)) = qs_log s"
  "qs_basePath (fst (AttachSource name getter s)) = qs_basePath s"
  by (auto simp: AttachSource_def split: option.splits)

text \<open>The first getter that is attached under a name stays.\<close>

lemma attach_all_sources:
  "map_of (qs_sources (attach_all calls s)) n = (case map_of (qs_sources s) n of None \<Rightarrow> map_of calls n | Some g \<Rightarrow> Some g)"
  "gomap (qs_sources s) \<Longrightarrow> gomap (qs_sources (attach_all calls s))"
  "qs_humanizer (attach_all calls s) = qs_humanizer s"
  "qs_log (attach_all calls s) = qs_log s"
  "qs_basePath (attach_all calls s) = qs_basePath s"
proof (induction calls arbitrary: s)
  case (Cons c calls)
  obtain name g where c: "c = (name, g)" by (cases c)
  have step: "attach_all (c # calls) s = attach_all calls (fst (AttachSource name g s))" for s by (simp add: attach_all_def c)
  { case 1
    show ?case unfolding step Cons.IH(1) by (auto simp: AttachSource_sources(1) c split: option.splits)
  next
    case 2
    then show ?case unfolding step by (rule Cons.IH(2) [OF AttachSource_sources(2)])
  next
    case 3
    show ?case unfolding step Cons.IH(3) by (rule AttachSource_sources)
  next
    case 4
    show ?case unfolding step Cons.IH(4) by (rule AttachSource_sources)
  next
    case 5
    show ?case unfolding step Cons.IH(5) by (rule AttachSource_sources)
  }
qed (auto simp: attach_all_def split: option.splits)

lemma attach_all_names:
  assumes "gomap (qs_sources s)"
  shows "sourceNames (attach_all calls s) = sorted_list_of_set (fst ` set (qs_sources s) \<union> fst ` set calls)"
proof -
  have "dom (map_of (qs_sources (attach_all calls s))) = dom (map_of (qs_sources s)) \<union> dom (map_of calls)"
    by (rule set_eqI) (simp add: dom_def attach_all_sources(1) split: option.splits)
  then have "set (map fst (qs_sources (attach_all calls s))) = fst ` set (qs_sources s) \<union> fst ` set calls"
    by (simp add: dom_map_of_conv_image_fst)
  moreover have "distinct (map fst (qs_sources (attach_all calls s)))" using attach_all_sources(2) [OF assms] by simp
  ultimately show ?thesis unfolding sourceNames_def by (metis sorted_list_of_set_sort_remdups distinct_remdups_id)
qed

section \<open>The page of a key\<close>

text \<open>C39: the page of a key shows the value of the source. Whatever sources have been attached, and in
  whatever order, the page of a name and a key shows, with the sorted names of all the sources, the value that
  the getter attached first under this name returns for the key without surrounding white space; no later
  attachment replaces it.\<close>

theorem query_page_shows_value:
  fixes env :: "('tm, 's) web_env"
  assumes "s = attach_all calls (qry_NewServer env basePath [])"
    and "map_of calls name = Some (Some getter)" and "vars ''name'' = Some name" and "vars ''key'' = Some key"
    and "getter (TrimSpace key) = Ret (Inr val)" and "val \<noteq> VNil" and "we_MarshalIndent env val = Inr data"
    and "LoadTemplates env order (BaseTemplates @ [''web/templates/query/index.go.html'']) = Inr tmpl"
  shows "\<exists>params. qry_key env order vars s w = Ret (render env DefaultLog ''error executing query template: %v'' params w tmpl) \<and>
    params ''selected_source'' = Some (PStr name) \<and> params ''key'' = Some (PStr key) \<and> params ''value'' = Some (PStr data) \<and>
    params ''sources'' = Some (PStrs (sorted_list_of_set (fst ` set calls))) \<and> params ''error'' = None \<and> params ''warning'' = None"
proof -
  let ?s0 = "qry_NewServer env basePath []"
  have s0: "qs_sources ?s0 = []" "qs_log ?s0 = DefaultLog" "qs_humanizer ?s0 = we_MarshalIndent env"
    by (simp_all add: qry_NewServer_def DefaultHumanizer_def fun_eq_iff)
  have names: "sourceNames s = sorted_list_of_set (fst ` set calls)"
    using attach_all_names [of ?s0 calls] by (simp add: assms(1) s0)
  have "name \<in> fst ` set calls" using assms(2) by (metis domI dom_map_of_conv_image_fst)
  then have "sourceNames s \<noteq> []" by (auto simp: names)
  moreover have "qry_getter name s = Some getter" by (simp add: qry_getter_def assms(1,2) attach_all_sources(1) s0)
  ultimately have "(key_params vars s :: 's params go) = Ret ([''page_title'' \<mapsto> PStr ''Overview'', ''selected_source'' \<mapsto> PStr (sourceNames s ! 0),
      ''sources'' \<mapsto> PStrs (sourceNames s), ''selected_source'' \<mapsto> PStr name, ''key'' \<mapsto> PStr key, ''value'' \<mapsto> PStr data])"
    using assms(3-7) by (simp add: key_params_def with_sources_def route_var_def Let_def assms(1) attach_all_sources(3) s0(3))
  then have "qry_key env order vars s w = Ret (render env DefaultLog ''error executing query template: %v''
      [''page_title'' \<mapsto> PStr ''Overview'', ''selected_source'' \<mapsto> PStr (sourceNames s ! 0), ''sources'' \<mapsto> PStrs (sourceNames s),
       ''selected_source'' \<mapsto> PStr name, ''key'' \<mapsto> PStr key, ''value'' \<mapsto> PStr data, ''menu_title'' \<mapsto> PStr ''menu title'',
       ''base_path'' \<mapsto> PStr (qs_basePath s)] w tmpl)"
    using assms(8) by (simp add: qry_key_def executeQueryTemplate_def with_templates_def assms(1) attach_all_sources(4) s0(2))
  then show ?thesis by (intro exI conjI) (assumption, simp_all add: names)
qed

section \<open>The pages of the monitor\<close>

text \<open>The data of the processors. The monitor answers the request for the index of an attached processor
  with its statistics, and requests beyond the attached processors are not found; but at the index right after
  the last processor, also of an empty monitor, the handler panics.\<close>

lemma monitor_processor_data:
  assumes "vars ''type'' = Some ''processor''" and "vars ''idx'' = Some (FormatInt i)" and "int64 i"
    and "\<And>stats. we_Marshal env stats = Inr (json stats)"
  shows "mon_renderData env fetch fetchTable vars s new_response =
    (if 0 \<le> i \<and> i < int (length (mo_processors s))
     then Ret \<lparr>rsp_status = Some 200,
       rsp_body = json (ProcessorStatsOf (pr_StatsWithContext fetch fetchTable (mo_processors s ! nat i))), rsp_logged = []\<rparr>
     else if i = int (length (mo_processors s)) then Panic ''index out of range''
     else Ret \<lparr>rsp_status = Some 404, rsp_body = ''404 page not found'' @ [CHR 0x0A], rsp_logged = []\<rparr>)"
  using assms(1,2,4) ParseInt_FormatInt [OF assms(3)]
  by (auto simp: mon_renderData_def route_var_def go_nth_def rsp_Write_def rsp_WriteHeader_def new_response_def http_NotFound_def
      http_Error_def Let_def)

text \<open>A type of data that does not exist is answered with the status 200: the text is written before the
  status.\<close>

lemma monitor_invalid_type:
  assumes "vars ''type'' = Some type'" and "type' \<noteq> ''processor''" and "type' \<noteq> ''view''" and "vars ''idx'' = Some (FormatInt i)" and "int64 i"
  shows "mon_renderData env fetch fetchTable vars s new_response =
    Ret \<lparr>rsp_status = Some 200, rsp_body = ''Invalid render type404 page not found'' @ [CHR 0x0A], rsp_logged = []\<rparr>"
  using assms(1-4) ParseInt_FormatInt [OF assms(5)]
  by (simp add: mon_renderData_def route_var_def rsp_Write_def rsp_WriteHeader_def new_response_def http_NotFound_def http_Error_def Let_def)

text \<open>The templates of the monitor. The handlers append to the slice of the package, whose array has room.\<close>

definition mon_names :: "string list" where
  "mon_names = BaseTemplates @ [''web/templates/monitor/menu.go.html'']"

definition mon_mem :: "mem \<Rightarrow> bool" where
  "mon_mem mem \<longleftrightarrow> length mem = 2 \<and> length (mem ! 1) = 6 \<and> take 4 (mem ! 1) = mon_names"

definition mon_append :: "string \<Rightarrow> mem \<Rightarrow> mem" where
  "mon_append f mem = fst (go_append mem mon_baseTemplates f)"

definition mon_page :: strs where "mon_page = \<lparr>sl_array = 1, sl_len = 5\<rparr>"

lemma mon_init_mem: "mon_mem (fst mon_init)" "mon_baseTemplates = \<lparr>sl_array = 1, sl_len = 4\<rparr>"
  by (simp_all add: mon_mem_def mon_init_def mon_names_def go_append_def BaseTemplates_def sl_elems_def Let_def mon_baseTemplates_def)

lemma mon_append_mem:
  assumes "mon_mem mem"
  shows "mon_mem (mon_append f mem)" "snd (go_append mem mon_baseTemplates f) = mon_page"
    "sl_elems (mon_append f mem) mon_page = mon_names @ [f]"
proof -
  have a: "mon_append f mem = mem[1 := (mem ! 1)[4 := f]]" "snd (go_append mem mon_baseTemplates f) = mon_page"
    using assms by (simp_all add: mon_append_def mon_mem_def go_append_def mon_init_mem(2) mon_page_def Let_def)
  then show "mon_mem (mon_append f mem)" "snd (go_append mem mon_baseTemplates f) = mon_page"
    using assms by (simp_all add: mon_mem_def)
  have "take 5 ((mem ! 1)[4 := f]) = take 4 (mem ! 1) @ [f]"
    using assms take_Suc_conv_app_nth [of 4 "(mem ! 1)[4 := f]"] by (simp add: mon_mem_def)
  then show "sl_elems (mon_append f mem) mon_page = mon_names @ [f]"
    using assms by (simp add: a(1) sl_elems_def mon_page_def mon_mem_def)
qed

lemma mon_appends: "mon_mem mem \<Longrightarrow> mon_mem (fold mon_append fs mem)"
  by (induction fs arbitrary: mem) (simp_all add: mon_append_mem(1))

text \<open>C40: concurrent requests to the monitor exchange their pages. The handlers append the name of their page
  to one slice of the package, which writes into the same array; so if a request appends its page and other
  requests append theirs before it loads the templates, then it loads the page of the last of them, and its
  own only if there is none.\<close>

theorem monitor_pages_exchanged:
  "sl_elems (fold mon_append others (mon_append page (fold mon_append before (fst mon_init))))
     (snd (go_append (fold mon_append before (fst mon_init)) mon_baseTemplates page)) =
   BaseTemplates @ [''web/templates/monitor/menu.go.html'', last (page # others)]"
proof -
  define mem where "mem = fold mon_append before (fst mon_init)"
  have m: "mon_mem mem" unfolding mem_def by (intro mon_appends mon_init_mem)
  have "sl_elems (fold mon_append others (mon_append page mem)) mon_page = mon_names @ [last (page # others)]"
  proof (cases others rule: rev_cases)
    case Nil
    then show ?thesis by (simp add: mon_append_mem(3) [OF m])
  next
    case (snoc fs f)
    then show ?thesis using mon_append_mem(3) [OF mon_appends [OF mon_append_mem(1) [OF m]]] by simp
  qed
  then show ?thesis unfolding mem_def [symmetric] mon_append_mem(2) [OF m] by (simp add: mon_names_def)
qed

text \<open>The pages of the query server and the index append to a full slice: each request has its own array.\<close>

lemma other_pages_separate:
  assumes "mem ! 0 = BaseTemplates" and "sl = \<lparr>sl_array = 0, sl_len = 3\<rparr>" and "mem \<noteq> []"
    and "go_append mem sl page = (mem', p)" and "go_append mem' sl other = (mem'', q)"
  shows "sl_elems mem'' p = BaseTemplates @ [page] \<and> sl_elems mem'' q = BaseTemplates @ [other]"
proof -
  obtain a where a: "mem = BaseTemplates # a" using assms(1,3) by (cases mem) simp_all
  have l: "length BaseTemplates = 3" by (simp add: BaseTemplates_def)
  show ?thesis using assms(4,5) by (auto simp: go_append_def a assms(2) l sl_elems_def Let_def nth_append)
qed

text \<open>The pages of the processors and views panic at the same index.\<close>

lemma monitor_page_panics:
  assumes "LoadTemplates env order filenames = Inr tmpl"
  shows "vars ''idx'' = Some (FormatInt (int (length (mo_processors s)))) \<Longrightarrow> int64 (int (length (mo_processors s))) \<Longrightarrow>
      mon_renderProcessor env order filenames vars s w = Panic ''index out of range''"
    and "vars ''idx'' = Some (FormatInt (int (length (mo_views s)))) \<Longrightarrow> int64 (int (length (mo_views s))) \<Longrightarrow>
      mon_renderView env order filenames vars s w = Panic ''index out of range''"
  using assms
  by (simp_all add: mon_renderProcessor_def mon_renderView_def with_templates_def mon_idx_def route_var_def ParseInt_FormatInt go_nth_def)

section \<open>Samples\<close>

definition sample_web :: "(string list, memory) web_env" where
  "sample_web = \<lparr>we_Asset = (\<lambda>f. Inr f), we_New = (\<lambda>name. [name]), we_Parse = (\<lambda>t c. Inr (t @ [c])),
     we_Execute = (\<lambda>t params. (case params ''value'' of Some (PStr v) \<Rightarrow> v | _ \<Rightarrow> '''', None)),
     we_Marshal = (\<lambda>stats. Inr ''{}''), we_MarshalIndent = (\<lambda>v. case v of VString s \<Rightarrow> Inr s | _ \<Rightarrow> Inl (Err ''json'')),
     we_Error = (\<lambda>e. ''error'')\<rparr>"

definition sample_calls_web :: "(string \<times> getter) list" where
  "sample_calls_web = [(''t'', Some (View_Get memory_ops DefaultHasher sample_view)), (''t'', None), (''s'', None)]"

theorem query_page_shows_value_witness:
  "\<exists>params. qry_key sample_web (\<lambda>fs. fs) [''name'' \<mapsto> ''t'', ''key'' \<mapsto> '' a'']
       (attach_all sample_calls_web (qry_NewServer sample_web ''/query'' [])) new_response =
     Ret (render sample_web DefaultLog ''error executing query template: %v'' params new_response
       [''base'', ''web/templates/common/base.go.html'', ''web/templates/common/head.go.html'', ''web/templates/common/menu.go.html'',
        ''web/templates/query/index.go.html'']) \<and> params ''value'' = Some (PStr ''1'')"
proof -
  have t: "TrimSpace '' a'' = ''a''" by code_simp
  have g: "View_Get memory_ops DefaultHasher sample_view ''a'' = Ret (Inr (VString ''1''))" by code_simp
  have l: "LoadTemplates sample_web (\<lambda>fs. fs) (BaseTemplates @ [''web/templates/query/index.go.html'']) =
      Inr [''base'', ''web/templates/common/base.go.html'', ''web/templates/common/head.go.html'', ''web/templates/common/menu.go.html'',
        ''web/templates/query/index.go.html'']" by code_simp
  show ?thesis
    using query_page_shows_value [where env = sample_web and calls = sample_calls_web and basePath = "''/query''" and name = "''t''"
        and vars = "[''name'' \<mapsto> ''t'', ''key'' \<mapsto> '' a'']" and key = "'' a''" and val = "VString ''1''" and data = "''1''"
        and getter = "View_Get memory_ops DefaultHasher sample_view" and w = new_response, OF refl _ _ _ _ _ _ l] t g
    by (auto simp: sample_calls_web_def sample_web_def)
qed

end
