(* ===== verification/Goka_Examples.thy ===== *)
theory Goka_Examples
  imports Goka_Partition_Processor
begin

text \<open>
  Applications of the repository whose state is a value of a codec of the repository: the counter of
  \<open>examples/1-simplest/main.go\<close> and the translator of \<open>examples/3-messaging/translator/translator.go\<close>.

  Both fold the messages of a key into the value of the key. What such a callback keeps in the group table is
  shown once, for every run of the partition processor: whatever the order in which the producer's
  promises are resolved, with whatever outcome, and whenever the processor is cancelled.
\<close>

section \<open>The applications\<close>

text \<open>The type assertions of the callbacks panic for a value of another type.\<close>

definition counter_cb :: ProcessCallback where
  "counter_cb msg = CbDo OpValue (\<lambda>r.
     let set' = (\<lambda>counter. CbDo (OpSetValue (VInt64 (wrap64 (counter + 1))) []) (\<lambda>_. CbReturn))
     in case r of
          RetValue VNil \<Rightarrow> set' 0
        | RetValue (VInt64 counter) \<Rightarrow> set' counter
        | _ \<Rightarrow> CbPanic ''interface conversion'')"

definition counter_edges :: "ProcessCallback edge option list" where
  "counter_edges = [Some (Input ''example-stream'' (Some StringCodec) (Some counter_cb)), Some (Persist (Some Int64Codec))]"

definition counter_group :: "ProcessCallback GroupGraph go" where
  "counter_group = DefineGroup ''example-group'' counter_edges"

definition translate_cb :: ProcessCallback where
  "translate_cb msg =
     (case msg of
        VString s \<Rightarrow> CbDo (OpSetValue (VString s) []) (\<lambda>_. CbReturn)
      | _ \<Rightarrow> CbPanic ''interface conversion'')"

definition translator_edges :: "ProcessCallback edge option list" where
  "translator_edges = [Some (Input ''translate-word'' (Some StringCodec) (Some translate_cb)), Some (Persist (Some StringCodec))]"

definition translator_group :: "ProcessCallback GroupGraph go" where
  "translator_group = DefineGroup ''translator'' translator_edges"

section \<open>Folding callbacks\<close>

text \<open>A callback that sets the value of its key to \<open>f\<close> of the old value and the message, if the old value is in
  the domain of the codec.\<close>

definition folds :: "ProcessCallback \<Rightarrow> (gval \<Rightarrow> gval \<Rightarrow> gval) \<Rightarrow> (gval \<Rightarrow> bool) \<Rightarrow> bool" where
  "folds cb f domain \<longleftrightarrow> (\<forall>b. let m = VString b in
     (\<exists>k. cb m = CbDo OpValue k \<and> (\<forall>v. v = VNil \<or> domain v \<longrightarrow> k (RetValue v) = CbDo (OpSetValue (f v m) []) (\<lambda>_. CbReturn))) \<or>
     (\<forall>v. cb m = CbDo (OpSetValue (f v m) []) (\<lambda>_. CbReturn)))"

definition fold_closed :: "(gval \<Rightarrow> gval \<Rightarrow> gval) \<Rightarrow> (gval \<Rightarrow> bool) \<Rightarrow> bool" where
  "fold_closed f domain \<longleftrightarrow> (\<forall>v b. v = VNil \<or> domain v \<longrightarrow> domain (f v (VString b)) \<and> f v (VString b) \<noteq> VNil)"

text \<open>The values of the messages with a key, without those that have none, and what they fold to.\<close>

fun key_values :: "string \<Rightarrow> ConsumerMessage list \<Rightarrow> bytes list" where
  "key_values k [] = []"
| "key_values k (m # ms) =
     (case msg_Value m of
        Some b \<Rightarrow> if slice_bytes (msg_Key m) = k then b # key_values k ms else key_values k ms
      | None \<Rightarrow> key_values k ms)"

lemma key_values_append [simp]: "key_values k (ms @ ns) = key_values k ms @ key_values k ns"
  by (induction ms) (auto split: option.splits)

definition fold_values :: "(gval \<Rightarrow> gval \<Rightarrow> gval) \<Rightarrow> bytes list \<Rightarrow> gval" where
  "fold_values f bs = foldl (\<lambda>v b. f v (VString b)) VNil bs"

lemma fold_values_snoc [simp]: "fold_values f (bs @ [b]) = f (fold_values f bs) (VString b)"
  by (simp add: fold_values_def)

lemma fold_values_domain: "fold_closed f domain \<Longrightarrow> if bs = [] then fold_values f bs = VNil else domain (fold_values f bs) \<and> fold_values f bs \<noteq> VNil"
proof (induction bs rule: rev_induct)
  case (snoc b bs)
  then have "fold_values f bs = VNil \<or> domain (fold_values f bs)" by (simp split: if_splits)
  then show ?case using snoc.prems by (auto simp: fold_closed_def)
qed (simp add: fold_values_def)

text \<open>The processor of such an application.\<close>

definition app_pp :: "ProcessCallback \<Rightarrow> string \<Rightarrow> Codec \<Rightarrow> ('s, 'v) PartitionProcessor \<Rightarrow> bool" where
  "app_pp cb topic cd pp \<longleftrightarrow> pp_nilHandling pp = NilIgnore \<and> GroupGraph_codec (pp_graph pp) topic = Some StringCodec \<and>
     (\<exists>g. GroupGraph_GroupTable (pp_graph pp) = Some g \<and> td_codec g = Some cd) \<and>
     pp_callbacks pp = (\<lambda>t. if t = topic then Some (Some cb) else None)"

lemma app_pp_fields:
  "pp_nilHandling qq = pp_nilHandling pp \<Longrightarrow> pp_graph qq = pp_graph pp \<Longrightarrow> pp_callbacks qq = pp_callbacks pp \<Longrightarrow>
   app_pp cb topic cd qq = app_pp cb topic cd pp"
  by (simp add: app_pp_def)

lemma enqueue_fields:
  "pp_nilHandling (pp_enqueueStatsUpdate skip u pp) = pp_nilHandling pp" "pp_graph (pp_enqueueStatsUpdate skip u pp) = pp_graph pp"
  "pp_callbacks (pp_enqueueStatsUpdate skip u pp) = pp_callbacks pp" "pp_table (pp_enqueueStatsUpdate skip u pp) = pp_table pp"
  by (simp_all add: pp_enqueueStatsUpdate_def)

lemma leave_pp_fields:
  "pp_nilHandling (rn_pp (rn_leave skip c c' rn)) = pp_nilHandling (rn_pp rn)" "pp_graph (rn_pp (rn_leave skip c c' rn)) = pp_graph (rn_pp rn)"
  "pp_callbacks (rn_pp (rn_leave skip c c' rn)) = pp_callbacks (rn_pp rn)" "pp_table (rn_pp (rn_leave skip c c' rn)) = cx_table c'"
  "rn_received (rn_leave skip c c' rn) = rn_received rn"
proof -
  have "pp_nilHandling (fold (\<lambda>(t, n). pp_enqueueStatsUpdate skip (UpdOutput t n)) us pp) = pp_nilHandling pp \<and>
      pp_graph (fold (\<lambda>(t, n). pp_enqueueStatsUpdate skip (UpdOutput t n)) us pp) = pp_graph pp \<and>
      pp_callbacks (fold (\<lambda>(t, n). pp_enqueueStatsUpdate skip (UpdOutput t n)) us pp) = pp_callbacks pp \<and>
      pp_table (fold (\<lambda>(t, n). pp_enqueueStatsUpdate skip (UpdOutput t n)) us pp) = pp_table pp"
    for us and pp :: "('a, 'b) PartitionProcessor"
    by (induction us arbitrary: pp) (auto simp: enqueue_fields)
  then show "pp_nilHandling (rn_pp (rn_leave skip c c' rn)) = pp_nilHandling (rn_pp rn)"
    "pp_graph (rn_pp (rn_leave skip c c' rn)) = pp_graph (rn_pp rn)" "pp_callbacks (rn_pp (rn_leave skip c c' rn)) = pp_callbacks (rn_pp rn)"
    "pp_table (rn_pp (rn_leave skip c c' rn)) = cx_table c'"
    by (simp_all add: rn_leave_def Let_def)
qed (simp add: rn_leave_def Let_def)

lemmas app_pp_simps = enqueue_fields leave_pp_fields

lemma process_received: "pp_processMessage env viewGet skip ev rn = (rn', r) \<Longrightarrow> rn_received rn' = rn_received rn"
  by (auto simp: pp_processMessage_def leave_pp_fields Let_def split: sum.splits option.splits prod.splits go.splits)

lemma resolve_received: "rn_resolve env skip i j msg err rn = (rn', r) \<Longrightarrow> rn_received rn' = rn_received rn"
  by (auto simp: rn_resolve_def leave_pp_fields Let_def split: prod.splits)

lemma run_step_received: "run_step env viewGet (pc, rn) (pc', rn') \<Longrightarrow> set (rn_received rn) \<subseteq> set (rn_received rn')"
  by (erule run_step.cases) (auto dest!: process_received resolve_received)

lemma run_step_looping: "run_step env viewGet (pc, rn) (Looping, rn') \<Longrightarrow> pc = Looping"
  by (erule run_step.cases) simp_all

text \<open>The table of such an application holds the folds of the messages.\<close>

context kv_storage
begin

definition holds :: "Codec \<Rightarrow> (gval \<Rightarrow> gval \<Rightarrow> gval) \<Rightarrow> ConsumerMessage list \<Rightarrow> 's PartitionTable \<Rightarrow> bool" where
  "holds cd f ms p \<longleftrightarrow> pt_IsRecovered p \<and> (\<exists>px. pt_st p = Some px \<and> invar (px_Storage px) \<and>
     (\<forall>k. k \<notin> reserved \<longrightarrow> (case contents (px_Storage px) k of
        None \<Rightarrow> key_values k ms = []
      | Some b \<Rightarrow> key_values k ms \<noteq> [] \<and> codec_Encode cd (fold_values f (key_values k ms)) = Inr (Some b))))"

lemma holds_key: "k \<notin> reserved \<Longrightarrow> holds cd f ms p \<Longrightarrow> pt_st p = Some px \<Longrightarrow>
  (case contents (px_Storage px) k of
        None \<Rightarrow> key_values k ms = []
      | Some b \<Rightarrow> key_values k ms \<noteq> [] \<and> codec_Encode cd (fold_values f (key_values k ms)) = Inr (Some b))"
  by (auto simp: holds_def)

lemma holds_table: "holds cd f ms p \<Longrightarrow> pt_st q = pt_st p \<Longrightarrow> pt_state q = pt_state p \<Longrightarrow> holds cd f ms q"
  by (simp add: holds_def pt_IsRecovered_def)

lemma holds_nil: "holds cd f ms p \<Longrightarrow> msg_Value m = None \<Longrightarrow> holds cd f (ms @ [m]) p"
  by (simp add: holds_def cong: option.case_cong)

lemma storeNewestOffset_holds:
  assumes "holds cd f ms p" and "int64 n" and "pt_storeNewestOffset ops n p = Ret (q, e)"
  shows "holds cd f ms q"
proof -
  obtain px where px: "pt_st p = Some px" "invar (px_Storage px)" using assms(1) unfolding holds_def by blast
  obtain s e' where s: "st_SetOffset ops (px_Storage px) n = (s, e')" by (cases "st_SetOffset ops (px_Storage px) n")
  have "q = p \<or> q = p\<lparr>pt_st := Some (px\<lparr>px_Storage := s\<rparr>)\<rparr>"
    using assms(3) px(1) s
    by (auto simp: pt_storeNewestOffset_def pt_GetOffset_def pt_SetOffset_def pt_with_def split: sum.splits if_splits)
  then show ?thesis
    using set_offset [OF px(2) assms(2) s] px assms(1) by (auto simp: holds_def pt_IsRecovered_def)
qed

lemma resolve_holds:
  assumes "cx_table c = Some p" and "holds cd f ms p" and "pred_option (\<lambda>m. int64 (pm_Offset m)) msg"
  shows "\<exists>q. cx_table (fst (cx_resolve ops i msg err c)) = Some q \<and> holds cd f ms q"
proof -
  have e: "cx_table (fst (cx_emitDone err c)) = cx_table c" for err and c :: "('s, 'v, 'cb) cbContext"
    by (simp add: cx_emitDone_def cx_tryCommit_def cx_markDone_def Let_def)
  have "\<exists>q. cx_table (fst (act_bind (cx_on_table (pt_storeNewestOffset ops n)) cx_emitDone (c\<lparr>cx_pending := x\<rparr>))) = Some q \<and> holds cd f ms q"
    if "int64 n" for n x
    using assms(1,2) storeNewestOffset_holds [OF assms(2) that]
    by (cases "pt_storeNewestOffset ops n p") (auto simp: act_bind_def cx_on_table_def e split: prod.splits)
  then show ?thesis
    using assms by (cases msg) (auto simp: cx_resolve_def Let_def e split: option.splits pending_kind.splits)
qed

text \<open>The callback on a context with such a table.\<close>

lemma callback_holds:
  assumes fold: "folds cb f domain" "fold_closed f domain" and codec: "codec_contract cd domain" and env: "te_ops env = ops"
    and g: "GroupGraph_GroupTable (cx_graph c) = Some g" "td_codec g = Some cd"
    and key: "cx_Key c \<notin> reserved" and p: "cx_table c = Some p" "holds cd f ms p"
    and m: "cx_Key c = slice_bytes (msg_Key m)" "msg_Value m = Some b"
  obtains c' q where "cx_exec env viewGet (cb (VString b)) c = (c', Ret ())" and "cx_table c' = Some q" and "holds cd f (ms @ [m]) q"
proof -
  let ?k = "cx_Key c"
  define v where "v = fold_values f (key_values ?k ms)"
  obtain px where px: "pt_st p = Some px" "invar (px_Storage px)" "pt_IsRecovered p" using p(2) unfolding holds_def by blast
  note h = holds_key [OF key p(2) px(1)]
  note d = fold_values_domain [OF fold(2), of "key_values ?k ms", folded v_def]
  have old: "v = VNil \<or> domain v" using d by (auto split: if_splits)
  have new: "domain (f v (VString b))" "f v (VString b) \<noteq> VNil" using fold(2) old by (auto simp: fold_closed_def)
  have val: "cx_Value ops c = (c, Ret v)"
  proof (rule valueForKey_contents [OF kv_storage_axioms key p(1) px(3,1,2) g])
    show "codec_Decode cd (Some x) = Inr v" if "contents (px_Storage px) ?k = Some x" for x
      using h that d codec_contract.decode_encode [OF codec, of v "Some x"] by (simp add: v_def)
    show "v = VNil" if "contents (px_Storage px) ?k = None" using h that d by simp
  qed
  obtain c' q s x where s: "cx_SetValue env (f v (VString b)) [] c = (c', Ret ())" "cx_table c' = Some q"
      "pt_st q = Some (px\<lparr>px_Storage := s\<rparr>)" "pt_state q = pt_state p" "invar s"
      "contents s = (contents (px_Storage px))(?k \<mapsto> x)" "codec_Encode cd (f v (VString b)) = Inr (Some x)"
    by (rule SetValue_stores [OF kv_storage_axioms env codec new g key p(1) px(1,2), of "[]"])
  have "(\<exists>k. cb (VString b) = CbDo OpValue k \<and> k (RetValue v) = CbDo (OpSetValue (f v (VString b)) []) (\<lambda>_. CbReturn)) \<or>
      cb (VString b) = CbDo (OpSetValue (f v (VString b)) []) (\<lambda>_. CbReturn)"
    using fold(1) old unfolding folds_def Let_def by blast
  then have "cx_exec env viewGet (cb (VString b)) c = (c', Ret ())"
    using val s(1) env by (auto simp: act_bind_def act_map_def act_return_def)
  moreover have "holds cd f (ms @ [m]) q"
    using p(2) px s m by (auto simp: holds_def pt_IsRecovered_def v_def cong: option.case_cong)
  ultimately show thesis using s(2) that by blast
qed

lemma processMessage_holds:
  assumes fold: "folds cb f domain" "fold_closed f domain" and codec: "codec_contract cd domain" and env: "te_ops env = ops"
    and pp: "app_pp cb topic cd (rn_pp rn)" "pp_table (rn_pp rn) = Some p" "holds cd f ms p"
    and key: "slice_bytes (msg_Key m) \<notin> reserved" and run: "pp_processMessage env viewGet skip m rn = (rn', Ret None)"
  shows "app_pp cb topic cd (rn_pp rn') \<and> rn_received rn' = rn_received rn \<and>
    (\<exists>q. pp_table (rn_pp rn') = Some q \<and> holds cd f (ms @ [m]) q)"
proof (cases "msg_Value m")
  case None
  then have "rn' = rn\<lparr>rn_commits := rn_commits rn @ [m]\<rparr>"
    using run pp(1) by (simp add: pp_processMessage_def pp_decode_def app_pp_def)
  then show ?thesis using pp holds_nil [OF pp(3) None] by simp
next
  case (Some b)
  obtain v where v: "pp_decode (rn_pp rn) m = Inr (Some v)" "msg_Topic m = topic"
    using run pp(1) Some
    by (auto simp: pp_processMessage_def pp_decode_def app_pp_def split: sum.splits option.splits if_splits)
  then have "v = VString b" using pp(1) Some by (simp add: pp_decode_def app_pp_def StringCodec_def String_Decode_def)
  note v = v [unfolded this]
  define c where "c = cx_start (new_cbContext m rn)"
  have c: "cx_graph c = pp_graph (rn_pp rn)" "cx_table c = Some p" "cx_Key c = slice_bytes (msg_Key m)"
    using pp(2) by (simp_all add: c_def cx_start_def new_cbContext_def cx_Key_def)
  obtain g where g: "GroupGraph_GroupTable (cx_graph c) = Some g" "td_codec g = Some cd" using pp(1) c(1) by (auto simp: app_pp_def)
  obtain c' q where c': "cx_exec env viewGet (cb (VString b)) c = (c', Ret ())" "cx_table c' = Some q" "holds cd f (ms @ [m]) q"
    by (rule callback_holds [OF fold codec env g _ c(2) pp(3) c(3) Some]) (use key c(3) in simp)
  obtain c'' r where c'': "cx_finish None c' = (c'', r)" by (cases "cx_finish None c'")
  then have t: "cx_table c'' = Some q" using c'(2)
    by (auto simp: cx_finish_def cx_tryCommit_def cx_markDone_def Let_def split: if_splits)
  have "act_bind (act_modify cx_start) (\<lambda>_. cx_exec env viewGet (cb (VString b))) (new_cbContext m rn) = (c', Ret ())"
    using c'(1) by (simp add: act_bind_def act_modify_def c_def)
  then have "rn' = (rn_leave skip (new_cbContext m rn) c'' rn)\<lparr>rn_contexts := rn_contexts rn @ [(Finished, c'')]\<rparr>"
    using run v pp(1) c'' by (simp add: pp_processMessage_def app_pp_def)
  then show ?thesis using pp(1) t c'(3) app_pp_fields [of "rn_pp rn'" "rn_pp rn"] by (simp add: app_pp_simps)
qed

lemma resolve_run_holds:
  assumes env: "te_ops env = ops" and pp: "app_pp cb topic cd (rn_pp rn)" "pp_table (rn_pp rn) = Some p" "holds cd f ms p"
    and msg: "pred_option (\<lambda>m. int64 (pm_Offset m)) msg" and run: "rn_resolve env skip i j msg err rn = (rn', r)"
  shows "app_pp cb topic cd (rn_pp rn') \<and> rn_received rn' = rn_received rn \<and>
    (\<exists>q. pp_table (rn_pp rn') = Some q \<and> holds cd f ms q)"
proof -
  obtain ph c where c: "rn_contexts rn ! i = (ph, c)" by (cases "rn_contexts rn ! i")
  obtain c' r' where c': "cx_resolve ops j msg err (rn_enter rn c) = (c', r')" by (cases "cx_resolve ops j msg err (rn_enter rn c)")
  have "cx_table (rn_enter rn c) = Some p" using pp(2) by (simp add: rn_enter_def)
  then obtain q where q: "cx_table c' = Some q" "holds cd f ms q" using resolve_holds [OF _ pp(3) msg] c' by (metis fst_conv)
  have "rn' = (rn_leave skip (rn_enter rn c) c' rn)\<lparr>rn_contexts := (rn_contexts rn)[i := (ph, c')]\<rparr>"
    using run c c' env by (simp add: rn_resolve_def)
  then show ?thesis using pp(1) q app_pp_fields [of "rn_pp rn'" "rn_pp rn"] by (simp add: app_pp_simps)
qed

text \<open>The invariant of a run that is still looping.\<close>

definition run_holds :: "ProcessCallback \<Rightarrow> string \<Rightarrow> Codec \<Rightarrow> (gval \<Rightarrow> gval \<Rightarrow> gval) \<Rightarrow> ('s, 'v) pp_run \<Rightarrow> bool" where
  "run_holds cb topic cd f rn \<longleftrightarrow> app_pp cb topic cd (rn_pp rn) \<and>
     ((\<forall>m \<in> set (rn_received rn). slice_bytes (msg_Key m) \<notin> reserved) \<longrightarrow>
      (\<exists>p. pp_table (rn_pp rn) = Some p \<and> holds cd f (rn_received rn) p))"

lemma run_holds_step:
  assumes fold: "folds cb f domain" "fold_closed f domain" and codec: "codec_contract cd domain" and env: "te_ops env = ops"
    and step: "run_step env viewGet (pc, rn) (Looping, rn')" and inv: "run_holds cb topic cd f rn"
    and keys: "\<forall>m \<in> set (rn_received rn'). slice_bytes (msg_Key m) \<notin> reserved"
  shows "run_holds cb topic cd f rn'"
  using step
proof cases
  case (msg skip ev rn2 now)
  have run: "pp_processMessage env viewGet skip ev (rn\<lparr>rn_received := rn_received rn @ [ev]\<rparr>) = (rn2, Ret None)" using msg by blast
  have rec: "rn_received rn2 = rn_received rn @ [ev]" using process_received [OF run] by simp
  have "\<forall>m \<in> set (rn_received rn @ [ev]). slice_bytes (msg_Key m) \<notin> reserved" using keys rec msg by simp
  then obtain p where p: "pp_table (rn_pp rn) = Some p" "holds cd f (rn_received rn) p" "slice_bytes (msg_Key ev) \<notin> reserved"
    using inv by (auto simp: run_holds_def)
  have "app_pp cb topic cd (rn_pp rn2) \<and> rn_received rn2 = rn_received (rn\<lparr>rn_received := rn_received rn @ [ev]\<rparr>) \<and>
    (\<exists>q. pp_table (rn_pp rn2) = Some q \<and> holds cd f (rn_received rn @ [ev]) q)"
    by (rule processMessage_holds [OF fold codec env _ _ p(2,3) run]) (use p(1) inv in \<open>simp_all add: run_holds_def\<close>)
  then show ?thesis using msg rec app_pp_fields [of "rn_pp rn'" "rn_pp rn2"] by (auto simp: run_holds_def app_pp_simps)
next
  case (resolve i msg skip j err)
  have rec: "rn_received rn' = rn_received rn" using resolve_received resolve(4) by blast
  then obtain p where p: "app_pp cb topic cd (rn_pp rn)" "pp_table (rn_pp rn) = Some p" "holds cd f (rn_received rn) p"
    using inv keys by (auto simp: run_holds_def)
  show ?thesis using resolve_run_holds [OF env p resolve(3,4)] rec by (simp add: run_holds_def)
next
  case cancel
  then show ?thesis using inv by (simp add: run_holds_def)
qed

lemma run_holds_steps:
  assumes fold: "folds cb f domain" "fold_closed f domain" and codec: "codec_contract cd domain" and env: "te_ops env = ops"
    and start: "run_holds cb topic cd f rn0" and steps: "(run_step env viewGet)\<^sup>*\<^sup>* (Looping, rn0) (Looping, rn)"
    and keys: "\<forall>m \<in> set (rn_received rn). slice_bytes (msg_Key m) \<notin> reserved"
  shows "run_holds cb topic cd f rn"
proof -
  have "fst b = Looping \<longrightarrow> (\<forall>m \<in> set (rn_received (snd b)). slice_bytes (msg_Key m) \<notin> reserved) \<longrightarrow> run_holds cb topic cd f (snd b)"
    if "(run_step env viewGet)\<^sup>*\<^sup>* (Looping, rn0) b" for b
    using that
  proof (induction rule: rtranclp_induct)
    case (step y z)
    obtain pc1 rn1 pc2 rn2 where yz: "y = (pc1, rn1)" "z = (pc2, rn2)" by (cases y, cases z)
    show ?case
    proof (intro impI)
      assume z: "fst z = Looping" "\<forall>m \<in> set (rn_received (snd z)). slice_bytes (msg_Key m) \<notin> reserved"
      then have s: "run_step env viewGet (pc1, rn1) (Looping, rn2)" using step(2) yz by simp
      then have "run_holds cb topic cd f rn1"
        using step.IH run_step_looping [OF s] run_step_received [OF s] z(2) yz by auto
      from run_holds_step [OF fold codec env s this] show "run_holds cb topic cd f (snd z)" using z(2) yz by simp
    qed
  qed (simp add: start)
  from this [OF steps] keys show ?thesis by simp
qed

end

section \<open>The counter and the translator\<close>

definition count_up :: "gval \<Rightarrow> gval \<Rightarrow> gval" where
  "count_up v m = (case v of VInt64 n \<Rightarrow> VInt64 (wrap64 (n + 1)) | _ \<Rightarrow> VInt64 (wrap64 1))"

lemma counter_folds:
  "folds counter_cb count_up (\<lambda>v. \<exists>i. v = VInt64 i \<and> int64 i)" "fold_closed count_up (\<lambda>v. \<exists>i. v = VInt64 i \<and> int64 i)"
  using wrap64_range by (auto simp: folds_def fold_closed_def counter_cb_def count_up_def Let_def)

lemma wrap64_add: "wrap64 (wrap64 a + b) = wrap64 (a + b)"
  using signed_take_bit_add [of 63 a b] signed_take_bit_add [of 63 "signed_take_bit 63 a" b] by (simp add: wrap64_def)

lemma count_up_fold: "bs \<noteq> [] \<Longrightarrow> fold_values count_up bs = VInt64 (wrap64 (int (length bs)))"
proof (induction bs rule: rev_induct)
  case (snoc b bs)
  show ?case
  proof (cases "bs = []")
    case True
    then show ?thesis by (simp add: fold_values_def count_up_def)
  next
    case False
    then show ?thesis using snoc wrap64_add [of "int (length bs)" 1] by (simp add: count_up_def ac_simps)
  qed
qed simp

lemma translator_folds:
  "folds translate_cb (\<lambda>v m. m) (\<lambda>v. \<exists>s. v = VString s)" "fold_closed (\<lambda>v m. m) (\<lambda>v. \<exists>s. v = VString s)"
  by (auto simp: folds_def fold_closed_def translate_cb_def Let_def)

lemma last_fold: "bs \<noteq> [] \<Longrightarrow> fold_values (\<lambda>v m. m) bs = VString (last bs)"
  by (induction bs rule: rev_induct) simp_all

text \<open>The processor of a group with one stream and a table.\<close>

lemma app_pp_new:
  assumes g: "DefineGroup grp [Some (Input topic (Some StringCodec) (Some cb)), Some (Persist (Some cd))] = Ret g"
    and topic: "topic \<noteq> ''''" "topic \<noteq> tableName grp" and order: "\<And>ts. set (order ts) = set ts"
    and pp: "newPartitionProcessor order now part g NilIgnore hdr mode lookups = Ret pp"
  shows "app_pp cb topic cd (pp\<lparr>pp_table := t\<rparr>)"
proof -
  have g': "g = \<lparr>gg_group = grp, gg_inputTables = [], gg_crossTables = [], gg_inputStreams = [\<lparr>td_name = topic, td_codec = Some StringCodec\<rparr>],
      gg_outputStreams = [], gg_loopStream = [], gg_groupTable = [\<lparr>td_name = tableName grp, td_codec = Some cd\<rparr>],
      gg_codecs = [topic \<mapsto> Some StringCodec, tableName grp \<mapsto> Some cd],
      gg_callbacks = [topic \<mapsto> Some cb], gg_outputStreamTopics = (\<lambda>_. False), gg_joinCheck = (\<lambda>_. False)\<rparr>"
    using g topic(1)
    by (simp add: DefineGroup_def Input_def Persist_def define_input_def validateInputTopic_def GroupTable_name_def tableName_def Let_def split: if_splits)
  have c: "GroupGraph_codec g topic = Some StringCodec" "GroupGraph_callback g topic = Some cb"
    "GroupGraph_GroupTable g = Some \<lparr>td_name = tableName grp, td_codec = Some cd\<rparr>" "GroupGraph_LoopStream g = None"
    "Edges_Topics (gg_inputStreams g) = [topic]"
    using topic(2) by (simp_all add: g' GroupGraph_codec_def GroupGraph_callback_def GroupGraph_GroupTable_def GroupGraph_LoopStream_def Edges_Topics_def)
  have "pp_callbacks pp = (\<lambda>t. if t \<in> set (order (remdups [topic])) then Some (GroupGraph_callback g t) else None)"
    "pp_nilHandling pp = NilIgnore" "pp_graph pp = g"
    using pp by (simp_all only: newPartitionProcessor_def Let_def case_prod_unfold go_bind_eq_Ret go.inject c(4,5) option.case append_Nil2)
      (elim exE conjE, hypsubst, simp only: PartitionProcessor.simps)+
  then show ?thesis using c by (auto simp: app_pp_def fun_eq_iff order)
qed

lemma holds_empty:
  assumes "kv_storage ops invar contents offset reserved fresh offset_ok"
    and "pt_IsRecovered p" and "pt_st p = Some px" and "invar (px_Storage px)" and "contents (px_Storage px) = Map.empty"
  shows "kv_storage.holds invar contents reserved cd f [] p"
  using assms(2-5) by (simp add: kv_storage.holds_def [OF assms(1)])

text \<open>C2: the counter counts. In every run of a partition processor of the counter group that starts with an
  empty table, while it is processing messages the table holds for each key the number of the messages that were
  received with this key and a value, as an int64, and no entry for other keys; whatever the order in which the
  promises are resolved and with whatever outcome, and whenever the processor is cancelled.\<close>

theorem counter_counts_messages:
  assumes kv: "kv_storage ops invar contents offset reserved fresh offset_ok" and env: "te_ops env = ops"
    and g: "counter_group = Ret g" and order: "\<And>ts. set (order ts) = set ts"
    and pp: "newPartitionProcessor order now part g NilIgnore hdr mode lookups = Ret pp"
    and start: "rn_pp rn0 = pp\<lparr>pp_table := Some p0\<rparr>" "rn_received rn0 = []" "pt_IsRecovered p0" "pt_st p0 = Some px0"
      "invar (px_Storage px0)" "contents (px_Storage px0) = Map.empty"
    and steps: "(run_step env viewGet)\<^sup>*\<^sup>* (Looping, rn0) (Looping, rn)"
    and keys: "\<forall>m \<in> set (rn_received rn). slice_bytes (msg_Key m) \<notin> reserved"
  shows "\<exists>p px. pp_table (rn_pp rn) = Some p \<and> pt_st p = Some px \<and>
    (\<forall>k. k \<notin> reserved \<longrightarrow> contents (px_Storage px) k =
       (let n = length (key_values k (rn_received rn)) in if n = 0 then None else Some (FormatInt (wrap64 (int n)))))"
proof -
  note abs = kv_storage.holds_def [OF kv] kv_storage.run_holds_def [OF kv]
  have "app_pp counter_cb ''example-stream'' Int64Codec (rn_pp rn0)"
    unfolding start(1)
    by (rule app_pp_new [OF g [unfolded counter_group_def counter_edges_def] _ _ order pp]) (simp_all add: tableName_def tableSuffix_def)
  then have "kv_storage.run_holds invar contents reserved counter_cb ''example-stream'' Int64Codec count_up rn0"
    using start holds_empty [OF kv start(3-6)] by (simp add: kv_storage.run_holds_def [OF kv])
  from kv_storage.run_holds_steps [OF kv counter_folds int64_codec.codec_contract_axioms env this steps keys] keys
  obtain p px where p: "pp_table (rn_pp rn) = Some p" "pt_st p = Some px"
    "\<forall>k. k \<notin> reserved \<longrightarrow> (case contents (px_Storage px) k of
        None \<Rightarrow> key_values k (rn_received rn) = []
      | Some b \<Rightarrow> key_values k (rn_received rn) \<noteq> [] \<and>
          codec_Encode Int64Codec (fold_values count_up (key_values k (rn_received rn))) = Inr (Some b))"
    unfolding abs by blast
  have "contents (px_Storage px) k =
      (let n = length (key_values k (rn_received rn)) in if n = 0 then None else Some (FormatInt (wrap64 (int n))))" if "k \<notin> reserved" for k
    using p(3) that count_up_fold [of "key_values k (rn_received rn)"]
    by (cases "contents (px_Storage px) k") (auto simp: Int64Codec_def Int64_Encode_def Let_def)
  with p(1,2) show ?thesis by blast
qed

text \<open>The translator keeps the last translation of a word.\<close>

lemma translator_keeps_last:
  assumes kv: "kv_storage ops invar contents offset reserved fresh offset_ok" and env: "te_ops env = ops"
    and g: "translator_group = Ret g" and order: "\<And>ts. set (order ts) = set ts"
    and pp: "newPartitionProcessor order now part g NilIgnore hdr mode lookups = Ret pp"
    and start: "rn_pp rn0 = pp\<lparr>pp_table := Some p0\<rparr>" "rn_received rn0 = []" "pt_IsRecovered p0" "pt_st p0 = Some px0"
      "invar (px_Storage px0)" "contents (px_Storage px0) = Map.empty"
    and steps: "(run_step env viewGet)\<^sup>*\<^sup>* (Looping, rn0) (Looping, rn)"
    and keys: "\<forall>m \<in> set (rn_received rn). slice_bytes (msg_Key m) \<notin> reserved" and k: "k \<notin> reserved" "key_values k (rn_received rn) \<noteq> []"
  shows "\<exists>p px. pp_table (rn_pp rn) = Some p \<and> pt_st p = Some px \<and> contents (px_Storage px) k = Some (last (key_values k (rn_received rn)))"
proof -
  note abs = kv_storage.holds_def [OF kv] kv_storage.run_holds_def [OF kv]
  have "app_pp translate_cb ''translate-word'' StringCodec (rn_pp rn0)"
    unfolding start(1)
    by (rule app_pp_new [OF g [unfolded translator_group_def translator_edges_def] _ _ order pp]) (simp_all add: tableName_def tableSuffix_def)
  then have "kv_storage.run_holds invar contents reserved translate_cb ''translate-word'' StringCodec (\<lambda>v m. m) rn0"
    using start holds_empty [OF kv start(3-6)] by (simp add: kv_storage.run_holds_def [OF kv])
  from kv_storage.run_holds_steps [OF kv translator_folds string_codec.codec_contract_axioms env this steps keys] keys
  obtain p px where p: "pp_table (rn_pp rn) = Some p" "pt_st p = Some px"
    "\<forall>k. k \<notin> reserved \<longrightarrow> (case contents (px_Storage px) k of
        None \<Rightarrow> key_values k (rn_received rn) = []
      | Some b \<Rightarrow> key_values k (rn_received rn) \<noteq> [] \<and>
          codec_Encode StringCodec (fold_values (\<lambda>v m. m) (key_values k (rn_received rn))) = Inr (Some b))"
    unfolding abs by blast
  have "contents (px_Storage px) k = Some (last (key_values k (rn_received rn)))"
    using p(3) k last_fold [OF k(2)]
    by (cases "contents (px_Storage px) k") (auto simp: StringCodec_def String_Encode_def)
  with p(1,2) show ?thesis by blast
qed

section \<open>Samples\<close>

definition sample_counter_pp :: "(memory, unit) PartitionProcessor go" where
  "sample_counter_pp = go_bind counter_group (\<lambda>g. newPartitionProcessor id 0 0 g NilIgnore None runModeActive None)"

definition sample_counter_table :: "memory PartitionTable" where
  "sample_counter_table = (sample_table NewMemory)\<lparr>pt_state := (NewSignal [PartitionStopped, PartitionRunning])\<lparr>sig_state := PartitionRunning\<rparr>\<rparr>"

definition sample_counter_rn :: "(memory, unit) pp_run" where
  "sample_counter_rn = sample_rn\<lparr>rn_pp := (case sample_counter_pp of Ret pp \<Rightarrow> pp\<lparr>pp_table := Some sample_counter_table\<rparr> | Panic m \<Rightarrow> sample_pp)\<rparr>"

definition sample_counted :: "(memory, unit) pp_run" where
  "sample_counted = sample_take ((sample_message 0 ''k'' (Some ''x''))\<lparr>msg_Topic := ''example-stream''\<rparr>) sample_counter_rn"

lemma sample_counted_steps: "(run_step sample_cx_env sample_viewGet)\<^sup>*\<^sup>* (Looping, sample_counter_rn) (Looping, sample_counted)"
  unfolding sample_counted_def by (rule r_into_rtranclp, rule sample_takes) code_simp

theorem counter_counts_messages_witness:
  "\<exists>p px. pp_table (rn_pp sample_counted) = Some p \<and> pt_st p = Some px \<and> mem_storage (px_Storage px) ''k'' = Some ''1''"
proof -
  have "go_ok counter_group" "go_ok sample_counter_pp" by code_simp+
  then obtain g pp where g: "counter_group = Ret g" and pp: "sample_counter_pp = Ret pp" by (metis go.exhaust go_ok.simps(2))
  have n: "newPartitionProcessor id 0 0 g NilIgnore None runModeActive None = Ret pp"
    using pp by (simp only: sample_counter_pp_def g go_bind.simps)
  have s: "rn_pp sample_counter_rn = pp\<lparr>pp_table := Some sample_counter_table\<rparr>" "rn_received sample_counter_rn = []"
    by (simp_all add: sample_counter_rn_def pp sample_rn_def)
  have v: "length (key_values ''k'' (rn_received sample_counted)) = 1" "FormatInt (wrap64 (int 1)) = ''1''" by code_simp+
  have t: "pt_IsRecovered sample_counter_table" by code_simp
  obtain px where px: "pt_st sample_counter_table = Some px" "px_Storage px = NewMemory"
    by (simp add: sample_counter_table_def sample_table_def)
  have "\<exists>p px. pp_table (rn_pp sample_counted) = Some p \<and> pt_st p = Some px \<and>
    (\<forall>k. k \<notin> {} \<longrightarrow> mem_storage (px_Storage px) k =
       (let n = length (key_values k (rn_received sample_counted)) in if n = 0 then None else Some (FormatInt (wrap64 (int n)))))"
    by (rule counter_counts_messages [OF mem.kv_storage_axioms sample_ops g _ n s t px(1) _ _ sample_counted_steps])
      (simp_all add: px(2) NewMemory_def memory_invar_def)
  then obtain p px where p: "pp_table (rn_pp sample_counted) = Some p" "pt_st p = Some px"
    "mem_storage (px_Storage px) ''k'' = (let n = length (key_values ''k'' (rn_received sample_counted)) in
       if n = 0 then None else Some (FormatInt (wrap64 (int n))))" by blast
  then show ?thesis using v by (simp only: Let_def) simp
qed

end
