(* ===== verification/Spec2Isabelle.thy ===== *)
theory Spec2Isabelle
  imports Goka_Multierr Goka_Headers Goka_Codec Goka_Signal Goka_Storage Goka_LevelDB Goka_Merge_Iterator Goka_Stats Goka_Partition_Table Goka_Graph Goka_Producer
    Goka_Context Goka_Partition_Processor Goka_Hash Goka_View Goka_Processor Goka_Copartition Goka_Topic_Manager Goka_Tester
    Goka_Logger Goka_Config Goka_Storage_Builders Goka_Redis Goka_Options Goka_Tester_Run Goka_Web Goka_Examples
begin

text \<open>
  A verification of goka, a Go library for stream processing on Apache Kafka.

  \<^bold>\<open>The program.\<close> A \<^emph>\<open>processor\<close> (\<open>processor.go\<close>) is a member of a consumer group. For each partition that a
  session assigns to it, it runs a \<^emph>\<open>partition processor\<close> (\<open>partition_processor.go\<close>), which calls the user's
  callback for each message with a \<^emph>\<open>context\<close> (\<open>context.go\<close>). Through the context the callback emits messages
  (\<open>producer.go\<close>, \<open>promise.go\<close>) and reads and writes the group table, a \<^emph>\<open>partition table\<close>
  (\<open>partition_table.go\<close>): a local storage (\<open>storage/\<close>) that is rebuilt from a changelog topic. When all that a
  callback has emitted is acknowledged, the message is committed. A \<^emph>\<open>view\<close> (\<open>view.go\<close>) is a read-only copy of
  a whole table, an \<^emph>\<open>emitter\<close> (\<open>emitter.go\<close>) sends messages from outside. The topology of a group is its
  \<^emph>\<open>graph\<close> (\<open>graph.go\<close>); the \<^emph>\<open>topic manager\<close> (\<open>topic_manager.go\<close>) checks and creates its topics, and the
  \<^emph>\<open>copartitioning strategy\<close> (\<open>copartition_strategy.go\<close>) distributes partitions among the members. \<open>tester/\<close>
  replaces Kafka by queues in memory, \<open>web/\<close> shows processors and views in a browser.

  \<^bold>\<open>Conventions.\<close> A struct is a record, a method a function of it with the same name, often with a prefix for
  the type (\<open>pt_\<close> for the partition table, \<open>pp_\<close> for the partition processor, \<open>pr_\<close> for the processor, \<open>cx_\<close> for
  the context). Errors are values of a sum or option type, panics are the constructor \<open>Panic\<close> of \<open>'a go\<close>, and the
  text of an error is the format string of the source. Integers are \<^typ>\<open>int\<close> with \<open>wrap64\<close> and \<open>wrap32\<close> where
  the source may overflow, or words. Go maps are association lists with distinct keys where their order matters.
  Methods under a mutex are atomic; goroutines are interleaved as steps of a relation, or their outcomes are
  arguments. A result \<open>None\<close> of a function that waits means that it is still waiting. What is not part of the
  repository (sarama, goleveldb, the Redis client, the router, templates and JSON) is a parameter, with what is
  assumed of it as named hypotheses; each of them has an instance in a witness.

  \<^bold>\<open>Theories, and what they show.\<close>
  \<^item> \<open>Goka_Prelude\<close>: Go values, errors, panics, machine integers, maps.
  \<^item> \<open>Goka_Multierr\<close> (\<open>multierr/\<close>), \<open>Goka_Headers\<close> (\<open>headers/\<close>), \<open>Goka_Codec\<close> (\<open>codec/\<close>, with \<open>strconv\<close>): what a
    group of tasks reports does not depend on their order; round trips of headers and codecs. The locale
    \<open>codec_contract\<close> is the interface of a codec.
  \<^item> \<open>Goka_Signal\<close> (\<open>signal.go\<close>): waiters are released exactly when their state is reached; observers see
    every change.
  \<^item> \<open>Goka_Storage\<close> (\<open>storage/memory.go\<close>, \<open>null.go\<close>, \<open>append.go\<close>), \<open>Goka_LevelDB\<close> (\<open>storage/storage.go\<close>,
    \<open>iterator.go\<close>), \<open>Goka_Redis\<close> (\<open>storage/redis\<close>), \<open>Goka_Storage_Builders\<close>: the locale \<open>kv_storage\<close> is the contract
    of a storage, a map with an offset; the in-memory, LevelDB and Redis storages satisfy it; a restart finds what
    was stored; the default paths never clash. \<open>Goka_Merge_Iterator\<close>: iterating over several storages, each
    with the locale \<open>ordered_iterator\<close>, is sorted and ends.
  \<^item> \<open>Goka_Stats\<close> (\<open>stats.go\<close>), \<open>Goka_Partition_Table\<close>: recovery replays the log and then reads from where it
    stopped; the offset never goes back; statistics.
  \<^item> \<open>Goka_Graph\<close>, \<open>Goka_Producer\<close> (with the emitter): a validated graph is consistent; every promise calls each
    callback once; \<open>Finish\<close> waits for all messages.
  \<^item> \<open>Goka_Context\<close>, \<open>Goka_Partition_Processor\<close>: a message is committed at most once, and only when
    everything it emitted is acknowledged; the table agrees with its changelog until the processor is cancelled; a
    run loop that ends without an error has committed all that it took.
  \<^item> \<open>Goka_Hash\<close>, \<open>Goka_View\<close>, \<open>Goka_Processor\<close>: a key is found in its partition, by views and processors alike;
    iteration, state and lookups of views; sessions start exactly the assigned partitions.
  \<^item> \<open>Goka_Float\<close>, \<open>Goka_Copartition\<close>: float64 arithmetic by rounding of rationals; the plan covers every
    partition once. \<open>Goka_Topic_Manager\<close>: ensured topics have the requested layout; the locale \<open>topic_manager\<close> is
    what a processor relies on, and the mocked manager of the tester satisfies it too.
  \<^item> \<open>Goka_Logger\<close>, \<open>Goka_Config\<close>, \<open>Goka_Options\<close>: loggers, configurations as shared objects, builders, and the
    options of processors, views and emitters; an emitted key is found by a processor with the same options.
  \<^item> \<open>Goka_Tester\<close>, \<open>Goka_Tester_Run\<close> (\<open>tester/\<close>): messages are delivered to the claims in order, and waiting for
    the clients ends with everything delivered.
  \<^item> \<open>Goka_Web\<close> (\<open>web/\<close>): the pages of the query server and of the monitor.
  \<^item> \<open>Goka_Examples\<close> (\<open>examples/1-simplest\<close>, \<open>examples/3-messaging/translator\<close>): what these applications keep in
    their tables, in every run of a partition processor.
  \<^item> This theory: from the plan of a rebalance to the sessions of the members, and from the graph of a group to
    the topics of the cluster.

  \<^bold>\<open>Defects.\<close> Some theorems state what the code does against its intention: a hash sum of \<open>0x80000000\<close> makes a
  lookup panic, a failed consumer leaves a table recovered and empty, \<open>Fail\<close> lets a cancelled callback go on,
  messages are committed out of order, the wait for the startup tables never returns nil, the Redis iterator skips
  the first entry, producers share a configuration given by the user, and concurrent requests to the monitor
  exchange their pages.

  \<^bold>\<open>Loops.\<close> Functions are total unless noted. \<open>waitForClients\<close> is a partial function, shown to return for clients
  that are views. The fuel of \<open>iterate\<close> and of the merge iterator bounds the calls of \<open>Next\<close>; the theorems state
  that the number of the entries plus one is enough. Loops that serve until they are stopped are step relations or
  functions of the list of events that they see.

  \<^bold>\<open>Not modelled.\<close> Time: timeouts and tickers are events that may happen. Log output, except for the loggers
  themselves. The formatting of values into texts of errors, and of stack traces (\<open>errors.go\<close>). Generated code
  (\<open>mocks.go\<close>, \<open>mockssarama.go\<close>, \<open>web/templates/bindata.go\<close>), the doubles of the unit tests (\<open>mock*.go\<close>) and test
  support. The matching of routes. The examples whose values are structs encoded as JSON: the encoding is not a
  part of the repository, and the programs only start the library. Data races beyond the ones that are named: Go
  gives no meaning to them.
\<close>

section \<open>Rebalancing and sessions\<close>

text \<open>C9: the processors of a group share its partitions. If the members request copartitioned topics, the
  plan of the leader gives each partition to exactly one member; and whatever claims a member's session has
  under this plan, in whatever order, the processor accepts them, with the member's partitions as its
  assignment.\<close>

theorem plan_gives_valid_sessions:
  assumes get: "\<And>p m t ps m' t'. get (add p m t ps) m' t' = (if m' = m \<and> t' = t then get p m t @ ps else get p m' t' :: int list)"
    and noPlan: "\<And>m t. get noPlan m t = []"
    and topics: "topics \<noteq> []" "\<forall>(t, ps) \<in> set topics. distinct ps \<and> set ps = set parts"
    and parts: "distinct parts" "parts \<noteq> []" "length parts < 2 ^ 31"
    and members: "gomap members" "\<forall>(m, ts) \<in> set members. distinct ts" "members \<noteq> []" "length members < 2 ^ 31"
    and strict: "failOnInconsistentTopics s \<longrightarrow> (\<forall>(m, ts) \<in> set members. topicsEqual (map fst topics) ts)"
  shows "\<exists>plan rs. Plan add noPlan fused s members topics = Ret (Inr plan) \<and>
    length rs = length members \<and> distinct (concat rs) \<and> set (concat rs) = set parts \<and>
    (\<forall>k < length members. \<forall>claims. claims \<noteq> [] \<and>
       (\<forall>(t, ps) \<in> set claims. t \<in> set (the (map_of members (sort (map fst members) ! k))) \<and> ps = get plan (sort (map fst members) ! k) t) \<longrightarrow>
       (\<exists>a. pr_assignmentFromSession claims = Inr (Some a) \<and> gomap a \<and> fst ` set a = set (rs ! k)))"
proof -
  obtain plan step where p: "Plan add noPlan fused s members topics = Ret (Inr plan)"
    "concat (map (plan_range fused step (sort parts)) [0..<length members]) = sort parts"
    "\<forall>k < length members. \<forall>t. get plan (sort (map fst members) ! k) t =
       (if t \<in> set (the (map_of members (sort (map fst members) ! k))) then plan_range fused step (sort parts) k else [])"
    using Plan_ranges [OF assms, of fused] by blast
  let ?rs = "map (plan_range fused step (sort parts)) [0..<length members]"
  have d: "distinct (concat ?rs)" "set (concat ?rs) = set parts" using p(2) parts(1) by (simp_all only: distinct_sort set_sort)
  have "\<exists>a. pr_assignmentFromSession claims = Inr (Some a) \<and> gomap a \<and> fst ` set a = set (?rs ! k)"
    if k: "k < length members" and c: "claims \<noteq> []"
      "\<forall>(t, ps) \<in> set claims. t \<in> set (the (map_of members (sort (map fst members) ! k))) \<and> ps = get plan (sort (map fst members) ! k) t"
    for k claims
  proof -
    have snd: "snd x = ?rs ! k" if "x \<in> set claims" for x using that c(2) p(3) k by (cases x) auto
    have "?rs ! k \<in> set ?rs" using k by (intro nth_mem) simp
    then have "distinct (?rs ! k)" using d(1) by (simp only: distinct_concat_iff)
    then have "\<forall>x \<in> set claims. distinct (snd x)" using snd by metis
    note accepted = assignment_is_copartitioned [OF c(1) this]
    have same: "\<not> (\<exists>c d. c \<in> set claims \<and> d \<in> set claims \<and> set (snd c) \<noteq> set (snd d))" using snd by metis
    obtain a where a: "pr_assignmentFromSession claims = Inr (Some a)"
    proof (cases "pr_assignmentFromSession claims")
      case (Inl err)
      then show ?thesis using accepted same by (simp only: sum.case)
    next
      case (Inr r)
      then show ?thesis using accepted that by (cases r) simp_all
    qed
    then have "gomap a" "\<forall>c \<in> set claims. set (snd c) = fst ` set a" using accepted [unfolded a sum.case option.case] by blast+
    then show ?thesis using a snd hd_in_set [OF c(1)] by metis
  qed
  then show ?thesis using p(1) d by (intro exI [of _ plan] exI [of _ ?rs]) simp
qed

theorem plan_gives_valid_sessions_witness:
  "\<exists>plan a b. Plan sample_add (\<lambda>m t. []) True StrictCopartitioningStrategy [(''b'', [''x'', ''y'']), (''a'', [''y'', ''x''])]
       [(''x'', [2, 0, 1]), (''y'', [0, 1, 2])] = Ret (Inr plan) \<and>
     pr_assignmentFromSession [(''x'', plan ''a'' ''x''), (''y'', plan ''a'' ''y'')] = Inr (Some a) \<and>
     pr_assignmentFromSession [(''y'', plan ''b'' ''y'')] = Inr (Some b) \<and>
     fst ` set a \<union> fst ` set b = {0, 1, 2} \<and> fst ` set a \<inter> fst ` set b = {}"
proof -
  let ?ms = "[(''b'', [''x'', ''y'']), (''a'', [''y'', ''x''])]" and ?ts = "[(''x'', [2, 0, 1 :: int]), (''y'', [0, 1, 2])]"
  have s: "sort (map fst ?ms) = [''a'', ''b'']" by code_simp
  have e: "set [0, 1, 2 :: int] = set [2, 0, 1]" by auto
  have "\<exists>plan rs. Plan sample_add (\<lambda>m t. []) True StrictCopartitioningStrategy ?ms ?ts = Ret (Inr plan) \<and>
    length rs = length ?ms \<and> distinct (concat rs) \<and> set (concat rs) = set [2, 0, 1] \<and>
    (\<forall>k < length ?ms. \<forall>claims. claims \<noteq> [] \<and>
       (\<forall>(t, ps) \<in> set claims. t \<in> set (the (map_of ?ms (sort (map fst ?ms) ! k))) \<and> ps = plan (sort (map fst ?ms) ! k) t) \<longrightarrow>
       (\<exists>a. pr_assignmentFromSession claims = Inr (Some a) \<and> gomap a \<and> fst ` set a = set (rs ! k)))"
    using e by (intro plan_gives_valid_sessions) (auto simp: sample_add_def StrictCopartitioningStrategy_def topicsEqual_def)
  then obtain plan rs where p: "Plan sample_add (\<lambda>m t. []) True StrictCopartitioningStrategy ?ms ?ts = Ret (Inr plan)"
    and rs: "length rs = length ?ms" "distinct (concat rs)" "set (concat rs) = set [2, 0, 1]"
    and a: "\<forall>k < length ?ms. \<forall>claims. claims \<noteq> [] \<and>
       (\<forall>(t, ps) \<in> set claims. t \<in> set (the (map_of ?ms ([''a'', ''b''] ! k))) \<and> ps = plan ([''a'', ''b''] ! k) t) \<longrightarrow>
       (\<exists>a. pr_assignmentFromSession claims = Inr (Some a) \<and> gomap a \<and> fst ` set a = set (rs ! k))"
    unfolding s by blast
  obtain r1 r2 where r: "rs = [r1, r2]" using rs(1) by (auto simp: length_Suc_conv)
  then have u: "set r1 \<union> set r2 = {0, 1, 2}" "set r1 \<inter> set r2 = {}" using rs(2,3) by auto
  obtain x where "pr_assignmentFromSession [(''x'', plan ''a'' ''x''), (''y'', plan ''a'' ''y'')] = Inr (Some x)" "fst ` set x = set r1"
    using a [rule_format, of 0 "[(''x'', plan ''a'' ''x''), (''y'', plan ''a'' ''y'')]"] r by auto
  moreover obtain y where "pr_assignmentFromSession [(''y'', plan ''b'' ''y'')] = Inr (Some y)" "fst ` set y = set r2"
    using a [rule_format, of 1 "[(''y'', plan ''b'' ''y'')]"] r by auto
  ultimately show ?thesis using p u by blast
qed

section \<open>Topics\<close>

text \<open>C11: a processor prepares its topics on the cluster. With a topic manager that fails on mismatches, if the
  preparation succeeds with a number of partitions, then afterwards every topic that has to be copartitioned,
  the loop topic and the group table topic exist with exactly that number of partitions; and every topic that
  existed still has its partitions.\<close>

theorem processor_topics_match:
  assumes laws: "cluster_laws ops detail" and fail: "tmc_MismatchBehavior tmc = TMConfigMismatchBehaviorFail"
    and admin: "adminSupported ops" and repl: "int16 (tmc_Stream_Replication tmc)" "int16 (tmc_Table_Replication tmc)"
    and ne: "Edges_Topics (GroupGraph_copartitioned gg) \<noteq> []"
    and run: "prepareTopics (Inr (topicManager ops tmc)) gg c = (c', Inr n)"
    and "names = set (Edges_Topics (GroupGraph_copartitioned gg)) \<union> td_name ` set_option (GroupGraph_LoopStream gg) \<union>
      td_name ` set_option (GroupGraph_GroupTable gg)"
  shows "(\<forall>t \<in> names. \<exists>d. detail c' t = Some d \<and> NumPartitions d = n) \<and>
    (\<forall>t d. detail c t = Some d \<longrightarrow> (\<exists>d'. detail c' t = Some d' \<and> NumPartitions d' = NumPartitions d))"
proof -
  let ?parts = "\<lambda>c t. map_option (\<lambda>d. map int [0..<nat (NumPartitions d)]) (detail c t)"
  note prepared = topic_manager.prepared_topics [OF topicManager_contract [OF laws fail admin repl] run ne]
  have num: "\<exists>d. detail c' t = Some d \<and> NumPartitions d = m" if p: "?parts c' t = Some (map int [0..<nat m])" "0 < m" for t m
  proof -
    obtain d where d: "detail c' t = Some d" "map int [0..<nat (NumPartitions d)] = map int [0..<nat m]"
      using p(1) by (cases "detail c' t") simp_all
    from map_eq_imp_length_eq [OF d(2)] have "nat (NumPartitions d) = nat m" by simp
    then show ?thesis using laws_detail [OF laws d(1)] p(2) d(1) by simp
  qed
  obtain t0 where "t0 \<in> set (Edges_Topics (GroupGraph_copartitioned gg))" using ne hd_in_set by blast
  then obtain d0 where d0: "detail c' t0 = Some d0" "map int [0..<nat (NumPartitions d0)] = map int [0..<nat n]" using prepared by auto
  have "nat (NumPartitions d0) = nat n" using map_eq_imp_length_eq [OF d0(2)] by simp
  then have "0 < n" using laws_detail [OF laws d0(1)] by linarith
  moreover have "\<forall>t \<in> names. ?parts c' t = Some (map int [0..<nat n])" using prepared assms(8) by auto
  ultimately have "\<forall>t \<in> names. \<exists>d. detail c' t = Some d \<and> NumPartitions d = n" using num by blast
  moreover have "\<exists>d'. detail c' t = Some d' \<and> NumPartitions d' = NumPartitions d" if d: "detail c t = Some d" for t d
  proof -
    have "?parts c \<subseteq>\<^sub>m ?parts c'" using prepared by blast
    moreover have "t \<in> dom (?parts c)" using d by (simp add: dom_def)
    ultimately have "?parts c' t = ?parts c t" unfolding map_le_def by metis
    then show ?thesis using num [of t "NumPartitions d"] d laws_detail [OF laws d] by simp
  qed
  ultimately show ?thesis by blast
qed

theorem processor_topics_match_witness:
  "\<exists>c' d. prepareTopics (Inr (topicManager sample_cluster sample_tmc)) sample_group
       [(''in'', \<lparr>NumPartitions = 3, ReplicationFactor = 1, ConfigEntries = []\<rparr>)] = (c', Inr 3) \<and>
     map_of (sample_topics c') ''g-table'' = Some d \<and> NumPartitions d = 3"
proof -
  let ?r = "prepareTopics (Inr (topicManager sample_cluster sample_tmc)) sample_group
       [(''in'', \<lparr>NumPartitions = 3, ReplicationFactor = 1, ConfigEntries = []\<rparr>)]"
  have "snd ?r = Inr 3" by code_simp
  then obtain c' where r: "?r = (c', Inr 3)" by (metis prod.collapse)
  have g: "Edges_Topics (GroupGraph_copartitioned sample_group) \<noteq> []" "map_option td_name (GroupGraph_GroupTable sample_group) = Some ''g-table''"
    by code_simp+
  have "tmc_MismatchBehavior sample_tmc = TMConfigMismatchBehaviorFail" "adminSupported sample_cluster"
    "int16 (tmc_Stream_Replication sample_tmc)" "int16 (tmc_Table_Replication sample_tmc)" by code_simp+
  from processor_topics_match [OF sample_cluster_laws this g(1) r refl] g(2) r show ?thesis by auto
qed

end
